(* ===== verification/Prelude.thy ===== *)
theory Prelude
  imports Main "HOL-Library.State_Monad"
begin

text \<open>
  The shared base of the development: the Go standard library functions on
  strings, numbers, times and durations that the program calls, the error
  values with their wrap chains, and the collections of simplification rules
  the component theories extend.
\<close>

section \<open>Collections of rules\<close>

named_theorems go_string \<open>unfolding of the Go string functions\<close>
named_theorems apply_defs \<open>unfolding of the state mutations sent on the update channel\<close>
named_theorems emits \<open>compositional rules for the effects a computation may have\<close>
named_theorems allows \<open>compositional rules for a bound on the single effects\<close>
named_theorems keeps \<open>preservation of the row invariant by the state mutations\<close>

section \<open>Strings (package strings)\<close>

definition HasPrefix :: "string \<Rightarrow> string \<Rightarrow> bool" where
  "HasPrefix s p \<longleftrightarrow> take (length p) s = p"

definition HasSuffix :: "string \<Rightarrow> string \<Rightarrow> bool" where
  "HasSuffix s p \<longleftrightarrow> HasPrefix (rev s) (rev p)"

definition TrimPrefix :: "string \<Rightarrow> string \<Rightarrow> string" where
  "TrimPrefix s p = (if HasPrefix s p then drop (length p) s else s)"

fun Index :: "string \<Rightarrow> string \<Rightarrow> nat option" where
  "Index [] p = (if p = [] then Some 0 else None)"
| "Index (c # s) p = (if HasPrefix (c # s) p then Some 0 else map_option Suc (Index s p))"

definition Contains :: "string \<Rightarrow> string \<Rightarrow> bool" where
  "Contains s p \<longleftrightarrow> Index s p \<noteq> None"

text \<open>\<open>strings.LastIndex\<close> for a one-character separator.\<close>

fun LastIndex :: "string \<Rightarrow> char \<Rightarrow> nat option" where
  "LastIndex [] c = None"
| "LastIndex (x # s) c =
     (case LastIndex s c of Some i \<Rightarrow> Some (Suc i) | None \<Rightarrow> if x = c then Some 0 else None)"

lemma HasPrefix_append [simp]: "HasPrefix (p @ s) p"
  by (simp add: HasPrefix_def)

lemma HasPrefix_iff: "HasPrefix s p \<longleftrightarrow> (\<exists>t. s = p @ t)"
  by (metis HasPrefix_def append_eq_conv_conj append_take_drop_id)

lemma HasPrefix_Nil [simp]: "HasPrefix s []"
  by (simp add: HasPrefix_def)

lemma HasPrefix_Cons [simp]:
  "HasPrefix (c # s) (d # p) \<longleftrightarrow> c = d \<and> HasPrefix s p"
  "\<not> HasPrefix [] (d # p)"
  by (auto simp: HasPrefix_def)

lemma TrimPrefix_append [simp]: "TrimPrefix (p @ s) p = s"
  by (simp add: TrimPrefix_def)

lemma Index_Some: "Index s p = Some i \<Longrightarrow> i + length p \<le> length s \<and> take (length p) (drop i s) = p"
proof (induction s p arbitrary: i rule: Index.induct)
  case (1 p)
  then show ?case by (auto split: if_splits)
next
  case (2 c s p)
  show ?case
  proof (cases "HasPrefix (c # s) p")
    case True
    then have "length p \<le> length (c # s)" by (metis HasPrefix_def length_take min.cobounded1)
    with True 2(2) show ?thesis by (auto simp: HasPrefix_def)
  next
    case False
    with 2(2) obtain j where "Index s p = Some j" and "i = Suc j" by auto
    with 2(1)[OF False, of j] show ?thesis by simp
  qed
qed

lemma Index_prefix_free:
  "Index s p = Some i \<Longrightarrow> j < i \<Longrightarrow> \<not> HasPrefix (drop j s) p"
proof (induction s p arbitrary: i j rule: Index.induct)
  case (1 p)
  then show ?case by (auto split: if_splits)
next
  case (2 c s p)
  show ?case
  proof (cases j)
    case 0
    with 2 show ?thesis by (auto split: if_splits)
  next
    case (Suc k)
    with 2(2,3) obtain i' where "\<not> HasPrefix (c # s) p" "Index s p = Some i'" "i = Suc i'"
      by (auto split: if_splits)
    with 2(1)[of i' k] 2(3) Suc show ?thesis by simp
  qed
qed

lemma Contains_append: "Contains (a @ p @ b) p"
  unfolding Contains_def
proof (induction a)
  case Nil
  have "HasPrefix (p @ b) p" by simp
  then show ?case by (cases "p @ b") auto
qed auto

lemma Contains_iff: "Contains s p \<longleftrightarrow> (\<exists>a b. s = a @ p @ b)"
proof
  assume "Contains s p"
  then obtain i where "Index s p = Some i" by (auto simp: Contains_def)
  from Index_Some [OF this] have "s = take i s @ p @ drop (i + length p) s"
    by (metis append.assoc append_take_drop_id take_add)
  then show "\<exists>a b. s = a @ p @ b" by blast
qed (auto intro: Contains_append)

lemma Index_None_iff: "Index s [c] = None \<longleftrightarrow> c \<notin> set s"
  by (induction s) auto

lemma LastIndex_None: "LastIndex s c = None \<longleftrightarrow> c \<notin> set s"
  by (induction s) (auto split: option.splits)

lemma LastIndex_Some:
  "LastIndex s c = Some i \<Longrightarrow> s = take i s @ c # drop (Suc i) s \<and> c \<notin> set (drop (Suc i) s)"
proof (induction s arbitrary: i)
  case Nil
  then show ?case by simp
next
  case (Cons x s)
  show ?case
  proof (cases "LastIndex s c")
    case None
    with Cons.prems show ?thesis by (auto simp: LastIndex_None split: if_splits)
  next
    case (Some j)
    with Cons show ?thesis by auto
  qed
qed

lemma LastIndex_append:
  "c \<notin> set t \<Longrightarrow> LastIndex (s @ c # t) c = Some (length s)"
proof (induction s)
  case Nil
  then have "LastIndex t c = None" by (simp add: LastIndex_None)
  then show ?case by simp
qed simp

section \<open>Numbers (packages strconv, fmt)\<close>

definition digit :: "nat \<Rightarrow> char" where
  "digit n = char_of (48 + n mod 10)"

fun show_nat :: "nat \<Rightarrow> string" where
  "show_nat n = (if n < 10 then [digit n] else show_nat (n div 10) @ [digit n])"

declare show_nat.simps [simp del]

definition show_int :: "int \<Rightarrow> string" where
  "show_int i = (if i < 0 then ''-'' @ show_nat (nat (- i)) else show_nat (nat i))"

text \<open>\<open>%q\<close> on ASCII text: double quotes, with quotes and backslashes escaped.\<close>

fun quote_char :: "char \<Rightarrow> string" where
  "quote_char c = (if c = CHR 0x22 \<or> c = CHR 0x5C then [CHR 0x5C, c] else [c])"

definition quote :: "string \<Rightarrow> string" where
  "quote s = CHR 0x22 # concat (map quote_char s) @ [CHR 0x22]"

section \<open>Times and durations (package time)\<close>

text \<open>
  A \<open>time.Time\<close> is its instant, in nanoseconds since 0001-01-01T00:00:00Z, so
  that the zero value of the Go type is 0. A \<open>time.Duration\<close> is a number of
  nanoseconds.
\<close>

type_synonym Time = int
type_synonym Duration = int

text \<open>A signed 64-bit result.\<close>

definition wrap64 :: "int \<Rightarrow> int" where
  "wrap64 i = (i + 2 ^ 63) mod 2 ^ 64 - 2 ^ 63"

lemma wrap64_small: "0 \<le> i \<Longrightarrow> i < 2 ^ 63 \<Longrightarrow> wrap64 i = i"
  by (simp add: wrap64_def)

definition IsZero :: "Time \<Rightarrow> bool" where
  "IsZero t \<longleftrightarrow> t = 0"

definition nanosecond_per_second :: int where
  "nanosecond_per_second = 1000000000"

definition Second :: Duration where
  "Second = nanosecond_per_second"

definition unix_epoch :: int where
  "unix_epoch = 62135596800"

definition Unix :: "Time \<Rightarrow> int" where
  "Unix t = t div nanosecond_per_second - unix_epoch"

definition Before :: "Time \<Rightarrow> Time \<Rightarrow> bool" where
  "Before t u \<longleftrightarrow> t < u"

definition After :: "Time \<Rightarrow> Time \<Rightarrow> bool" where
  "After t u \<longleftrightarrow> t > u"

lemma Unix_mono: "t \<le> u \<Longrightarrow> Unix t \<le> Unix u"
  by (simp add: Unix_def nanosecond_per_second_def zdiv_mono1)

lemma Unix_less_imp_Before: "Unix t < Unix u \<Longrightarrow> Before t u"
  using Unix_mono [of u t] by (fastforce simp: Before_def)

text \<open>
  \<open>time.Parse\<close> with the layouts \<open>RFC3339Nano\<close> and \<open>RFC3339\<close>, which accept the
  same texts: the parser takes a fraction of a second whether or not the layout
  has one, and any number of its digits.
\<close>

definition is_digit :: "char \<Rightarrow> bool" where
  "is_digit c \<longleftrightarrow> 48 \<le> (of_char c :: nat) \<and> (of_char c :: nat) \<le> 57"

definition digit_val :: "char \<Rightarrow> int" where
  "digit_val c = of_char c - 48"

text \<open>\<open>strconv.Atoi\<close>: an optional sign and digits, in the range of a 64-bit int.\<close>

definition Atoi :: "string \<Rightarrow> int option" where
  "Atoi s =
     (let (neg, ds) = (case s of
            c # r \<Rightarrow> if c = CHR ''-'' then (True, r) else if c = CHR ''+'' then (False, r) else (False, s)
          | [] \<Rightarrow> (False, []))
      in if ds = [] \<or> \<not> list_all is_digit ds then None
         else let n = foldl (\<lambda>a c. 10 * a + digit_val c) 0 ds; v = (if neg then - n else n)
              in if - (2 ^ 63) \<le> v \<and> v < 2 ^ 63 then Some v else None)"

fun take_digits :: "nat \<Rightarrow> int \<Rightarrow> string \<Rightarrow> (int \<times> string) option" where
  "take_digits 0 acc s = Some (acc, s)"
| "take_digits (Suc n) acc [] = None"
| "take_digits (Suc n) acc (c # s) =
     (if is_digit c then take_digits n (10 * acc + digit_val c) s else None)"

fun take_hour :: "string \<Rightarrow> (int \<times> string) option" where
  "take_hour (c # d # s) =
     (if \<not> is_digit c then None
      else if is_digit d then Some (10 * digit_val c + digit_val d, s)
      else Some (digit_val c, d # s))"
| "take_hour [c] = (if is_digit c then Some (digit_val c, []) else None)"
| "take_hour [] = None"

fun expect :: "char \<Rightarrow> string \<Rightarrow> string option" where
  "expect c [] = None"
| "expect c (d # s) = (if c = d then Some s else None)"

fun frac_digits :: "nat \<Rightarrow> int \<Rightarrow> string \<Rightarrow> int \<times> string" where
  "frac_digits n acc [] = (acc * 10 ^ n, [])"
| "frac_digits n acc (c # s) =
     (if is_digit c
      then (case n of 0 \<Rightarrow> frac_digits 0 acc s
            | Suc m \<Rightarrow> frac_digits m (10 * acc + digit_val c) s)
      else (acc * 10 ^ n, c # s))"

fun take_frac :: "string \<Rightarrow> int \<times> string" where
  "take_frac (p # c # s) =
     (if (p = CHR ''.'' \<or> p = CHR '','') \<and> is_digit c then frac_digits 9 0 (c # s)
      else (0, p # c # s))"
| "take_frac s = (0, s)"

definition take_zone :: "string \<Rightarrow> (int \<times> string) option" where
  "take_zone s =
     (case s of
        [] \<Rightarrow> None
      | c # r \<Rightarrow>
          if c = CHR ''Z'' then Some (0, r)
          else if c = CHR ''+'' \<or> c = CHR ''-'' then
            do { (h, r1) \<leftarrow> take_digits 2 0 r; r2 \<leftarrow> expect CHR '':'' r1;
                 (m, r3) \<leftarrow> take_digits 2 0 r2;
                 if h > 24 \<or> m > 60 then None
                 else Some ((if c = CHR ''-'' then -1 else 1) * (h * 3600 + m * 60), r3) }
          else None)"

definition is_leap :: "int \<Rightarrow> bool" where
  "is_leap y \<longleftrightarrow> y mod 4 = 0 \<and> (y mod 100 \<noteq> 0 \<or> y mod 400 = 0)"

definition days_in :: "int \<Rightarrow> int \<Rightarrow> int" where
  "days_in y m =
     (if m = 2 then (if is_leap y then 29 else 28)
      else if m = 4 \<or> m = 6 \<or> m = 9 \<or> m = 11 then 30 else 31)"

definition civil_days :: "int \<Rightarrow> int \<Rightarrow> int \<Rightarrow> int" where
  "civil_days y m d =
     (let z = y - 1
      in 365 * z + z div 4 - z div 100 + z div 400
         + (\<Sum>k\<leftarrow>[1..m - 1]. days_in y k) + (d - 1))"

definition parse_RFC3339 :: "string \<Rightarrow> Time option" where
  "parse_RFC3339 s0 = do {
     (y, s1) \<leftarrow> take_digits 4 0 s0; s2 \<leftarrow> expect CHR ''-'' s1;
     (mo, s3) \<leftarrow> take_digits 2 0 s2; s4 \<leftarrow> expect CHR ''-'' s3;
     (d, s5) \<leftarrow> take_digits 2 0 s4; s6 \<leftarrow> expect CHR ''T'' s5;
     (h, s7) \<leftarrow> take_hour s6; s8 \<leftarrow> expect CHR '':'' s7;
     (mi, s9) \<leftarrow> take_digits 2 0 s8; s10 \<leftarrow> expect CHR '':'' s9;
     (sec, s11) \<leftarrow> take_digits 2 0 s10;
     let (ns, s12) = take_frac s11;
     (off, s13) \<leftarrow> take_zone s12;
     if s13 \<noteq> [] \<or> mo < 1 \<or> mo > 12 \<or> h \<ge> 24 \<or> mi \<ge> 60 \<or> sec \<ge> 60
        \<or> d < 1 \<or> d > days_in y mo then None
     else Some ((((civil_days y mo d * 24 + h) * 60 + mi) * 60 + sec - off)
                  * nanosecond_per_second + ns) }"

lemma parse_RFC3339_epoch: "map_option Unix (parse_RFC3339 ''1970-01-01T00:00:00Z'') = Some 0"
  by code_simp

lemma parse_RFC3339_zone:
  "parse_RFC3339 ''2026-05-17T10:30:00.25+02:00'' = parse_RFC3339 ''2026-05-17T08:30:00.250000000Z''"
  by code_simp

lemma parse_RFC3339_sample:
  "map_option Unix (parse_RFC3339 ''2026-05-17T08:30:00Z'') = Some 1779006600"
  by code_simp

text \<open>\<open>Duration.String\<close> for durations of at least a second.\<close>

fun fmtFrac :: "nat \<Rightarrow> nat \<Rightarrow> bool \<Rightarrow> string \<Rightarrow> string" where
  "fmtFrac v 0 pr w = (if pr then CHR ''.'' # w else w)"
| "fmtFrac v (Suc n) pr w =
     (let d = v mod 10; pr' = (pr \<or> d \<noteq> 0)
      in fmtFrac (v div 10) n pr' (if pr' then digit d # w else w))"

definition show_seconds :: "nat \<Rightarrow> string" where
  "show_seconds ns =
     (let frac = fmtFrac ns 9 False ''''; s = ns div 10 ^ 9; m = s div 60; h = m div 60
      in if m = 0 then show_nat s @ frac @ ''s''
         else if h = 0 then show_nat m @ ''m'' @ show_nat (s mod 60) @ frac @ ''s''
         else show_nat h @ ''h'' @ show_nat (m mod 60) @ ''m'' @ show_nat (s mod 60) @ frac @ ''s'')"

definition show_subsecond :: "nat \<Rightarrow> string" where
  "show_subsecond ns =
     (if ns = 0 then ''0s''
      else if ns < 1000 then show_nat ns @ ''ns''
      else if ns < 1000000
        then show_nat (ns div 1000) @ fmtFrac ns 3 False '''' @ [CHR 0xC2, CHR 0xB5] @ ''s''
      else show_nat (ns div 1000000) @ fmtFrac ns 6 False '''' @ ''ms'')"

definition show_duration :: "Duration \<Rightarrow> string" where
  "show_duration d =
     (let ns = nat \<bar>d\<bar>; body = (if ns < 10 ^ 9 then show_subsecond ns else show_seconds ns)
      in if d < 0 then ''-'' @ body else body)"

section \<open>Errors (package errors)\<close>

text \<open>
  The sentinels the program compares with \<open>errors.Is\<close>, and an error value: its
  text, the sentinels on its wrap chain, and the \<open>*VerifyDetail\<close> that
  \<open>errors.As\<close> finds on it.
\<close>

datatype sentinel =
    ErrServiceBusy | ErrSelfProtection | ErrActionDisabledByLabel | ErrVerifyFailed
  | ErrVerifyCanceled | ErrComposeFailed | ErrPullFailed | ErrNoPreviousDigest | ErrNotADowngrade
  | ErrComposeFileMoved | ErrPermanent | ErrTransient
  | ErrSelfUpdateInFlight | ErrActionsInFlight
  | CtxCanceled | CtxDeadlineExceeded
  | FsErrNotExist | FsErrPermission | SysEACCES | SysEPERM

record VerifyDetail =
  vd_RestartCount :: int
  vd_Running :: bool
  vd_ContainerID :: string
  vd_Reason :: string

record go_error =
  err_text :: string
  err_chain :: "sentinel list"
  err_detail :: "VerifyDetail option"

type_synonym 'a result = "go_error + 'a"

definition errors_New :: "string \<Rightarrow> go_error" where
  "errors_New t = \<lparr>err_text = t, err_chain = [], err_detail = None\<rparr>"

definition sentinel_error :: "sentinel \<Rightarrow> string \<Rightarrow> go_error" where
  "sentinel_error s t = \<lparr>err_text = t, err_chain = [s], err_detail = None\<rparr>"

text \<open>\<open>fmt.Errorf("<prefix>%w", e)\<close>: the chain survives.\<close>

definition wrap :: "string \<Rightarrow> go_error \<Rightarrow> go_error" where
  "wrap p e = e\<lparr>err_text := p @ err_text e\<rparr>"

text \<open>\<open>fmt.Errorf("%w: %w", a, b)\<close>: both chains survive, the first detail found wins.\<close>

definition wrap2 :: "go_error \<Rightarrow> go_error \<Rightarrow> go_error" where
  "wrap2 a b =
     \<lparr>err_text = err_text a @ '': '' @ err_text b, err_chain = err_chain a @ err_chain b,
      err_detail = (case err_detail a of None \<Rightarrow> err_detail b | Some d \<Rightarrow> Some d)\<rparr>"

text \<open>\<open>fmt.Errorf("%w: <text>", a)\<close> where the text holds no \<open>%w\<close>.\<close>

definition wrap_text :: "go_error \<Rightarrow> string \<Rightarrow> go_error" where
  "wrap_text a t = a\<lparr>err_text := err_text a @ '': '' @ t\<rparr>"

definition errors_Is :: "go_error \<Rightarrow> sentinel \<Rightarrow> bool" where
  "errors_Is e s \<longleftrightarrow> s \<in> set (err_chain e)"

definition errors_As :: "go_error \<Rightarrow> VerifyDetail option" where
  "errors_As e = err_detail e"

lemma errors_Is_simps [simp]:
  "errors_Is (errors_New t) s \<longleftrightarrow> False"
  "errors_Is (sentinel_error s' t) s \<longleftrightarrow> s' = s"
  "errors_Is (wrap p e) s \<longleftrightarrow> errors_Is e s"
  "errors_Is (wrap2 a b) s \<longleftrightarrow> errors_Is a s \<or> errors_Is b s"
  "errors_Is (wrap_text a t) s \<longleftrightarrow> errors_Is a s"
  by (auto simp: errors_Is_def errors_New_def sentinel_error_def wrap_def wrap2_def wrap_text_def)

lemma errors_As_simps [simp]:
  "errors_As (errors_New t) = None"
  "errors_As (sentinel_error s t) = None"
  "errors_As (wrap p e) = errors_As e"
  "errors_As (wrap_text a t) = errors_As a"
  by (simp_all add: errors_As_def errors_New_def sentinel_error_def wrap_def wrap_text_def)

lemma err_text_simps [simp]:
  "err_text (errors_New t) = t"
  "err_text (sentinel_error s t) = t"
  "err_text (wrap p e) = p @ err_text e"
  "err_text (wrap2 a b) = err_text a @ '': '' @ err_text b"
  "err_text (wrap_text a t) = err_text a @ '': '' @ t"
  by (simp_all add: errors_New_def sentinel_error_def wrap_def wrap2_def wrap_text_def)

section \<open>Maps and folds\<close>

lemma fold_inv:
  "(\<And>f s. f \<in> set fs \<Longrightarrow> P s \<Longrightarrow> P (f s)) \<Longrightarrow> P s \<Longrightarrow> P (fold (\<lambda>f. f) fs s)"
  by (induction fs arbitrary: s) auto

end
