(* ===== verification/Patterns.thy ===== *)
theory Patterns
  imports Prelude
begin

text \<open>
  \<open>internal/poll/patterns.go\<close>: the cache of compiled tag patterns, one per compose
  service. The regular-expression engine is a parameter.
\<close>

record 're regexp =
  Compile :: "string \<Rightarrow> 're result"
  MatchString :: "'re \<Rightarrow> string \<Rightarrow> bool"

text \<open>A stored entry may be the nil pointer in Go; \<open>None\<close> stands for it.\<close>

type_synonym 're Patterns = "string \<rightharpoonup> 're option"

definition NewPatterns :: "'re Patterns" where
  "NewPatterns = Map.empty"

definition Patterns_Set ::
  "'re regexp \<Rightarrow> string \<Rightarrow> string \<Rightarrow> 're Patterns \<Rightarrow> go_error option \<times> 're Patterns" where
  "Patterns_Set R service pattern m =
     (if pattern = '''' then (None, m(service := None))
      else (case Compile R pattern of
              Inl err \<Rightarrow> (Some err, m(service := None))
            | Inr re \<Rightarrow> (None, m(service \<mapsto> Some re))))"

definition Patterns_Delete :: "string \<Rightarrow> 're Patterns \<Rightarrow> 're Patterns" where
  "Patterns_Delete service m = m(service := None)"

definition Patterns_Match :: "'re regexp \<Rightarrow> 're Patterns \<Rightarrow> string \<Rightarrow> string \<Rightarrow> bool" where
  "Patterns_Match R m service tag =
     (case m service of
        None \<Rightarrow> True
      | Some None \<Rightarrow> True
      | Some (Some re) \<Rightarrow> MatchString R re tag)"

text \<open>
  \<open>Match\<close> after \<open>Set\<close>: the service matches exactly what the compiled pattern
  matches, everything when the pattern is empty or does not compile, and the other
  services keep their answer; \<open>Set\<close> reports an error exactly when a non-empty
  pattern does not compile.
\<close>

theorem Match_after_Set:
  "Patterns_Match R (snd (Patterns_Set R svc pat m)) s tag =
     (if s = svc then pat = '''' \<or> (case Compile R pat of Inl _ \<Rightarrow> True | Inr re \<Rightarrow> MatchString R re tag)
      else Patterns_Match R m s tag)
   \<and> (fst (Patterns_Set R svc pat m) \<noteq> None \<longleftrightarrow> pat \<noteq> '''' \<and> isl (Compile R pat))
   \<and> Patterns_Match R (Patterns_Delete svc m) svc tag"
  by (auto simp: Patterns_Match_def Patterns_Set_def Patterns_Delete_def split: sum.splits)

end
