(* ===== verification/State_Schema.thy ===== *)
theory State_Schema
  imports Prelude
begin

text \<open>
  Package \<open>internal/state\<close>: the document of watched containers (schema.go), the
  canonical notes (notes.go), and the store that holds it in memory and writes
  it through to one file (store.go, persist.go). The file system and the JSON
  text codec are parameters.
\<close>

section \<open>The document (schema.go, notes.go)\<close>

type_synonym labels = "string \<rightharpoonup> string"

record Container =
  Service :: string
  ImageRepo :: string
  Tag :: string
  CurrentDigest :: string
  PreviousDigest :: string
  UpdateAvailable :: bool
  ContainerID :: string
  Labels :: labels
  Pinned :: bool
  Stopped :: bool
  AvailableDigest :: string
  CurrentDigestAt :: Time
  PreviousDigestAt :: Time
  PreviousDigestBuiltAt :: Time
  AvailableDigestAt :: Time
  LastPolledAt :: Time
  Notes :: string
  ActionInFlight :: string
  ActionError :: string

definition SchemaVersion :: int where
  "SchemaVersion = 1"

record AppState =
  Version :: int
  Containers :: "string \<rightharpoonup> Container"
  LastPollStart :: Time
  LastPollEnd :: Time
  LastPollError :: string

text \<open>The zero value a Go map read returns for a key it does not hold.\<close>

definition zero_container :: Container where
  "zero_container =
     \<lparr>Service = '''', ImageRepo = '''', Tag = '''', CurrentDigest = '''', PreviousDigest = '''',
      UpdateAvailable = False, ContainerID = '''', Labels = Map.empty, Pinned = False,
      Stopped = False, AvailableDigest = '''', CurrentDigestAt = 0, PreviousDigestAt = 0,
      PreviousDigestBuiltAt = 0, AvailableDigestAt = 0, LastPolledAt = 0, Notes = '''',
      ActionInFlight = '''', ActionError = ''''\<rparr>"

definition NotePinnedOptOut :: string where
  "NotePinnedOptOut = ''pinned: opt-out''"

definition NoteTagMismatch :: string where
  "NoteTagMismatch = ''running tag does not match tag-pattern label''"

definition NoteInvalidTagPattern :: string where
  "NoteInvalidTagPattern = ''invalid tag-pattern label, ignored''"

definition NoteRegistryPrefix :: string where
  "NoteRegistryPrefix = ''registry error: ''"

definition NoteRegistrySuffix :: string where
  "NoteRegistrySuffix = '' (check image ref)''"

lemmas note_defs = NotePinnedOptOut_def NoteTagMismatch_def NoteInvalidTagPattern_def
  NoteRegistryPrefix_def NoteRegistrySuffix_def

text \<open>Go map reads: a missing key reads as the zero value.\<close>

definition row :: "AppState \<Rightarrow> string \<Rightarrow> Container" where
  "row st svc = (case Containers st svc of None \<Rightarrow> zero_container | Some c \<Rightarrow> c)"

definition label :: "Container \<Rightarrow> string \<Rightarrow> string" where
  "label c k = (case Labels c k of None \<Rightarrow> '''' | Some v \<Rightarrow> v)"

definition put_row :: "string \<Rightarrow> Container \<Rightarrow> AppState \<Rightarrow> AppState" where
  "put_row svc c st = st\<lparr>Containers := (Containers st)(svc \<mapsto> c)\<rparr>"

text \<open>
  The shape most mutations have: read the row, do nothing when it is missing,
  store the changed row otherwise.
\<close>

definition with_row :: "string \<Rightarrow> (Container \<Rightarrow> Container) \<Rightarrow> AppState \<Rightarrow> AppState" where
  "with_row svc f st =
     (case Containers st svc of None \<Rightarrow> st | Some c \<Rightarrow> put_row svc (f c) st)"

lemma Containers_put_row [simp]:
  "Containers (put_row svc c st) = (Containers st)(svc \<mapsto> c)"
  by (simp add: put_row_def)

lemma Containers_with_row [simp]:
  "Containers (with_row svc f st) =
     (case Containers st svc of None \<Rightarrow> Containers st
      | Some c \<Rightarrow> (Containers st)(svc \<mapsto> f c))"
  by (simp add: with_row_def split: option.splits)

lemma dom_with_row [simp]: "dom (Containers (with_row svc f st)) = dom (Containers st)"
  by (auto split: option.splits)

lemma with_row_Some [simp]:
  "Containers st svc = Some c \<Longrightarrow> with_row svc f st = put_row svc (f c) st"
  by (simp add: with_row_def)

lemma with_row_None [simp]: "Containers st svc = None \<Longrightarrow> with_row svc f st = st"
  by (simp add: with_row_def)

lemma row_Some [simp]: "Containers st svc = Some c \<Longrightarrow> row st svc = c"
  by (simp add: row_def)

lemma put_row_commute:
  "k \<noteq> l \<Longrightarrow> put_row k c (put_row l d st) = put_row l d (put_row k c st)"
  by (simp add: put_row_def fun_upd_twist)

section \<open>The store (store.go, persist.go)\<close>

text \<open>
  \<open>ReadFile\<close> and \<open>WriteFile\<close> stand for \<open>os.ReadFile\<close> and \<open>renameio.WriteFile\<close> at
  the store's path, over a file system state \<open>'d\<close>; \<open>Marshal\<close> and \<open>Unmarshal\<close> for
  the JSON text codec of the document.
\<close>

record 'd fs =
  fs_ReadFile :: "'d \<Rightarrow> string result"
  fs_WriteFile :: "string \<Rightarrow> 'd \<Rightarrow> go_error option \<times> 'd"

record codec =
  Marshal :: "AppState \<Rightarrow> string result"
  Unmarshal :: "string \<Rightarrow> AppState result"

record Store =
  store_path :: string
  store_state :: AppState

definition persist :: "codec \<Rightarrow> 'd fs \<Rightarrow> Store \<Rightarrow> 'd \<Rightarrow> go_error option \<times> 'd" where
  "persist j f s d =
     (case Marshal j (store_state s) of
        Inl e \<Rightarrow> (Some e, d)
      | Inr data \<Rightarrow> fs_WriteFile f data d)"

definition empty_state :: AppState where
  "empty_state =
     \<lparr>Version = SchemaVersion, Containers = Map.empty, LastPollStart = 0, LastPollEnd = 0,
      LastPollError = ''''\<rparr>"

definition NewStore :: "codec \<Rightarrow> 'd fs \<Rightarrow> string \<Rightarrow> 'd \<Rightarrow> Store result \<times> 'd" where
  "NewStore j f path d =
     (let s = \<lparr>store_path = path, store_state = empty_state\<rparr> in
      case fs_ReadFile f d of
        Inr data \<Rightarrow>
          if data = [] then
            (case persist j f s d of
               (Some e, d') \<Rightarrow> (Inl (wrap (''initialize empty state at '' @ path @ '': '') e), d')
             | (None, d') \<Rightarrow> (Inr s, d'))
          else
            (case Unmarshal j data of
               Inl e \<Rightarrow> (Inl (wrap (''decode state at '' @ path @ '': '') e), d)
             | Inr st \<Rightarrow> (Inr (s\<lparr>store_state := st\<rparr>), d))
      | Inl e \<Rightarrow>
          if errors_Is e FsErrNotExist then
            (case persist j f s d of
               (Some e', d') \<Rightarrow> (Inl (wrap (''create state at '' @ path @ '': '') e'), d')
             | (None, d') \<Rightarrow> (Inr s, d'))
          else (Inl (wrap (''read state at '' @ path @ '': '') e), d))"

definition Get :: "Store \<Rightarrow> AppState" where
  "Get s = store_state s"

definition Store_Update ::
  "codec \<Rightarrow> 'd fs \<Rightarrow> (AppState \<Rightarrow> AppState) \<Rightarrow> Store \<Rightarrow> 'd \<Rightarrow> go_error option \<times> Store \<times> 'd" where
  "Store_Update j f fn s d =
     (let s' = s\<lparr>store_state := fn (store_state s)\<rparr>; (e, d') = persist j f s' d
      in (e, s', d'))"

subsection \<open>The contract of the file system and of the codec\<close>

text \<open>
  What renameio documents: a write that succeeds replaces the content, a write
  that fails leaves the old one. What the codec gives for a document: its text reads
  back, and is not empty.
\<close>

definition atomic_fs :: "'d fs \<Rightarrow> bool" where
  "atomic_fs f \<longleftrightarrow>
     (\<forall>data d d'. fs_WriteFile f data d = (None, d') \<longrightarrow> fs_ReadFile f d' = Inr data) \<and>
     (\<forall>data d d' e. fs_WriteFile f data d = (Some e, d') \<longrightarrow> fs_ReadFile f d' = fs_ReadFile f d)"

definition reads_back :: "codec \<Rightarrow> AppState \<Rightarrow> bool" where
  "reads_back j st \<longleftrightarrow> (\<forall>data. Marshal j st = Inr data \<longrightarrow> data \<noteq> [] \<and> Unmarshal j data = Inr st)"

definition on_disk :: "codec \<Rightarrow> 'd fs \<Rightarrow> AppState \<Rightarrow> 'd \<Rightarrow> bool" where
  "on_disk j f st d \<longleftrightarrow> (\<exists>data. Marshal j st = Inr data \<and> fs_ReadFile f d = Inr data)"

lemma persist_ok:
  assumes "atomic_fs f" and "persist j f s d = (None, d')"
  shows "on_disk j f (store_state s) d'"
  using assms by (auto simp: persist_def on_disk_def atomic_fs_def split: sum.splits)

lemma persist_error_keeps_file:
  assumes "atomic_fs f" and "persist j f s d = (Some e, d')"
  shows "fs_ReadFile f d' = fs_ReadFile f d"
  using assms by (fastforce simp: persist_def atomic_fs_def split: sum.splits)

lemma NewStore_on_disk:
  assumes "reads_back j st" and "on_disk j f st d"
  shows "NewStore j f path d = (Inr \<lparr>store_path = path, store_state = st\<rparr>, d)"
  using assms by (auto simp: NewStore_def on_disk_def reads_back_def Let_def)

text \<open>What an update persisted is what the next boot loads.\<close>

lemma reboot_after_update:
  assumes "atomic_fs f" and "reads_back j (fn (Get s))"
    and "Store_Update j f fn s d = (None, s', d')"
  shows "NewStore j f path d' = (Inr \<lparr>store_path = path, store_state = fn (Get s)\<rparr>, d')"
proof -
  from assms(3) have "persist j f s' d = (None, d')" and "store_state s' = fn (Get s)"
    by (auto simp: Store_Update_def Get_def Let_def split: prod.splits)
  then show ?thesis
    using persist_ok [OF assms(1)] NewStore_on_disk [OF assms(2)] by metis
qed

subsection \<open>The interface the channel consumer relies on\<close>

text \<open>
  \<open>storeUpdater\<close> in channel.go and \<open>storeReader\<close> in poller.go: the consumer applies
  a mutation and the readers see exactly the mutated document, whether or not the
  write-through succeeded.
\<close>

locale state_store =
  fixes get :: "'s \<Rightarrow> AppState"
    and update :: "(AppState \<Rightarrow> AppState) \<Rightarrow> 's \<Rightarrow> 's"
  assumes get_update: "get (update fn s) = fn (get s)"
begin

definition apply_all :: "(AppState \<Rightarrow> AppState) list \<Rightarrow> 's \<Rightarrow> 's" where
  "apply_all fns = fold update fns"

lemma apply_all_simps [simp]:
  "apply_all [] s = s"
  "apply_all (f # fs) s = apply_all fs (update f s)"
  by (simp_all add: apply_all_def)

lemma apply_all_append: "apply_all (fs @ gs) s = apply_all gs (apply_all fs s)"
  by (simp add: apply_all_def)

lemma get_apply_all: "get (apply_all fns s) = fold (\<lambda>f. f) fns (get s)"
  by (induction fns arbitrary: s) (simp_all add: get_update)

lemma apply_all_invariant:
  assumes "\<And>fn st. fn \<in> set fns \<Longrightarrow> P st \<Longrightarrow> P (fn st)" and "P (get s)"
  shows "P (get (apply_all fns s))"
  using assms by (simp add: get_apply_all fold_inv)

end

text \<open>The store with its disk, as the consumer sees it.\<close>

definition update_disk ::
  "codec \<Rightarrow> 'd fs \<Rightarrow> (AppState \<Rightarrow> AppState) \<Rightarrow> Store \<times> 'd \<Rightarrow> Store \<times> 'd" where
  "update_disk j f fn sd = snd (Store_Update j f fn (fst sd) (snd sd))"

interpretation disk_store: state_store "\<lambda>sd. Get (fst sd)" "update_disk j f" for j f
  by unfold_locales (simp add: update_disk_def Store_Update_def Get_def Let_def split: prod.splits)

section \<open>The shared map behind Get\<close>

text \<open>
  \<open>Get\<close> returns a copy of the struct that shares the \<open>Containers\<close> map with the
  store, and the mutations write into that map. Here the map is a cell of a heap
  and a document header holds its address, as the Go struct holds the map header.
\<close>

type_synonym addr = nat

record Header =
  hdr_rest :: AppState \<comment> \<open>the scalar fields; its Containers field is not used\<close>
  hdr_map :: addr

record HeapStore =
  hs_heap :: "addr \<Rightarrow> (string \<rightharpoonup> Container)"
  hs_state :: Header

definition deref :: "HeapStore \<Rightarrow> Header \<Rightarrow> AppState" where
  "deref s h = (hdr_rest h)\<lparr>Containers := hs_heap s (hdr_map h)\<rparr>"

definition heap_Get :: "HeapStore \<Rightarrow> Header" where
  "heap_Get s = hs_state s"

text \<open>
  An in-place mutation: the scalar fields go to the store's header, the rows into
  the cell the header points to.
\<close>

definition heap_Update :: "(AppState \<Rightarrow> AppState) \<Rightarrow> HeapStore \<Rightarrow> HeapStore" where
  "heap_Update fn s =
     (let st' = fn (deref s (hs_state s)); a = hdr_map (hs_state s)
      in s\<lparr>hs_heap := (hs_heap s)(a := Containers st'),
           hs_state := \<lparr>hdr_rest = st', hdr_map = a\<rparr>\<rparr>)"

interpretation heap_store: state_store "\<lambda>s. deref s (heap_Get s)" heap_Update
  by unfold_locales (simp add: deref_def heap_Get_def heap_Update_def Let_def)

section \<open>Properties of the store\<close>

text \<open>A concrete file and a concrete codec, for the witnesses of this theory.\<close>

definition cell_fs :: "string option fs" where
  "cell_fs =
     \<lparr>fs_ReadFile = (\<lambda>d. case d of None \<Rightarrow> Inl (sentinel_error FsErrNotExist ''no such file'')
                         | Some t \<Rightarrow> Inr t),
      fs_WriteFile = (\<lambda>data d. (None, Some data))\<rparr>"

definition full_fs :: "string option fs" where
  "full_fs = cell_fs\<lparr>fs_WriteFile := (\<lambda>data d. (Some (errors_New ''no space left''), d))\<rparr>"

text \<open>A codec that handles documents without rows: the version and the poll error, as text.\<close>

definition tiny_codec :: codec where
  "tiny_codec =
     \<lparr>Marshal = (\<lambda>st. if st = empty_state then Inr ''E''
                      else if st = empty_state\<lparr>LastPollError := ''x''\<rparr> then Inr ''X''
                      else Inl (errors_New ''unsupported'')),
      Unmarshal = (\<lambda>t. if t = ''E'' then Inr empty_state
                       else if t = ''X'' then Inr (empty_state\<lparr>LastPollError := ''x''\<rparr>)
                       else Inl (errors_New ''invalid character''))\<rparr>"

lemma atomic_cell_fs: "atomic_fs cell_fs"
  by (simp add: atomic_fs_def cell_fs_def)

lemma atomic_full_fs: "atomic_fs full_fs"
  by (simp add: atomic_fs_def full_fs_def cell_fs_def)

lemma empty_state_neq: "empty_state\<lparr>LastPollError := ''x''\<rparr> \<noteq> empty_state"
  by (simp add: empty_state_def)


definition fresh_store :: Store where
  "fresh_store = \<lparr>store_path = ''s.json'', store_state = empty_state\<rparr>"

definition mark_error :: "AppState \<Rightarrow> AppState" where
  "mark_error st = st\<lparr>LastPollError := ''x''\<rparr>"

text \<open>
  A file that does not decode is never reset: the boot fails with an error
  whose text contains ``decode'', and the file keeps its content.
\<close>

theorem corrupted_file_not_reset:
  assumes "fs_ReadFile f d = Inr data" and "data \<noteq> []" and "Unmarshal j data = Inl e"
  shows "\<exists>err. NewStore j f path d = (Inl err, d) \<and> HasPrefix (err_text err) ''decode''"
  using assms by (simp add: NewStore_def Let_def)

theorem corrupted_file_not_reset_witness:
  "\<exists>err. NewStore tiny_codec cell_fs ''s.json'' (Some ''{'') = (Inl err, Some ''{'')
         \<and> HasPrefix (err_text err) ''decode''"
  by (rule corrupted_file_not_reset [where data = "''{''" and e = "errors_New ''invalid character''"])
     (simp_all add: cell_fs_def tiny_codec_def)

text \<open>
  A failed write does not roll the memory back: when \<open>persist\<close> fails, readers
  of the store see the mutated document while the file still holds the old one.
\<close>

theorem failed_write_diverges:
  assumes "atomic_fs f" and "Store_Update j f fn s d = (Some e, s', d')"
  shows "Get s' = fn (Get s) \<and> fs_ReadFile f d' = fs_ReadFile f d"
proof -
  from assms(2) have "persist j f s' d = (Some e, d')" and "Get s' = fn (Get s)"
    by (auto simp: Store_Update_def Get_def Let_def split: prod.splits)
  then show ?thesis using persist_error_keeps_file [OF assms(1)] by blast
qed

theorem failed_write_diverges_witness:
  "\<exists>e s'. Store_Update tiny_codec full_fs mark_error fresh_store (Some ''E'') = (Some e, s', Some ''E'')
     \<and> Get s' = mark_error (Get fresh_store) \<and> fs_ReadFile full_fs (Some ''E'') = Inr ''E''"
proof -
  let ?e = "errors_New ''no space left''"
  let ?s = "fresh_store\<lparr>store_state := mark_error empty_state\<rparr>"
  have u: "Store_Update tiny_codec full_fs mark_error fresh_store (Some ''E'') = (Some ?e, ?s, Some ''E'')"
    using empty_state_neq
    by (simp add: Store_Update_def persist_def tiny_codec_def full_fs_def cell_fs_def fresh_store_def
        mark_error_def)
  from failed_write_diverges [OF atomic_full_fs u] u show ?thesis
    by (simp add: full_fs_def cell_fs_def)
qed

text \<open>
  \<open>Get\<close> is not a snapshot of the rows: a header read before an update shows,
  read through the heap after the update, the rows the update wrote.
\<close>

theorem Get_shares_rows:
  "Containers (deref (heap_Update fn s) (heap_Get s)) = Containers (fn (deref s (heap_Get s)))"
  by (simp add: deref_def heap_Get_def heap_Update_def Let_def)

end
