(* ===== verification/Channel.thy ===== *)
theory Channel
  imports State_Schema
begin

text \<open>
  \<open>internal/poll/channel.go\<close>: the messages of the state-update channel and its
  single consumer \<open>runUpdater\<close>. The buffered channel, its producers and the
  consumer loop with its drain on cancellation are a step relation.
\<close>

section \<open>Messages\<close>

datatype UpdateKind =
    KindDigestResolved | KindContainerEvent | KindPollSweepStart | KindPollSweepEnd
  | KindActionStart | KindActionProgress | KindActionResult

record StateUpdate =
  upd_Kind :: UpdateKind
  upd_Service :: string
  Apply :: "AppState \<Rightarrow> AppState"

section \<open>The consumer loop\<close>

text \<open>
  The two nested loops of \<open>runUpdater\<close>: \<open>Receiving\<close> is the outer select,
  \<open>Draining\<close> the inner non-blocking one after \<open>ctx.Done\<close>, \<open>Exited\<close> the return.
  The channel has capacity \<open>cap\<close> (64 in main.go); \<open>sent\<close> is the history of the
  accepted messages. The store \<open>'s\<close> is whatever implements the update interface.
\<close>

datatype phase = Receiving | Draining | Exited

record 's chan_sys =
  cs_buf :: "StateUpdate list"
  cs_sent :: "StateUpdate list"
  cs_cancelled :: bool
  cs_phase :: phase
  cs_store :: 's

definition chan_init :: "'s \<Rightarrow> 's chan_sys" where
  "chan_init s =
     \<lparr>cs_buf = [], cs_sent = [], cs_cancelled = False, cs_phase = Receiving, cs_store = s\<rparr>"

inductive chan_step ::
  "nat \<Rightarrow> ((AppState \<Rightarrow> AppState) \<Rightarrow> 's \<Rightarrow> 's) \<Rightarrow> 's chan_sys \<Rightarrow> 's chan_sys \<Rightarrow> bool"
  for cap :: nat and update :: "(AppState \<Rightarrow> AppState) \<Rightarrow> 's \<Rightarrow> 's" where
  send: "length (cs_buf c) < cap \<Longrightarrow>
    chan_step cap update c (c\<lparr>cs_buf := cs_buf c @ [u], cs_sent := cs_sent c @ [u]\<rparr>)"
| cancel: "chan_step cap update c (c\<lparr>cs_cancelled := True\<rparr>)"
| receive: "cs_phase c = Receiving \<Longrightarrow> cs_buf c = u # us \<Longrightarrow>
    chan_step cap update c (c\<lparr>cs_buf := us, cs_store := update (Apply u) (cs_store c)\<rparr>)"
| observe_done: "cs_phase c = Receiving \<Longrightarrow> cs_cancelled c \<Longrightarrow>
    chan_step cap update c (c\<lparr>cs_phase := Draining\<rparr>)"
| drain: "cs_phase c = Draining \<Longrightarrow> cs_buf c = u # us \<Longrightarrow>
    chan_step cap update c (c\<lparr>cs_buf := us, cs_store := update (Apply u) (cs_store c)\<rparr>)"
| exit: "cs_phase c = Draining \<Longrightarrow> cs_buf c = [] \<Longrightarrow>
    chan_step cap update c (c\<lparr>cs_phase := Exited\<rparr>)"

inductive chan_reach ::
  "nat \<Rightarrow> ((AppState \<Rightarrow> AppState) \<Rightarrow> 's \<Rightarrow> 's) \<Rightarrow> 's \<Rightarrow> 's chan_sys \<Rightarrow> bool"
  for cap :: nat and update :: "(AppState \<Rightarrow> AppState) \<Rightarrow> 's \<Rightarrow> 's" and s0 :: 's where
  init: "chan_reach cap update s0 (chan_init s0)"
| step: "chan_reach cap update s0 c \<Longrightarrow> chan_step cap update c c' \<Longrightarrow> chan_reach cap update s0 c'"

inductive_cases exit_stepE: "chan_step cap update c c'"

section \<open>Correctness of the consumer over any store\<close>

context state_store
begin

definition applied :: "'s \<Rightarrow> StateUpdate list \<Rightarrow> 's" where
  "applied s us = apply_all (map Apply us) s"

lemma applied_snoc: "applied s (us @ [u]) = update (Apply u) (applied s us)"
  by (simp add: applied_def apply_all_append)

text \<open>
  The history splits into the prefix that was applied, in order, and the buffer;
  the buffer never exceeds the capacity.
\<close>

definition chan_inv :: "nat \<Rightarrow> 's \<Rightarrow> 's chan_sys \<Rightarrow> bool" where
  "chan_inv cap s0 c \<longleftrightarrow>
     (\<exists>us. cs_sent c = us @ cs_buf c \<and> cs_store c = applied s0 us) \<and> length (cs_buf c) \<le> cap"

lemma consume_inv:
  assumes "chan_inv cap s0 c" and "cs_buf c = u # us"
  shows "chan_inv cap s0 (c\<lparr>cs_buf := us, cs_store := update (Apply u) (cs_store c)\<rparr>)"
proof -
  from assms obtain vs where "cs_sent c = vs @ u # us" and "cs_store c = applied s0 vs"
    and "length (u # us) \<le> cap"
    by (auto simp: chan_inv_def)
  then have "cs_sent c = (vs @ [u]) @ us \<and> update (Apply u) (cs_store c) = applied s0 (vs @ [u])"
    by (simp add: applied_snoc)
  with \<open>length (u # us) \<le> cap\<close> show ?thesis
    by (auto simp: chan_inv_def)
qed

lemma chan_step_inv:
  "chan_step cap update c c' \<Longrightarrow> chan_inv cap s0 c \<Longrightarrow> chan_inv cap s0 c'"
proof (induction rule: chan_step.induct)
  case (receive c u us)
  then show ?case by (blast intro: consume_inv)
next
  case (drain c u us)
  then show ?case by (blast intro: consume_inv)
qed (auto simp: chan_inv_def)

lemma chan_reach_inv: "chan_reach cap update s0 c \<Longrightarrow> chan_inv cap s0 c"
proof (induction rule: chan_reach.induct)
  case init
  show ?case by (simp add: chan_inv_def chan_init_def applied_def)
next
  case (step c c')
  then show ?case by (blast intro: chan_step_inv)
qed

lemma fifo_prefix:
  assumes "chan_reach cap update s0 c"
  shows "\<exists>us. cs_sent c = us @ cs_buf c \<and> get (cs_store c) = fold (\<lambda>f. f) (map Apply us) (get s0)"
  using chan_reach_inv [OF assms] by (auto simp: chan_inv_def applied_def get_apply_all)

lemma exit_has_drained:
  assumes "chan_reach cap update s0 c" and "chan_step cap update c c'"
    and "cs_phase c = Draining" and "cs_phase c' = Exited"
  shows "get (cs_store c') = fold (\<lambda>f. f) (map Apply (cs_sent c')) (get s0)"
proof -
  from assms(2,3,4) have "cs_buf c = []" and "c' = c\<lparr>cs_phase := Exited\<rparr>"
    by (auto elim!: exit_stepE)
  with fifo_prefix [OF assms(1)] show ?thesis by auto
qed

end

section \<open>Properties of the production consumer\<close>

text \<open>
  C22. The consumer applies the accepted messages in the order they were sent,
  each once: in every reachable state the document is the fold of a prefix of the
  history and the rest of the history is the buffer, which never exceeds the
  channel's capacity.
\<close>

theorem updates_applied_in_order:
  assumes "chan_reach cap (update_disk j f) sd c"
  shows "\<exists>us. cs_sent c = us @ cs_buf c \<and> length (cs_buf c) \<le> cap
    \<and> Get (fst (cs_store c)) = fold (\<lambda>g. g) (map Apply us) (Get (fst sd))"
  using disk_store.chan_reach_inv [OF assms] disk_store.fifo_prefix [OF assms]
  by (auto simp: disk_store.chan_inv_def)

text \<open>
  C23. The drain on shutdown loses no accepted message: when the consumer returns,
  the document is the fold of the whole history.
\<close>

theorem drain_loses_nothing:
  assumes "chan_reach cap (update_disk j f) sd c" and "chan_step cap (update_disk j f) c c'"
    and "cs_phase c = Draining" and "cs_phase c' = Exited"
  shows "Get (fst (cs_store c')) = fold (\<lambda>g. g) (map Apply (cs_sent c')) (Get (fst sd))"
  by (rule disk_store.exit_has_drained [OF assms])

text \<open>A run of the consumer: one message is accepted, the context is cancelled, the message is
  drained, the loop exits.\<close>

definition demo_msg :: StateUpdate where
  "demo_msg = \<lparr>upd_Kind = KindPollSweepStart, upd_Service = '''', Apply = mark_error\<rparr>"

abbreviation demo_update :: "(AppState \<Rightarrow> AppState) \<Rightarrow> Store \<times> string option \<Rightarrow> Store \<times> string option" where
  "demo_update \<equiv> update_disk tiny_codec cell_fs"

abbreviation demo_store :: "Store \<times> string option" where
  "demo_store \<equiv> (fresh_store, None)"

definition demo_buffered :: "(Store \<times> string option) chan_sys" where
  "demo_buffered =
     (chan_init demo_store)\<lparr>cs_buf := [demo_msg], cs_sent := [demo_msg], cs_cancelled := True,
        cs_phase := Draining\<rparr>"

definition demo_drained :: "(Store \<times> string option) chan_sys" where
  "demo_drained =
     demo_buffered\<lparr>cs_buf := [], cs_store := demo_update (Apply demo_msg) demo_store\<rparr>"

lemma demo_buffered_reach: "chan_reach 64 demo_update demo_store demo_buffered"
proof -
  let ?c0 = "chan_init demo_store"
  let ?c1 = "?c0\<lparr>cs_buf := cs_buf ?c0 @ [demo_msg], cs_sent := cs_sent ?c0 @ [demo_msg]\<rparr>"
  have 1: "chan_reach 64 demo_update demo_store ?c1"
    by (rule chan_reach.step [OF chan_reach.init], rule chan_step.send) (simp add: chan_init_def)
  have 2: "chan_reach 64 demo_update demo_store (?c1\<lparr>cs_cancelled := True\<rparr>)"
    by (rule chan_reach.step [OF 1 chan_step.cancel])
  have "chan_reach 64 demo_update demo_store
      (?c1\<lparr>cs_cancelled := True\<rparr>\<lparr>cs_phase := Draining\<rparr>)"
    by (rule chan_reach.step [OF 2], rule chan_step.observe_done) (simp_all add: chan_init_def)
  then show ?thesis by (simp add: demo_buffered_def chan_init_def)
qed

lemma demo_drained_reach: "chan_reach 64 demo_update demo_store demo_drained"
proof -
  have "chan_step 64 demo_update demo_buffered
      (demo_buffered\<lparr>cs_buf := [], cs_store := demo_update (Apply demo_msg) (cs_store demo_buffered)\<rparr>)"
    by (rule chan_step.drain) (simp_all add: demo_buffered_def)
  then show ?thesis
    using chan_reach.step [OF demo_buffered_reach]
    by (simp add: demo_drained_def demo_buffered_def chan_init_def)
qed

lemma demo_exit_step: "chan_step 64 demo_update demo_drained (demo_drained\<lparr>cs_phase := Exited\<rparr>)"
  by (rule chan_step.exit) (simp_all add: demo_drained_def demo_buffered_def)

theorem updates_applied_in_order_witness:
  "\<exists>us. cs_sent demo_drained = us @ cs_buf demo_drained \<and> length (cs_buf demo_drained) \<le> 64
     \<and> Get (fst (cs_store demo_drained)) = fold (\<lambda>g. g) (map Apply us) (Get fresh_store)"
  using updates_applied_in_order [OF demo_drained_reach] by simp

theorem drain_loses_nothing_witness:
  "Get (fst (cs_store demo_drained)) = mark_error (Get fresh_store)"
  using drain_loses_nothing [OF demo_drained_reach demo_exit_step]
  by (simp add: demo_drained_def demo_buffered_def demo_msg_def)

end
