(* ===== verification/Document.thy ===== *)
theory Document
  imports Channel
begin

text \<open>
  The invariant of the watched rows and the contract of the message producers.
  The document changes only through \<open>Apply\<close> functions sent on the update channel;
  three components send them (poller, discovery, action orchestrator). A producer
  may send a message after it has read some document; the contract says that the
  message keeps the invariant of every later document.
\<close>

section \<open>The invariant of a row\<close>

definition hmi_prefix :: string where
  "hmi_prefix = ''hmi-update.''"

definition action_states :: "string set" where
  "action_states = {'''', ''updating'', ''rolling_back'', ''force_pulling''}"

definition known_notes :: "string set" where
  "known_notes =
     {'''', NotePinnedOptOut, NoteTagMismatch, NoteInvalidTagPattern,
      NoteRegistryPrefix @ ''transient'' @ NoteRegistrySuffix,
      NoteRegistryPrefix @ ''permanent'' @ NoteRegistrySuffix}"

definition row_ok :: "string \<Rightarrow> Container \<Rightarrow> bool" where
  "row_ok svc c \<longleftrightarrow>
     Service c = svc \<and>
     (\<forall>k \<in> dom (Labels c). HasPrefix k hmi_prefix) \<and>
     ActionInFlight c \<in> action_states \<and>
     Notes c \<in> known_notes \<and>
     (Pinned c \<longrightarrow> Tag c = '''')"

definition state_ok :: "AppState \<Rightarrow> bool" where
  "state_ok st \<longleftrightarrow> (\<forall>svc c. Containers st svc = Some c \<longrightarrow> row_ok svc c)"

lemma state_ok_empty [simp]: "state_ok empty_state"
  by (simp add: state_ok_def empty_state_def)

lemma state_okD: "state_ok st \<Longrightarrow> Containers st svc = Some c \<Longrightarrow> row_ok svc c"
  by (simp add: state_ok_def)

lemma state_ok_put_row [intro]: "state_ok st \<Longrightarrow> row_ok svc c \<Longrightarrow> state_ok (put_row svc c st)"
  by (simp add: state_ok_def)

lemma state_ok_with_row:
  assumes "state_ok st" and "\<And>c. Containers st svc = Some c \<Longrightarrow> row_ok svc c \<Longrightarrow> row_ok svc (f c)"
  shows "state_ok (with_row svc f st)"
proof (cases "Containers st svc")
  case None
  with assms(1) show ?thesis by simp
next
  case (Some c)
  with assms state_okD [OF assms(1) Some] show ?thesis by (simp add: state_ok_put_row)
qed

lemma state_ok_cong: "Containers st' = Containers st \<Longrightarrow> state_ok st' \<longleftrightarrow> state_ok st"
  by (simp add: state_ok_def)

text \<open>
  \<open>safe dom u\<close>: applied to any good document that has at least the rows \<open>dom\<close>, the
  message keeps the document good and deletes no row.
\<close>

definition safe :: "string set \<Rightarrow> StateUpdate \<Rightarrow> bool" where
  "safe D u \<longleftrightarrow> (\<forall>st. state_ok st \<longrightarrow> D \<subseteq> dom (Containers st) \<longrightarrow>
     state_ok (Apply u st) \<and> dom (Containers st) \<subseteq> dom (Containers (Apply u st)))"

lemma safe_mono: "safe D u \<Longrightarrow> D \<subseteq> D' \<Longrightarrow> safe D' u"
  by (auto simp: safe_def)

lemma safe_with_row [keeps]:
  assumes "\<And>c. row_ok svc c \<Longrightarrow> row_ok svc (f c)"
  shows "safe D \<lparr>upd_Kind = k, upd_Service = s, Apply = with_row svc f\<rparr>"
  using assms unfolding safe_def
  by (simp del: Containers_with_row add: state_ok_with_row)

lemma safe_row_write [keeps]:
  assumes "\<And>c. row_ok svc c \<Longrightarrow> row_ok svc (f c)" and "svc \<in> D"
  shows "safe D \<lparr>upd_Kind = k, upd_Service = s, Apply = (\<lambda>st. put_row svc (f (row st svc)) st)\<rparr>"
proof -
  have "state_ok (put_row svc (f (row st svc)) st)"
    if "state_ok st" and "D \<subseteq> dom (Containers st)" for st
  proof -
    from that(2) \<open>svc \<in> D\<close> obtain c where "Containers st svc = Some c" by blast
    with that(1) assms(1) show ?thesis by (simp add: state_okD state_ok_put_row)
  qed
  then show ?thesis by (auto simp: safe_def)
qed

lemma safe_scalar [keeps]:
  "(\<And>st. Containers (f st) = Containers st) \<Longrightarrow> safe D \<lparr>upd_Kind = k, upd_Service = s, Apply = f\<rparr>"
  by (auto simp: safe_def state_ok_def)

section \<open>The producer contract\<close>

locale producer =
  fixes may_send :: "AppState \<Rightarrow> StateUpdate \<Rightarrow> bool"
  assumes safe: "state_ok snap \<Longrightarrow> may_send snap u \<Longrightarrow> safe (dom (Containers snap)) u"
begin

text \<open>
  A history of messages is licensed when each was sent after reading a document
  that a prefix of the history before it had produced.
\<close>

definition doc :: "AppState \<Rightarrow> StateUpdate list \<Rightarrow> AppState" where
  "doc st us = fold (\<lambda>g. g) (map Apply us) st"

lemma doc_snoc: "doc st (us @ [u]) = Apply u (doc st us)"
  by (simp add: doc_def)

definition licensed :: "AppState \<Rightarrow> StateUpdate list \<Rightarrow> bool" where
  "licensed st us \<longleftrightarrow> (\<forall>i < length us. \<exists>j \<le> i. may_send (doc st (take j us)) (us ! i))"

lemma licensed_prefix: "licensed st (us @ vs) \<Longrightarrow> licensed st us"
  unfolding licensed_def
proof (intro allI impI)
  fix i
  assume all: "\<forall>i<length (us @ vs). \<exists>j\<le>i. may_send (doc st (take j (us @ vs))) ((us @ vs) ! i)"
    and i: "i < length us"
  then obtain j where "j \<le> i" and "may_send (doc st (take j (us @ vs))) ((us @ vs) ! i)"
    by (metis length_append trans_less_add1)
  with i show "\<exists>j\<le>i. may_send (doc st (take j us)) (us ! i)"
    by (intro exI [of _ j]) (simp add: nth_append)
qed

lemma licensed_snocI:
  assumes "licensed st us" and "j \<le> length us" and "may_send (doc st (take j us)) u"
  shows "licensed st (us @ [u])"
  unfolding licensed_def
proof (intro allI impI)
  fix i
  assume "i < length (us @ [u])"
  then consider "i < length us" | "i = length us" by force
  then show "\<exists>j\<le>i. may_send (doc st (take j (us @ [u]))) ((us @ [u]) ! i)"
  proof cases
    case 1
    with assms(1) obtain j where "j \<le> i" and "may_send (doc st (take j us)) (us ! i)"
      by (auto simp: licensed_def)
    with 1 show ?thesis by (intro exI [of _ j]) (simp add: nth_append)
  next
    case 2
    with assms(2,3) show ?thesis by (intro exI [of _ j]) simp
  qed
qed

lemma licensed_good:
  assumes "state_ok st" and "licensed st us"
  shows "state_ok (doc st us) \<and>
    (\<forall>j \<le> length us. state_ok (doc st (take j us)) \<and>
       dom (Containers (doc st (take j us))) \<subseteq> dom (Containers (doc st us)))"
  using assms(2)
proof (induction us rule: rev_induct)
  case Nil
  with assms(1) show ?case by (simp add: doc_def)
next
  case (snoc u us)
  then have IH: "state_ok (doc st us)"
    "\<And>j. j \<le> length us \<Longrightarrow> state_ok (doc st (take j us)) \<and>
       dom (Containers (doc st (take j us))) \<subseteq> dom (Containers (doc st us))"
    using licensed_prefix by blast+
  from snoc.prems obtain j where j: "j \<le> length us" "may_send (doc st (take j us)) u"
    by (fastforce simp: licensed_def dest: spec [of _ "length us"])
  with IH(2) [of j] have "safe (dom (Containers (doc st us))) u"
    using producer_axioms safe safe_mono by blast
  with IH(1) have step: "state_ok (doc st (us @ [u]))"
    "dom (Containers (doc st us)) \<subseteq> dom (Containers (doc st (us @ [u])))"
    by (auto simp: Document.safe_def doc_snoc)
  show ?case
  proof (intro conjI allI impI)
    fix k
    assume "k \<le> length (us @ [u])"
    then consider "k \<le> length us" | "k = length (us @ [u])" by force
    then show "state_ok (doc st (take k (us @ [u])))"
      and "dom (Containers (doc st (take k (us @ [u])))) \<subseteq> dom (Containers (doc st (us @ [u])))"
      by (cases; use step IH(2) in force)+
  qed (rule step(1))
qed

lemmas licensed_ok = licensed_good [THEN conjunct1]

lemma licensed_rows_stay:
  "state_ok st \<Longrightarrow> licensed st us \<Longrightarrow> dom (Containers st) \<subseteq> dom (Containers (doc st us))"
  using licensed_good [of st us, THEN conjunct2, rule_format, of 0] by (simp add: doc_def)

end

end
