(* ===== verification/Poller.thy ===== *)
theory Poller
  imports Patterns Document "HOL-Library.Multiset"
begin

text \<open>
  \<open>internal/poll/poller.go\<close>: the registry sweep. The messages the sweep sends are
  functions of the row and of the fetch result; the sweep with its bounded pool of
  workers is a step relation, so that every order in which fetches finish is a run.
\<close>

section \<open>Configuration\<close>

definition envInt :: "(string \<Rightarrow> string) \<Rightarrow> string \<Rightarrow> int \<Rightarrow> int" where
  "envInt getenv name df =
     (let v = getenv name
      in if v \<noteq> '''' then (case Atoi v of Some n \<Rightarrow> if n > 0 then n else df | None \<Rightarrow> df) else df)"

definition defaultTimeoutSec :: int where
  "defaultTimeoutSec = 10"

definition defaultConcurrency :: int where
  "defaultConcurrency = 4"

record 're cronPoller =
  pl_spec :: string
  pl_patterns :: "'re Patterns"
  pl_timeout :: Duration
  pl_concurrency :: int

text \<open>\<open>cron_AddFunc\<close> stands for the schedule parser of the cron library.\<close>

definition newPoller ::
  "(string \<Rightarrow> go_error option) \<Rightarrow> string \<Rightarrow> 're Patterns \<Rightarrow> Duration \<Rightarrow> int \<Rightarrow> 're cronPoller result" where
  "newPoller cron_AddFunc spec patterns timeout concurrency =
     (case cron_AddFunc spec of
        Some err \<Rightarrow>
          Inl (err\<lparr>err_text := ''invalid DOCKER_UPDATE_CRON '' @ quote spec @ '': '' @ err_text err
                 @ '' (expected 5-field cron expression like '' @ [CHR 0x27] @ ''0 * * * *'' @ [CHR 0x27]
                 @ '' or '' @ [CHR 0x27] @ ''@every 5s'' @ [CHR 0x27] @ '')''\<rparr>)
      | None \<Rightarrow>
          Inr \<lparr>pl_spec = spec, pl_patterns = patterns, pl_timeout = timeout,
               pl_concurrency = concurrency\<rparr>)"

text \<open>The timeout is an int64 product; it wraps for absurd settings.\<close>

definition NewPoller ::
  "(string \<Rightarrow> string) \<Rightarrow> (string \<Rightarrow> go_error option) \<Rightarrow> string \<Rightarrow> 're Patterns \<Rightarrow> 're cronPoller result" where
  "NewPoller getenv cron_AddFunc spec patterns =
     newPoller cron_AddFunc spec patterns
       (wrap64 (envInt getenv ''DOCKER_UPDATE_REGISTRY_TIMEOUT_S'' defaultTimeoutSec * Second))
       (envInt getenv ''DOCKER_UPDATE_POLL_CONCURRENCY'' defaultConcurrency)"

section \<open>The messages of a sweep\<close>

definition clearStaleErrorNotes :: "string \<Rightarrow> string" where
  "clearStaleErrorNotes n =
     (if n = NoteTagMismatch then '''' else if HasPrefix n NoteRegistryPrefix then '''' else n)"

definition clearStalePullActionError :: "string \<Rightarrow> string" where
  "clearStalePullActionError e = (if HasPrefix e ''pull_failed:'' then '''' else e)"

text \<open>The row after a successful fetch of \<open>digest\<close>, created at \<open>createdAt\<close>, at time \<open>now\<close>.\<close>

definition digest_row :: "string \<Rightarrow> Time \<Rightarrow> Time \<Rightarrow> Container \<Rightarrow> Container" where
  "digest_row digest createdAt now cur =
     (let priorAvailable = AvailableDigest cur;
          cur1 = cur\<lparr>AvailableDigest := digest, AvailableDigestAt := createdAt, LastPolledAt := now\<rparr>;
          cur2 = (if CurrentDigest cur1 \<noteq> '''' then
                    cur1\<lparr>UpdateAvailable := (CurrentDigest cur1 \<noteq> digest)\<rparr>
                  else if priorAvailable \<noteq> '''' \<and> priorAvailable \<noteq> digest then
                    cur1\<lparr>UpdateAvailable := True\<rparr>
                  else cur1)
      in cur2\<lparr>Notes := clearStaleErrorNotes (Notes cur2),
              ActionError := clearStalePullActionError (ActionError cur2)\<rparr>)"

definition error_class :: "go_error \<Rightarrow> string" where
  "error_class err = (if errors_Is err ErrPermanent then ''permanent'' else ''transient'')"

definition sendFetchError :: "string \<Rightarrow> string \<Rightarrow> StateUpdate" where
  "sendFetchError service errClass =
     \<lparr>upd_Kind = KindDigestResolved, upd_Service = service,
      Apply = (\<lambda>st. let c = row st service in
        if Notes c = NotePinnedOptOut \<or> Notes c = NoteInvalidTagPattern then st
        else put_row service
               (c\<lparr>Notes := NoteRegistryPrefix @ errClass @ NoteRegistrySuffix\<rparr>) st)\<rparr>"

definition handleFetchResult :: "Container \<Rightarrow> (string \<times> Time) result \<Rightarrow> Time \<Rightarrow> StateUpdate" where
  "handleFetchResult c r now =
     (case r of
        Inl err \<Rightarrow> sendFetchError (Service c) (error_class err)
      | Inr (digest, createdAt) \<Rightarrow>
          \<lparr>upd_Kind = KindDigestResolved, upd_Service = Service c,
           Apply = (\<lambda>st. put_row (Service c) (digest_row digest createdAt now (row st (Service c))) st)\<rparr>)"

definition note_msg :: "string \<Rightarrow> string \<Rightarrow> StateUpdate" where
  "note_msg service note =
     \<lparr>upd_Kind = KindDigestResolved, upd_Service = service,
      Apply = (\<lambda>st. put_row service ((row st service)\<lparr>Notes := note\<rparr>) st)\<rparr>"

text \<open>The message, or none when the row already carries the note.\<close>

definition sendPinnedNote :: "Container \<Rightarrow> StateUpdate option" where
  "sendPinnedNote c =
     (if Notes c = NotePinnedOptOut then None else Some (note_msg (Service c) NotePinnedOptOut))"

definition sendTagMismatch :: "Container \<Rightarrow> StateUpdate option" where
  "sendTagMismatch c =
     (if Notes c = NoteTagMismatch then None else Some (note_msg (Service c) NoteTagMismatch))"

definition sweep_start_msg :: "Time \<Rightarrow> StateUpdate" where
  "sweep_start_msg t =
     \<lparr>upd_Kind = KindPollSweepStart, upd_Service = '''',
      Apply = (\<lambda>st. st\<lparr>LastPollStart := t, LastPollError := ''''\<rparr>)\<rparr>"

definition sweep_end_msg :: "Time \<Rightarrow> StateUpdate" where
  "sweep_end_msg t =
     \<lparr>upd_Kind = KindPollSweepEnd, upd_Service = '''', Apply = (\<lambda>st. st\<lparr>LastPollEnd := t\<rparr>)\<rparr>"

section \<open>The sweep\<close>

text \<open>
  \<open>eligibleContainers\<close> over the rows in the order of the range loop: the messages it
  sends for pinned rows, and the rows to poll.
\<close>

fun eligibleContainers :: "Container list \<Rightarrow> StateUpdate list \<times> Container list" where
  "eligibleContainers [] = ([], [])"
| "eligibleContainers (c # cs) =
     (let (us, out) = eligibleContainers cs in
      if Pinned c then ((case sendPinnedNote c of None \<Rightarrow> us | Some u \<Rightarrow> u # us), out)
      else if Stopped c then (us, out)
      else if ImageRepo c = '''' then (us, out)
      else (us, c # out))"

definition refForContainer :: "'re regexp \<Rightarrow> 're Patterns \<Rightarrow> Container \<Rightarrow> string" where
  "refForContainer R m c =
     (let tag = (if Tag c = '''' then ''latest'' else Tag c)
      in if \<not> Patterns_Match R m (Service c) tag then '''' else ImageRepo c @ '':'' @ tag)"

text \<open>
  The control state of \<open>sweep\<close>: before the start message, in the loop that starts
  the workers, in \<open>g.Wait\<close>, and after the end message.
\<close>

datatype sweep_pc = SweepBegin | Dispatching | Finished

record sweep_sys =
  sw_pc :: sweep_pc
  sw_todo :: "Container list"
  sw_running :: "Container list"
  sw_sent :: "StateUpdate list"
  sw_cancelled :: bool

definition sweep_init :: sweep_sys where
  "sweep_init =
     \<lparr>sw_pc = SweepBegin, sw_todo = [], sw_running = [], sw_sent = [], sw_cancelled = False\<rparr>"

text \<open>
  \<open>p.send\<close>: the message goes out, or is dropped when the context is cancelled. The
  messages of \<open>us\<close> are sent one after the other.
\<close>

inductive delivers :: "bool \<Rightarrow> StateUpdate list \<Rightarrow> StateUpdate list \<Rightarrow> bool" where
  none: "delivers b [] []"
| out: "delivers b us vs \<Longrightarrow> delivers b (u # us) (u # vs)"
| dropped: "delivers True us vs \<Longrightarrow> delivers True (u # us) vs"

text \<open>
  The parameters of a run: the patterns, the size of the worker pool, the rows of
  the snapshot in range order, what the registry answers for each reference, the
  start and end times and the time at which the fetch of each service finished.
\<close>

record 're sweep_env =
  se_regexp :: "'re regexp"
  se_patterns :: "'re Patterns"
  se_limit :: nat
  se_rows :: "Container list"
  se_registry :: "string \<Rightarrow> (string \<times> Time) result"
  se_start :: Time
  se_end :: Time
  se_now :: "string \<Rightarrow> Time"

abbreviation se_ref :: "('re, 'm) sweep_env_scheme \<Rightarrow> Container \<Rightarrow> string" where
  "se_ref V c \<equiv> refForContainer (se_regexp V) (se_patterns V) c"

abbreviation se_result :: "('re, 'm) sweep_env_scheme \<Rightarrow> Container \<Rightarrow> StateUpdate" where
  "se_result V c \<equiv> handleFetchResult c (se_registry V (se_ref V c)) (se_now V (Service c))"

inductive sweep_step :: "'re sweep_env \<Rightarrow> sweep_sys \<Rightarrow> sweep_sys \<Rightarrow> bool" for V where
  begin_sweep: "sw_pc s = SweepBegin \<Longrightarrow>
    delivers (sw_cancelled s) (sweep_start_msg (se_start V) # fst (eligibleContainers (se_rows V))) us \<Longrightarrow>
    sweep_step V s (s\<lparr>sw_pc := Dispatching, sw_todo := snd (eligibleContainers (se_rows V)),
                      sw_sent := sw_sent s @ us\<rparr>)"
| mismatch: "sw_pc s = Dispatching \<Longrightarrow> sw_todo s = c # cs \<Longrightarrow> se_ref V c = '''' \<Longrightarrow>
    delivers (sw_cancelled s) (case sendTagMismatch c of None \<Rightarrow> [] | Some u \<Rightarrow> [u]) us \<Longrightarrow>
    sweep_step V s (s\<lparr>sw_todo := cs, sw_sent := sw_sent s @ us\<rparr>)"
| go: "sw_pc s = Dispatching \<Longrightarrow> sw_todo s = c # cs \<Longrightarrow> se_ref V c \<noteq> '''' \<Longrightarrow>
    length (sw_running s) < se_limit V \<Longrightarrow>
    sweep_step V s (s\<lparr>sw_todo := cs, sw_running := sw_running s @ [c]\<rparr>)"
| worker: "sw_pc s = Dispatching \<Longrightarrow> sw_running s = as @ c # bs \<Longrightarrow>
    delivers (sw_cancelled s) [se_result V c] us \<Longrightarrow>
    sweep_step V s (s\<lparr>sw_running := as @ bs, sw_sent := sw_sent s @ us\<rparr>)"
| end_sweep: "sw_pc s = Dispatching \<Longrightarrow> sw_todo s = [] \<Longrightarrow> sw_running s = [] \<Longrightarrow>
    delivers (sw_cancelled s) [sweep_end_msg (se_end V)] us \<Longrightarrow>
    sweep_step V s (s\<lparr>sw_pc := Finished, sw_sent := sw_sent s @ us\<rparr>)"
| cancel: "\<not> sw_cancelled s \<Longrightarrow> sweep_step V s (s\<lparr>sw_cancelled := True\<rparr>)"

inductive sweep_reach :: "'re sweep_env \<Rightarrow> sweep_sys \<Rightarrow> bool" for V where
  init: "sweep_reach V sweep_init"
| step: "sweep_reach V s \<Longrightarrow> sweep_step V s s' \<Longrightarrow> sweep_reach V s'"

inductive_cases deliversE: "delivers b us vs"
inductive_simps delivers_Nil [simp]: "delivers b [] vs"
inductive_simps delivers_Cons: "delivers b (u # us) vs"

section \<open>Messages that touch one row\<close>

text \<open>The mutation reads and writes the row of its service only.\<close>

definition local_update :: "StateUpdate \<Rightarrow> bool" where
  "local_update u \<longleftrightarrow> (\<exists>g. \<forall>st. Apply u st =
     st\<lparr>Containers := (Containers st)(upd_Service u := g (Containers st (upd_Service u)))\<rparr>)"

lemma local_updateI:
  "(\<And>st. Apply u st = st\<lparr>Containers := (Containers st)(upd_Service u := g (Containers st (upd_Service u)))\<rparr>)
   \<Longrightarrow> local_update u"
  unfolding local_update_def by blast

lemma AppState_Containers_self [simp]: "st\<lparr>Containers := Containers st\<rparr> = st"
  by (cases st) simp

lemma local_sendFetchError: "local_update (sendFetchError svc cl)"
  by (rule local_updateI [where g = "\<lambda>r. let c = (case r of None \<Rightarrow> zero_container | Some c \<Rightarrow> c) in
        if Notes c = NotePinnedOptOut \<or> Notes c = NoteInvalidTagPattern then r
        else Some (c\<lparr>Notes := NoteRegistryPrefix @ cl @ NoteRegistrySuffix\<rparr>)"])
     (simp add: sendFetchError_def row_def put_row_def Let_def)

lemma local_row_write:
  "local_update \<lparr>upd_Kind = k, upd_Service = svc, Apply = (\<lambda>st. put_row svc (f (row st svc)) st)\<rparr>"
  by (rule local_updateI [where g = "\<lambda>r. Some (f (case r of None \<Rightarrow> zero_container | Some c \<Rightarrow> c))"])
     (simp add: row_def put_row_def)

lemma local_note_msg: "local_update (note_msg svc n)"
  unfolding note_msg_def by (rule local_row_write)

lemma local_handleFetchResult: "local_update (handleFetchResult c r now)"
  by (auto simp: handleFetchResult_def local_sendFetchError split: sum.splits intro: local_row_write)

lemma upd_Service_msgs [simp]:
  "upd_Service (sendFetchError svc cl) = svc"
  "upd_Service (note_msg svc n) = svc"
  "upd_Service (handleFetchResult c r now) = Service c"
  by (simp_all add: sendFetchError_def note_msg_def handleFetchResult_def split: sum.splits)

lemma local_commute:
  assumes "local_update u" and "local_update v" and "upd_Service u \<noteq> upd_Service v"
  shows "Apply u (Apply v st) = Apply v (Apply u st)"
proof -
  from assms(1,2) obtain g h where
    "\<And>st. Apply u st = st\<lparr>Containers := (Containers st)(upd_Service u := g (Containers st (upd_Service u)))\<rparr>"
    "\<And>st. Apply v st = st\<lparr>Containers := (Containers st)(upd_Service v := h (Containers st (upd_Service v)))\<rparr>"
    unfolding local_update_def by blast
  with assms(3) show ?thesis by (simp add: fun_upd_twist)
qed

lemma local_other_row:
  "local_update u \<Longrightarrow> svc \<noteq> upd_Service u \<Longrightarrow> Containers (Apply u st) svc = Containers st svc"
  by (auto simp: local_update_def)

lemma local_same_row:
  assumes "local_update u" and "Containers st (upd_Service u) = Containers st' (upd_Service u)"
  shows "Containers (Apply u st) (upd_Service u) = Containers (Apply u st') (upd_Service u)"
proof -
  from assms(1) obtain g where
    "\<And>st. Apply u st = st\<lparr>Containers := (Containers st)(upd_Service u := g (Containers st (upd_Service u)))\<rparr>"
    unfolding local_update_def by blast
  with assms(2) show ?thesis by simp
qed

lemma local_scalars:
  "local_update u \<Longrightarrow> Version (Apply u st) = Version st"
  "local_update u \<Longrightarrow> LastPollStart (Apply u st) = LastPollStart st"
  "local_update u \<Longrightarrow> LastPollEnd (Apply u st) = LastPollEnd st"
  "local_update u \<Longrightarrow> LastPollError (Apply u st) = LastPollError st"
  by (auto simp: local_update_def)

abbreviation run_msgs :: "StateUpdate list \<Rightarrow> AppState \<Rightarrow> AppState" where
  "run_msgs us \<equiv> fold Apply us"

lemma run_local_other:
  "\<forall>u \<in> set us. local_update u \<Longrightarrow> svc \<notin> upd_Service ` set us \<Longrightarrow>
     Containers (run_msgs us st) svc = Containers st svc"
  by (induction us arbitrary: st) (auto simp: local_other_row)

lemma run_local_row:
  assumes "\<forall>u \<in> set us. local_update u" and "distinct (map upd_Service us)" and "u \<in> set us"
  shows "Containers (run_msgs us st) (upd_Service u) = Containers (Apply u st) (upd_Service u)"
  using assms
proof (induction us arbitrary: st)
  case (Cons v us)
  show ?case
  proof (cases "v = u")
    case True
    with Cons.prems show ?thesis by (simp add: run_local_other)
  next
    case False
    with Cons.prems have "u \<in> set us" by simp
    moreover have "upd_Service v \<notin> upd_Service ` set us" using Cons.prems by simp
    ultimately have ne: "upd_Service u \<noteq> upd_Service v" by (metis imageI)
    note \<open>u \<in> set us\<close>
    with ne Cons have "Containers (run_msgs (v # us) st) (upd_Service u) =
        Containers (Apply u (Apply v st)) (upd_Service u)" by simp
    also have "\<dots> = Containers (Apply u st) (upd_Service u)"
      using Cons.prems \<open>u \<in> set us\<close> ne by (intro local_same_row local_other_row) auto
    finally show ?thesis .
  qed
qed simp

lemma run_local_scalars:
  assumes "\<forall>u \<in> set us. local_update u"
  shows "Version (run_msgs us st) = Version st" "LastPollStart (run_msgs us st) = LastPollStart st"
    "LastPollEnd (run_msgs us st) = LastPollEnd st" "LastPollError (run_msgs us st) = LastPollError st"
  using assms by (induction us arbitrary: st) (simp_all add: local_scalars)

lemma run_local_permute:
  assumes "\<forall>u \<in> set us. local_update u" and "distinct (map upd_Service us)" and "mset us = mset vs"
  shows "run_msgs us st = run_msgs vs st"
proof -
  have "Apply u \<circ> Apply v = Apply v \<circ> Apply u" if "u \<in> set us" and "v \<in> set us" for u v
  proof (cases "u = v")
    case False
    with assms(2) that have "upd_Service u \<noteq> upd_Service v"
      by (auto simp: distinct_map inj_on_def)
    with assms(1) that show ?thesis by (auto simp: local_commute)
  qed simp
  then show ?thesis using fold_multiset_equiv [OF _ assms(3), of Apply] by metis
qed

section \<open>What a sweep sends\<close>

definition row_msgs :: "'re sweep_env \<Rightarrow> Container \<Rightarrow> StateUpdate list" where
  "row_msgs V c =
     (if se_ref V c = '''' then (case sendTagMismatch c of None \<Rightarrow> [] | Some u \<Rightarrow> [u])
      else [se_result V c])"

definition sweep_rows :: "'re sweep_env \<Rightarrow> StateUpdate list" where
  "sweep_rows V = fst (eligibleContainers (se_rows V))
     @ concat (map (row_msgs V) (snd (eligibleContainers (se_rows V))))"

lemma delivers_live [simp]: "delivers False us vs \<longleftrightarrow> vs = us"
  by (induction us arbitrary: vs) (auto simp: delivers_Cons)

lemma delivers_subset: "delivers b us vs \<Longrightarrow> set vs \<subseteq> set us"
  by (induction rule: delivers.induct) auto

lemma delivers_total: "delivers b us us"
  by (induction us) (auto intro: delivers.intros)

definition sweep_inv :: "'re sweep_env \<Rightarrow> sweep_sys \<Rightarrow> bool" where
  "sweep_inv V s \<longleftrightarrow>
     length (sw_running s) \<le> se_limit V \<and>
     (\<forall>c \<in> set (sw_running s). se_ref V c \<noteq> '''') \<and>
     (sw_pc s = SweepBegin \<longrightarrow> sw_running s = []) \<and>
     (\<not> sw_cancelled s \<longrightarrow>
        (case sw_pc s of
           SweepBegin \<Rightarrow> sw_sent s = []
         | Dispatching \<Rightarrow> (\<exists>mid. sw_sent s = sweep_start_msg (se_start V) # mid \<and>
             mset mid + mset (concat (map (row_msgs V) (sw_todo s)))
               + mset (map (\<lambda>c. se_result V c) (sw_running s)) = mset (sweep_rows V))
         | Finished \<Rightarrow> (\<exists>mid. sw_sent s = sweep_start_msg (se_start V) # mid @ [sweep_end_msg (se_end V)] \<and>
             mset mid = mset (sweep_rows V))))"

lemma sweep_step_inv: "sweep_step V s s' \<Longrightarrow> sweep_inv V s \<Longrightarrow> sweep_inv V s'"
proof (induction rule: sweep_step.induct)
  case (begin_sweep s us)
  then show ?case by (auto simp: sweep_inv_def sweep_rows_def)
next
  case (mismatch s c cs us)
  then show ?case by (auto simp: sweep_inv_def row_msgs_def add_ac)
next
  case (go s c cs)
  then show ?case by (auto simp: sweep_inv_def row_msgs_def add_ac)
next
  case (worker s as c bs us)
  then show ?case by (auto simp: sweep_inv_def)
next
  case (end_sweep s us)
  then show ?case by (auto simp: sweep_inv_def)
next
  case (cancel s)
  then show ?case by (auto simp: sweep_inv_def)
qed

lemma sweep_reach_inv: "sweep_reach V s \<Longrightarrow> sweep_inv V s"
proof (induction rule: sweep_reach.induct)
  case init
  show ?case by (simp add: sweep_inv_def sweep_init_def)
next
  case (step s s')
  then show ?case by (blast intro: sweep_step_inv)
qed

text \<open>The row of a snapshot after its part of the sweep, given what it holds by then.\<close>

definition polled :: "'re sweep_env \<Rightarrow> Container \<Rightarrow> Container option \<Rightarrow> Container option" where
  "polled V c r =
     (let cur = (case r of None \<Rightarrow> zero_container | Some d \<Rightarrow> d) in
      if Pinned c then (if Notes c = NotePinnedOptOut then r else Some (cur\<lparr>Notes := NotePinnedOptOut\<rparr>))
      else if Stopped c \<or> ImageRepo c = '''' then r
      else if se_ref V c = '''' then
        (if Notes c = NoteTagMismatch then r else Some (cur\<lparr>Notes := NoteTagMismatch\<rparr>))
      else (case se_registry V (se_ref V c) of
              Inl e \<Rightarrow>
                if Notes cur = NotePinnedOptOut \<or> Notes cur = NoteInvalidTagPattern then r
                else Some (cur\<lparr>Notes := NoteRegistryPrefix @ error_class e @ NoteRegistrySuffix\<rparr>)
            | Inr (digest, createdAt) \<Rightarrow>
                Some (digest_row digest createdAt (se_now V (Service c)) cur)))"

definition msgs_for :: "'re sweep_env \<Rightarrow> Container \<Rightarrow> StateUpdate list" where
  "msgs_for V c =
     (if Pinned c then (case sendPinnedNote c of None \<Rightarrow> [] | Some u \<Rightarrow> [u])
      else if Stopped c \<or> ImageRepo c = '''' then [] else row_msgs V c)"

lemma mset_sweep_rows: "mset (sweep_rows V) = mset (concat (map (msgs_for V) (se_rows V)))"
proof -
  have "mset (fst (eligibleContainers cs) @ concat (map (row_msgs V) (snd (eligibleContainers cs)))) =
      mset (concat (map (msgs_for V) cs))" for cs
    by (induction cs) (auto simp: msgs_for_def Let_def add_ac split: prod.splits option.splits)
  then show ?thesis by (simp add: sweep_rows_def)
qed

lemma msgs_for_local: "u \<in> set (msgs_for V c) \<Longrightarrow> local_update u \<and> upd_Service u = Service c"
  by (auto simp: msgs_for_def row_msgs_def sendPinnedNote_def sendTagMismatch_def local_note_msg
      local_handleFetchResult split: if_splits)

lemma msgs_for_le1: "length (msgs_for V c) \<le> 1"
  by (auto simp: msgs_for_def row_msgs_def split: option.splits)

lemma msgs_for_polled:
  "Containers (run_msgs (msgs_for V c) st) (Service c) = polled V c (Containers st (Service c))"
  by (auto simp: msgs_for_def row_msgs_def sendPinnedNote_def sendTagMismatch_def note_msg_def
      handleFetchResult_def sendFetchError_def polled_def row_def Let_def
      split: option.splits sum.splits)

lemma distinct_msgs:
  assumes "distinct (map Service cs)"
  shows "distinct (map upd_Service (concat (map (msgs_for V) cs)))"
  using assms
proof (induction cs)
  case (Cons c cs)
  have "distinct (map upd_Service (msgs_for V c))"
    using msgs_for_le1 [of V c] by (cases "msgs_for V c") auto
  moreover have "upd_Service ` set (msgs_for V c) \<inter> upd_Service ` set (concat (map (msgs_for V) cs)) = {}"
    using Cons.prems msgs_for_local [of _ V] by fastforce
  ultimately show ?case using Cons by auto
qed simp

lemma run_sweep_row:
  assumes "distinct (map Service cs)" and "c \<in> set cs"
  shows "Containers (run_msgs (concat (map (msgs_for V) cs)) st) (Service c) =
    polled V c (Containers st (Service c))"
proof -
  let ?us = "concat (map (msgs_for V) cs)"
  have loc: "\<forall>u \<in> set ?us. local_update u" using msgs_for_local by fastforce
  show ?thesis
  proof (cases "msgs_for V c")
    case Nil
    have "Service c \<notin> upd_Service ` set ?us"
    proof
      assume "Service c \<in> upd_Service ` set ?us"
      then obtain d u where "d \<in> set cs" and "u \<in> set (msgs_for V d)" and "upd_Service u = Service c"
        by auto
      moreover from this have "Service d = Service c" using msgs_for_local by metis
      ultimately show False using assms Nil by (metis distinct_map empty_iff inj_onD list.set(1))
    qed
    with loc have "Containers (run_msgs ?us st) (Service c) = Containers st (Service c)"
      by (rule run_local_other)
    with Nil msgs_for_polled [of V c st] show ?thesis by simp
  next
    case (Cons u us)
    with msgs_for_le1 [of V c] have u: "msgs_for V c = [u]" by (cases us) auto
    with msgs_for_local [of u V c] have "upd_Service u = Service c" by simp
    moreover have "u \<in> set ?us" using u assms(2) by force
    ultimately show ?thesis
      using run_local_row [OF loc distinct_msgs [OF assms(1)], of u st] msgs_for_polled [of V c st] u
      by simp
  qed
qed

lemma finished_document:
  assumes "sweep_reach V s" and "sw_pc s = Finished" and "\<not> sw_cancelled s"
    and "distinct (map Service (se_rows V))"
  shows "run_msgs (sw_sent s) st =
    (run_msgs (concat (map (msgs_for V) (se_rows V)))
       (st\<lparr>LastPollStart := se_start V, LastPollError := ''''\<rparr>))\<lparr>LastPollEnd := se_end V\<rparr>"
proof -
  from sweep_reach_inv [OF assms(1)] assms(2,3) obtain mid where
    sent: "sw_sent s = sweep_start_msg (se_start V) # mid @ [sweep_end_msg (se_end V)]"
    and "mset (concat (map (msgs_for V) (se_rows V))) = mset mid"
    by (auto simp: sweep_inv_def mset_sweep_rows)
  then have "run_msgs (concat (map (msgs_for V) (se_rows V))) st' = run_msgs mid st'" for st'
    using msgs_for_local distinct_msgs [OF assms(4)] by (intro run_local_permute) fastforce+
  then show ?thesis by (simp add: sent sweep_start_msg_def sweep_end_msg_def)
qed

section \<open>Properties\<close>

text \<open>
  C8. The order in which the workers of a sweep finish does not matter. A sweep
  that ran to its end without cancellation leaves, in whatever document its
  messages are applied to: in each row of the snapshot, what \<open>polled\<close> says of that
  row alone; every other row as it was; and the times of the sweep with an empty
  poll error.
\<close>

theorem sweep_result:
  assumes "sweep_reach V s" and "sw_pc s = Finished" and "\<not> sw_cancelled s"
    and "distinct (map Service (se_rows V))"
  shows "fold Apply (sw_sent s) st =
    st\<lparr>LastPollStart := se_start V, LastPollEnd := se_end V, LastPollError := '''',
       Containers := (\<lambda>svc. case find (\<lambda>c. Service c = svc) (se_rows V) of
           None \<Rightarrow> Containers st svc
         | Some c \<Rightarrow> polled V c (Containers st svc))\<rparr>"
proof -
  let ?st = "st\<lparr>LastPollStart := se_start V, LastPollError := ''''\<rparr>"
  let ?us = "concat (map (msgs_for V) (se_rows V))"
  have loc: "\<forall>u \<in> set ?us. local_update u" using msgs_for_local by fastforce
  have "Containers (run_msgs ?us ?st) svc =
      (case find (\<lambda>c. Service c = svc) (se_rows V) of None \<Rightarrow> Containers st svc
       | Some c \<Rightarrow> polled V c (Containers st svc))" for svc
  proof (cases "find (\<lambda>c. Service c = svc) (se_rows V)")
    case None
    then have "svc \<notin> Service ` set (se_rows V)" by (auto simp: find_None_iff)
    then have "svc \<notin> upd_Service ` set ?us" using msgs_for_local by fastforce
    with None run_local_other [OF loc, of svc ?st] show ?thesis by simp
  next
    case (Some c)
    then have "c \<in> set (se_rows V)" and "Service c = svc" by (auto simp: find_Some_iff)
    with Some run_sweep_row [OF assms(4), of c V ?st] show ?thesis by simp
  qed
  then have "Containers (run_msgs ?us ?st) = (\<lambda>svc. case find (\<lambda>c. Service c = svc) (se_rows V) of
      None \<Rightarrow> Containers st svc | Some c \<Rightarrow> polled V c (Containers st svc))" by blast
  with run_local_scalars [OF loc, of ?st] show ?thesis
    unfolding finished_document [OF assms] by (intro AppState.equality) simp_all
qed

text \<open>A sweep over three rows, whose two fetches finish in the reverse order.\<close>

definition always_match :: "unit regexp" where
  "always_match = \<lparr>Compile = (\<lambda>_. Inr ()), MatchString = (\<lambda>_ _. True)\<rparr>"

definition demo_row :: "string \<Rightarrow> Container" where
  "demo_row svc =
     zero_container\<lparr>Service := svc, ImageRepo := ''ghcr.io/'' @ svc, Tag := ''v1'', CurrentDigest := ''sha256:old''\<rparr>"

definition demo_sweep :: "unit sweep_env" where
  "demo_sweep =
     \<lparr>se_regexp = always_match, se_patterns = Map.empty, se_limit = 4,
      se_rows = [demo_row ''a'', (demo_row ''p'')\<lparr>Pinned := True\<rparr>, demo_row ''b''],
      se_registry = (\<lambda>ref. if ref = ''ghcr.io/a:v1'' then Inr (''sha256:new'', 7)
                            else Inl (sentinel_error ErrPermanent ''manifest unknown'')),
      se_start = 1, se_end = 9, se_now = (\<lambda>_. 5)\<rparr>"

definition demo_sent :: "StateUpdate list" where
  "demo_sent =
     [sweep_start_msg 1, note_msg ''p'' NotePinnedOptOut, se_result demo_sweep (demo_row ''b''),
      se_result demo_sweep (demo_row ''a''), sweep_end_msg 9]"

definition demo_finished :: sweep_sys where
  "demo_finished =
     \<lparr>sw_pc = Finished, sw_todo = [], sw_running = [], sw_sent = demo_sent, sw_cancelled = False\<rparr>"

lemma demo_eligible:
  "eligibleContainers (se_rows demo_sweep) =
     ([note_msg ''p'' NotePinnedOptOut], [demo_row ''a'', demo_row ''b''])"
  by (simp add: demo_sweep_def demo_row_def sendPinnedNote_def zero_container_def note_defs)

lemma demo_ref: "se_ref demo_sweep (demo_row svc) = ''ghcr.io/'' @ svc @ '':v1''"
  by (simp add: demo_sweep_def demo_row_def refForContainer_def Patterns_Match_def Let_def)

lemma demo_sweep_fields [simp]:
  "se_limit demo_sweep = 4" "se_start demo_sweep = 1" "se_end demo_sweep = 9"
  by (simp_all add: demo_sweep_def)

lemma demo_finished_reach: "sweep_reach demo_sweep demo_finished"
proof -
  let ?m = "[sweep_start_msg 1, note_msg ''p'' NotePinnedOptOut]"
  let ?a = "demo_row ''a''" let ?b = "demo_row ''b''"
  let ?s1 = "\<lparr>sw_pc = Dispatching, sw_todo = [?a, ?b], sw_running = [], sw_sent = ?m, sw_cancelled = False\<rparr>"
  let ?s2 = "\<lparr>sw_pc = Dispatching, sw_todo = [?b], sw_running = [?a], sw_sent = ?m, sw_cancelled = False\<rparr>"
  let ?s3 = "\<lparr>sw_pc = Dispatching, sw_todo = [], sw_running = [?a, ?b], sw_sent = ?m, sw_cancelled = False\<rparr>"
  let ?s4 = "\<lparr>sw_pc = Dispatching, sw_todo = [], sw_running = [?a],
      sw_sent = ?m @ [se_result demo_sweep ?b], sw_cancelled = False\<rparr>"
  let ?s5 = "\<lparr>sw_pc = Dispatching, sw_todo = [], sw_running = [],
      sw_sent = ?m @ [se_result demo_sweep ?b, se_result demo_sweep ?a], sw_cancelled = False\<rparr>"
  have "sweep_step demo_sweep sweep_init ?s1"
    using sweep_step.begin_sweep [of sweep_init demo_sweep ?m]
    by (simp add: sweep_init_def demo_eligible)
  moreover have "sweep_step demo_sweep ?s1 ?s2"
    using sweep_step.go [of ?s1 ?a "[?b]" demo_sweep] by (simp add: demo_ref)
  moreover have "sweep_step demo_sweep ?s2 ?s3"
    using sweep_step.go [of ?s2 ?b "[]" demo_sweep] by (simp add: demo_ref)
  moreover have "sweep_step demo_sweep ?s3 ?s4"
    using sweep_step.worker [of ?s3 "[?a]" ?b "[]" demo_sweep] by simp
  moreover have "sweep_step demo_sweep ?s4 ?s5"
    using sweep_step.worker [of ?s4 "[]" ?a "[]" demo_sweep] by simp
  moreover have "sweep_step demo_sweep ?s5 demo_finished"
    using sweep_step.end_sweep [of ?s5 demo_sweep] by (simp add: demo_finished_def demo_sent_def)
  ultimately show ?thesis by (meson sweep_reach.intros)
qed

definition demo_document :: AppState where
  "demo_document = empty_state\<lparr>Containers := [''a'' \<mapsto> demo_row ''a'', ''b'' \<mapsto> demo_row ''b'', ''p'' \<mapsto>
     (demo_row ''p'')\<lparr>Pinned := True\<rparr>]\<rparr>"

theorem sweep_result_witness:
  "map_option UpdateAvailable (Containers (fold Apply (sw_sent demo_finished) demo_document) ''a'') = Some True
   \<and> map_option Notes (Containers (fold Apply (sw_sent demo_finished) demo_document) ''b'') =
       Some ''registry error: permanent (check image ref)''"
proof -
  have "sw_pc demo_finished = Finished" and "\<not> sw_cancelled demo_finished"
    and "distinct (map Service (se_rows demo_sweep))"
    by (simp_all add: demo_finished_def demo_sweep_def demo_row_def)
  note r = sweep_result [OF demo_finished_reach this, of demo_document]
  show ?thesis
    unfolding r
    by (simp add: demo_sweep_def demo_row_def demo_document_def polled_def refForContainer_def
        Patterns_Match_def digest_row_def error_class_def zero_container_def note_defs Let_def)
qed

definition sweep_measure :: "'re sweep_env \<Rightarrow> sweep_sys \<Rightarrow> nat" where
  "sweep_measure V s =
     (case sw_pc s of
        SweepBegin \<Rightarrow> 2 * length (se_rows V) + 2
      | Dispatching \<Rightarrow> 2 * length (sw_todo s) + length (sw_running s) + 1
      | Finished \<Rightarrow> 0) + (if sw_cancelled s then 0 else 1)"

lemma eligible_length: "length (snd (eligibleContainers cs)) \<le> length cs"
  by (induction cs) (auto simp: Let_def split: prod.splits)

lemma sweep_step_measure:
  "sweep_step V s s' \<Longrightarrow> sweep_inv V s \<Longrightarrow> sweep_measure V s' < sweep_measure V s"
proof (induction rule: sweep_step.induct)
  case (begin_sweep s us)
  with eligible_length [of "se_rows V"] show ?case by (auto simp: sweep_measure_def sweep_inv_def)
qed (auto simp: sweep_measure_def split: sweep_pc.splits)

lemma sweep_run_measure:
  "(sweep_step V ^^ n) sweep_init s \<Longrightarrow> sweep_reach V s \<and> n + sweep_measure V s \<le> sweep_measure V sweep_init"
proof (induction n arbitrary: s)
  case 0
  then show ?case by (auto intro: sweep_reach.init)
next
  case (Suc n)
  then obtain t where "(sweep_step V ^^ n) sweep_init t" and st: "sweep_step V t s" by auto
  with Suc.IH have "sweep_reach V t" and "n + sweep_measure V t \<le> sweep_measure V sweep_init" by auto
  with st sweep_step_measure [OF st sweep_reach_inv] show ?case
    by (auto intro: sweep_reach.step)
qed

lemma sweep_progress:
  assumes "sw_pc s \<noteq> Finished" and "0 < se_limit V"
  shows "\<exists>s'. sweep_step V s s' \<and> sw_cancelled s' = sw_cancelled s"
proof (cases "sw_pc s")
  case SweepBegin
  from sweep_step.begin_sweep [OF this delivers_total] show ?thesis by fastforce
next
  case pc: Dispatching
  show ?thesis
  proof (cases "sw_running s")
    case run: Nil
    show ?thesis
    proof (cases "sw_todo s")
      case Nil
      from sweep_step.end_sweep [OF pc Nil run delivers_total] show ?thesis by fastforce
    next
      case (Cons c cs)
      show ?thesis
      proof (cases "se_ref V c = ''''")
        case True
        from sweep_step.mismatch [OF pc Cons True delivers_total] show ?thesis by fastforce
      next
        case False
        from sweep_step.go [OF pc Cons False] run assms(2) show ?thesis by fastforce
      qed
    qed
  next
    case (Cons c cs)
    then have "sw_running s = [] @ c # cs" by simp
    from sweep_step.worker [OF pc this delivers_total] show ?thesis by fastforce
  qed
qed (use assms in simp)

text \<open>
  C24. A sweep never has more fetches in flight than the configured concurrency,
  every sweep ends, and it cannot get stuck: each run takes at most
  \<open>2 * rows + 3\<close> steps, and while the sweep is not finished some step other than a
  cancellation is possible.
\<close>

theorem sweep_bounded_and_live:
  assumes "(sweep_step V ^^ n) sweep_init s" and "0 < se_limit V"
  shows "length (sw_running s) \<le> se_limit V \<and> n \<le> 2 * length (se_rows V) + 3 \<and>
    (sw_pc s = Finished \<or> (\<exists>s'. sweep_step V s s' \<and> sw_cancelled s' = sw_cancelled s))"
  using sweep_run_measure [OF assms(1)] sweep_reach_inv [of V s] sweep_progress [OF _ assms(2)]
  by (auto simp: sweep_inv_def sweep_measure_def sweep_init_def)

theorem sweep_bounded_and_live_witness:
  "length (sw_running sweep_init) \<le> 4 \<and>
   (\<exists>s'. sweep_step demo_sweep sweep_init s' \<and> sw_cancelled s' = False)"
  using sweep_bounded_and_live [of 0 demo_sweep sweep_init] by (simp add: sweep_init_def)

text \<open>
  Polling the same digest again changes only the time of the poll, whatever the
  row: a flag, note or error that the first poll settled stays settled. A poll
  clears the update flag exactly of rows that run the polled digest.
\<close>

theorem poll_idempotent:
  "digest_row d at t2 (digest_row d at t1 c) = digest_row d at t2 c \<and>
   UpdateAvailable (digest_row d at t2 c) =
     (if CurrentDigest c \<noteq> '''' then CurrentDigest c \<noteq> d
      else UpdateAvailable c \<or> AvailableDigest c \<noteq> '''' \<and> AvailableDigest c \<noteq> d)"
  by (auto simp: digest_row_def Let_def clearStaleErrorNotes_def clearStalePullActionError_def)

section \<open>The poller as a producer\<close>

definition poll_sends :: "AppState \<Rightarrow> StateUpdate \<Rightarrow> bool" where
  "poll_sends snap u \<longleftrightarrow>
     (\<exists>t. u = sweep_start_msg t) \<or> (\<exists>t. u = sweep_end_msg t) \<or>
     (\<exists>c \<in> ran (Containers snap).
        u = note_msg (Service c) NotePinnedOptOut \<or> u = note_msg (Service c) NoteTagMismatch \<or>
        (\<exists>r now. u = handleFetchResult c r now))"

lemma row_ok_digest_row: "row_ok svc c \<Longrightarrow> row_ok svc (digest_row d at t c)"
  by (auto simp: row_ok_def digest_row_def Let_def clearStaleErrorNotes_def known_notes_def)

lemma row_ok_note: "row_ok svc c \<Longrightarrow> n \<in> known_notes \<Longrightarrow> row_ok svc (c\<lparr>Notes := n\<rparr>)"
  by (simp add: row_ok_def)

lemma known_notes_simps [simp]:
  "NotePinnedOptOut \<in> known_notes" "NoteTagMismatch \<in> known_notes" "NoteInvalidTagPattern \<in> known_notes"
  "NoteRegistryPrefix @ error_class e @ NoteRegistrySuffix \<in> known_notes"
  by (auto simp: known_notes_def error_class_def)

lemma safe_sendFetchError:
  assumes "svc \<in> D"
  shows "safe D (sendFetchError svc (error_class e))"
proof -
  have "safe D \<lparr>upd_Kind = KindDigestResolved, upd_Service = svc,
      Apply = (\<lambda>st. put_row svc ((\<lambda>c. if Notes c = NotePinnedOptOut \<or> Notes c = NoteInvalidTagPattern
        then c else c\<lparr>Notes := NoteRegistryPrefix @ error_class e @ NoteRegistrySuffix\<rparr>) (row st svc)) st)\<rparr>"
    by (rule safe_row_write [OF _ assms]) (auto intro: row_ok_note)
  moreover have "put_row svc (row st svc) st = st" if "svc \<in> dom (Containers st)" for st
    using that by (auto simp: put_row_def row_def fun_upd_idem)
  ultimately show ?thesis using assms
    by (auto simp: safe_def sendFetchError_def Let_def split: if_splits)
qed

lemma safe_poll_msgs:
  "safe D (sweep_start_msg t)"
  "safe D (sweep_end_msg t)"
  "svc \<in> D \<Longrightarrow> n \<in> known_notes \<Longrightarrow> safe D (note_msg svc n)"
  "Service c \<in> D \<Longrightarrow> safe D (handleFetchResult c r now)"
  unfolding sweep_start_msg_def sweep_end_msg_def note_msg_def handleFetchResult_def
  by (auto intro: safe_scalar safe_row_write row_ok_note row_ok_digest_row safe_sendFetchError
      split: sum.splits)

interpretation poll: producer poll_sends
proof
  fix snap u
  assume ok: "state_ok snap" and "poll_sends snap u"
  moreover have "Service c \<in> dom (Containers snap)" if "c \<in> ran (Containers snap)" for c
    using that ok by (auto simp: ran_def state_ok_def row_ok_def)
  ultimately show "safe (dom (Containers snap)) u"
    unfolding poll_sends_def by (elim disjE bexE exE) (simp_all add: safe_poll_msgs)
qed

lemma poll_sends_intros:
  "poll_sends snap (sweep_start_msg t)"
  "poll_sends snap (sweep_end_msg t)"
  "c \<in> ran (Containers snap) \<Longrightarrow> poll_sends snap (note_msg (Service c) NotePinnedOptOut)"
  "c \<in> ran (Containers snap) \<Longrightarrow> poll_sends snap (note_msg (Service c) NoteTagMismatch)"
  "c \<in> ran (Containers snap) \<Longrightarrow> poll_sends snap (handleFetchResult c r now)"
  unfolding poll_sends_def by blast+

lemma sweep_sends:
  assumes "sweep_reach V s" and "set (se_rows V) \<subseteq> ran (Containers snap)" and "u \<in> set (sw_sent s)"
  shows "poll_sends snap u"
proof -
  let ?R = "ran (Containers snap)"
  have el: "set (snd (eligibleContainers cs)) \<subseteq> set cs \<and>
      set (fst (eligibleContainers cs)) \<subseteq> (\<lambda>c. note_msg (Service c) NotePinnedOptOut) ` set cs" for cs
    by (induction cs) (auto simp: Let_def sendPinnedNote_def split: prod.splits)
  have pinned: "set (fst (eligibleContainers (se_rows V))) \<subseteq> Collect (poll_sends snap)"
    using el [of "se_rows V"] assms(2) by (fastforce simp: poll_sends_def)
  have "set (sw_sent s) \<subseteq> Collect (poll_sends snap) \<and> set (sw_todo s) \<union> set (sw_running s) \<subseteq> ?R"
    using assms(1)
  proof (induction rule: sweep_reach.induct)
    case init
    show ?case by (simp add: sweep_init_def)
  next
    case (step s s')
    from step.hyps(2) step.IH show ?case
    proof (induction rule: sweep_step.induct)
      case (begin_sweep s us)
      have "set us \<subseteq> Collect (poll_sends snap)"
        using delivers_subset [OF begin_sweep(2)] pinned poll_sends_intros(1) [of snap "se_start V"]
        by auto
      moreover have "set (snd (eligibleContainers (se_rows V))) \<subseteq> ?R" using el assms(2) by blast
      ultimately show ?case using begin_sweep by auto
    next
      case (mismatch s c cs us)
      with delivers_subset [OF mismatch(4)] poll_sends_intros(4) [of c snap] show ?case
        by (auto simp: sendTagMismatch_def split: if_splits)
    next
      case (worker s as c bs us)
      then have "poll_sends snap (se_result V c)" by (simp add: poll_sends_intros)
      with worker delivers_subset [OF worker(3)] show ?case by auto
    next
      case (end_sweep s us)
      with delivers_subset [OF end_sweep(4)] poll_sends_intros(2) [of snap "se_end V"] show ?case
        by auto
    qed auto
  qed
  with assms(3) show ?thesis by blast
qed

end
