(* ===== verification/Effects.thy ===== *)
theory Effects
  imports Channel "HOL-Library.Multiset"
begin

text \<open>
  The world the components act on: the daemon facade of \<open>internal/docker\<close>
  (client.go, moby.go), the registry resolver, the compose file, the clock, the
  request context and the update channel. Each external call is an operation of
  the parameter \<open>'w Env\<close> over an abstract external state \<open>'w\<close>, so every
  sequence of answers is an instance. A computation also records what it asked of
  the world, in order, as a list of effects.
\<close>

section \<open>Data of the daemon API\<close>

text \<open>
  The fields the program reads or writes are fields here; the fields it only
  copies are one opaque value (\<open>cfg_rest\<close>, \<open>hc_rest\<close>, \<open>ep_rest\<close>). A Go pointer
  that may be nil is an option. A Go map the program ranges over is an association
  list in the order of that range loop.
\<close>

record ContainerSummary =
  cs_ID :: string
  cs_Created :: int

record ContainerConfig =
  cfg_Image :: string
  cfg_User :: string
  cfg_Cmd :: "string list"
  cfg_Labels :: labels
  cfg_rest :: string

record HostConfig =
  hc_RestartPolicyName :: string
  hc_NetworkMode :: string
  hc_Binds :: "string list"
  hc_AutoRemove :: bool
  hc_rest :: string

record EndpointSettings =
  ep_Aliases :: "string list"
  ep_IPAMConfig :: "string option"
  ep_IPAddress :: "string option"
  ep_rest :: string

record ContainerRunState =
  rs_Running :: bool
  rs_Health :: "string option"

text \<open>
  The map of networks of an inspect response, as the list in which a range loop visits it;
  each response is ranged over once.
\<close>

type_synonym networks = "(string \<times> EndpointSettings option) list"

record InspectResponse =
  in_ID :: string
  in_Name :: string
  in_Image :: string
  in_RestartCount :: int
  in_State :: "ContainerRunState option"
  in_Config :: "ContainerConfig option"
  in_HostConfig :: "HostConfig option"
  in_Networks :: "networks option"

record ImageInspectResponse =
  ii_RepoDigests :: "string list"
  ii_Created :: string
  ii_ConfigLabels :: "labels option"

record ImageSummary =
  im_RepoDigests :: "string list"
  im_Created :: int

record ContainerCreateOptions =
  cc_Config :: ContainerConfig
  cc_HostConfig :: HostConfig
  cc_Endpoints :: "(string \<times> EndpointSettings) list"
  cc_Name :: string

text \<open>
  The pull-progress stream, message by message as the JSON decoder returns it:
  the text fields, and the aux payload absent, undecodable, or decoded to its two
  candidate digest fields. \<open>ps_decode_end\<close> is what ends the decoder: \<open>None\<close> for
  end of file. \<open>ps_copy_end\<close> is the same for a reader that only copies the bytes.
\<close>

datatype pull_aux = NoAux | BadAux go_error | Aux (aux_ID: string) (aux_Digest: string)

record pullJSONMessage =
  pm_Status :: string
  pm_Error :: string
  pm_Aux :: pull_aux

record PullStream =
  ps_messages :: "pullJSONMessage list"
  ps_decode_end :: "go_error option"
  ps_copy_end :: "go_error option"

record FileInfo =
  fi_ModTime :: Time
  fi_Size :: int
  fi_Inode :: "nat option" \<comment> \<open>\<open>None\<close> when the platform has no \<open>Stat_t\<close>\<close>

record Manifest =
  mf_Digest :: string
  mf_CreatedAt :: Time

section \<open>Effects, environment and world\<close>

datatype effect =
    EPing
  | EContainerList bool string
  | EContainerInspect string
  | EImagePull string
  | EImageInspect string
  | EImageTag string string
  | EImageList string
  | EContainerCreate ContainerCreateOptions
  | EContainerRemove string
  | EContainerStart string
  | EContainerStop string int
  | ENetworkConnect string string EndpointSettings
  | EDigest string
  | EManifest string
  | EHealthz string
  | ESend StateUpdate
  | ELock string
  | EUnlock string
  | EEvents
  | ESleep Duration

record 'w Env =
  sdk_Ping :: "'w \<Rightarrow> go_error option \<times> 'w"
  sdk_ContainerList :: "bool \<Rightarrow> string \<Rightarrow> 'w \<Rightarrow> ContainerSummary list result \<times> 'w"
  sdk_ContainerInspect :: "string \<Rightarrow> 'w \<Rightarrow> InspectResponse result \<times> 'w"
  sdk_ImagePull :: "string \<Rightarrow> 'w \<Rightarrow> PullStream result \<times> 'w"
  sdk_ImageInspect :: "string \<Rightarrow> 'w \<Rightarrow> ImageInspectResponse result \<times> 'w"
  sdk_ImageTag :: "string \<Rightarrow> string \<Rightarrow> 'w \<Rightarrow> go_error option \<times> 'w"
  sdk_ImageList :: "string \<Rightarrow> 'w \<Rightarrow> ImageSummary list result \<times> 'w"
  sdk_ContainerCreate :: "ContainerCreateOptions \<Rightarrow> 'w \<Rightarrow> string result \<times> 'w"
  sdk_ContainerRemove :: "string \<Rightarrow> 'w \<Rightarrow> go_error option \<times> 'w"
  sdk_ContainerStart :: "string \<Rightarrow> 'w \<Rightarrow> go_error option \<times> 'w"
  sdk_ContainerStop :: "string \<Rightarrow> int \<Rightarrow> 'w \<Rightarrow> go_error option \<times> 'w"
  sdk_NetworkConnect :: "string \<Rightarrow> string \<Rightarrow> EndpointSettings \<Rightarrow> 'w \<Rightarrow> go_error option \<times> 'w"
  reg_Digest :: "string \<Rightarrow> 'w \<Rightarrow> string result \<times> 'w"
  reg_Manifest :: "string \<Rightarrow> 'w \<Rightarrow> Manifest result \<times> 'w"
  http_Healthz :: "string \<Rightarrow> 'w \<Rightarrow> bool \<times> 'w"
  os_Stat :: "string \<Rightarrow> 'w \<Rightarrow> FileInfo result \<times> 'w"
  env_store :: "'w \<Rightarrow> AppState \<times> 'w"
  env_trylock :: "string \<Rightarrow> 'w \<Rightarrow> bool \<times> 'w"
  ctx_done :: "'w \<Rightarrow> bool \<times> 'w"
  sel_pick :: "'w \<Rightarrow> bool \<times> 'w"
  range_nets :: "(string \<times> EndpointSettings) list \<Rightarrow> 'w \<Rightarrow> (string \<times> EndpointSettings) list \<times> 'w"
    \<comment> \<open>the order in which a range loop visits a map of endpoints\<close>
  range_rows :: "AppState \<Rightarrow> 'w \<Rightarrow> (string \<times> Container) list \<times> 'w"
    \<comment> \<open>the order in which a range loop visits the rows\<close>
  sort_newest :: "(string \<times> int) list \<Rightarrow> 'w \<Rightarrow> (string \<times> int) list \<times> 'w"
    \<comment> \<open>\<open>sort.Slice\<close> by descending second component; the order of equal ones is not fixed\<close>
  time_Now :: "'w \<Rightarrow> Time \<times> 'w"
  env_zone :: "Time \<Rightarrow> int"
    \<comment> \<open>the offset from UTC, in minutes, of the location a time carries\<close>

record 'w World =
  ext :: 'w
  trace :: "effect list"

type_synonym ('w, 'a) io = "('w World, 'a) state"

abbreviation ret :: "'a \<Rightarrow> ('w, 'a) io" where
  "ret \<equiv> State_Monad.return"

definition observe :: "('w \<Rightarrow> 'a \<times> 'w) \<Rightarrow> ('w, 'a) io" where
  "observe f = State (\<lambda>w. case f (ext w) of (a, x) \<Rightarrow> (a, w\<lparr>ext := x\<rparr>))"

definition emit :: "effect \<Rightarrow> ('w, unit) io" where
  "emit e = State (\<lambda>w. ((), w\<lparr>trace := trace w @ [e]\<rparr>))"

definition extcall :: "effect \<Rightarrow> ('w \<Rightarrow> 'a \<times> 'w) \<Rightarrow> ('w, 'a) io" where
  "extcall e f = do { emit e; observe f }"

lemma run_observe [simp]:
  "run_state (observe f) w = (case f (ext w) of (a, x) \<Rightarrow> (a, w\<lparr>ext := x\<rparr>))"
  by (simp add: observe_def)

lemma run_emit [simp]: "run_state (emit e) w = ((), w\<lparr>trace := trace w @ [e]\<rparr>)"
  by (simp add: emit_def)

lemma run_extcall [simp]:
  "run_state (extcall e f) w =
     (case f (ext w) of (a, x) \<Rightarrow> (a, w\<lparr>trace := trace w @ [e], ext := x\<rparr>))"
  by (simp add: extcall_def split: prod.splits)

section \<open>The daemon facade (moby.go)\<close>

definition Ping :: "'w Env \<Rightarrow> ('w, go_error option) io" where
  "Ping E = extcall EPing (sdk_Ping E)"

definition ContainerList :: "'w Env \<Rightarrow> bool \<Rightarrow> string \<Rightarrow> ('w, ContainerSummary list result) io" where
  "ContainerList E all lbl = do {
     r \<leftarrow> extcall (EContainerList all lbl) (sdk_ContainerList E all lbl);
     ret (map_sum (wrap ''docker.ContainerList: '') id r) }"

definition ContainerInspect :: "'w Env \<Rightarrow> string \<Rightarrow> ('w, InspectResponse result) io" where
  "ContainerInspect E i = do {
     r \<leftarrow> extcall (EContainerInspect i) (sdk_ContainerInspect E i);
     ret (map_sum (wrap (''docker.ContainerInspect '' @ i @ '': '')) id r) }"

definition ImagePull :: "'w Env \<Rightarrow> string \<Rightarrow> ('w, PullStream result) io" where
  "ImagePull E ref = do {
     r \<leftarrow> extcall (EImagePull ref) (sdk_ImagePull E ref);
     ret (map_sum (wrap (''docker.ImagePull '' @ ref @ '': '')) id r) }"

definition ImageInspect :: "'w Env \<Rightarrow> string \<Rightarrow> ('w, ImageInspectResponse result) io" where
  "ImageInspect E ref = do {
     r \<leftarrow> extcall (EImageInspect ref) (sdk_ImageInspect E ref);
     ret (map_sum (wrap (''docker.ImageInspect '' @ ref @ '': '')) id r) }"

definition ImageTag :: "'w Env \<Rightarrow> string \<Rightarrow> string \<Rightarrow> ('w, go_error option) io" where
  "ImageTag E src dst = do {
     r \<leftarrow> extcall (EImageTag src dst) (sdk_ImageTag E src dst);
     ret (map_option (wrap (''docker.ImageTag '' @ src @ '' -> '' @ dst @ '': '')) r) }"

definition ImageList :: "'w Env \<Rightarrow> string \<Rightarrow> ('w, ImageSummary list result) io" where
  "ImageList E ref = do {
     r \<leftarrow> extcall (EImageList ref) (sdk_ImageList E ref);
     ret (map_sum (wrap ''docker.ImageList: '') id r) }"

definition ContainerCreate :: "'w Env \<Rightarrow> ContainerCreateOptions \<Rightarrow> ('w, string result) io" where
  "ContainerCreate E opts = do {
     r \<leftarrow> extcall (EContainerCreate opts) (sdk_ContainerCreate E opts);
     ret (map_sum (wrap (''docker.ContainerCreate '' @ cc_Name opts @ '': '')) id r) }"

text \<open>Every removal of the program has the options \<open>{Force: true}\<close>, which keep the volumes.\<close>

definition ContainerRemove :: "'w Env \<Rightarrow> string \<Rightarrow> ('w, go_error option) io" where
  "ContainerRemove E i = do {
     r \<leftarrow> extcall (EContainerRemove i) (sdk_ContainerRemove E i);
     ret (map_option (wrap (''docker.ContainerRemove '' @ i @ '': '')) r) }"

definition ContainerStart :: "'w Env \<Rightarrow> string \<Rightarrow> ('w, go_error option) io" where
  "ContainerStart E i = do {
     r \<leftarrow> extcall (EContainerStart i) (sdk_ContainerStart E i);
     ret (map_option (wrap (''docker.ContainerStart '' @ i @ '': '')) r) }"

definition ContainerStop :: "'w Env \<Rightarrow> string \<Rightarrow> int \<Rightarrow> ('w, go_error option) io" where
  "ContainerStop E i timeout = do {
     r \<leftarrow> extcall (EContainerStop i timeout) (sdk_ContainerStop E i timeout);
     ret (map_option (wrap (''docker.ContainerStop '' @ i @ '': '')) r) }"

definition NetworkConnect ::
  "'w Env \<Rightarrow> string \<Rightarrow> string \<Rightarrow> EndpointSettings \<Rightarrow> ('w, go_error option) io" where
  "NetworkConnect E net cid eps = do {
     r \<leftarrow> extcall (ENetworkConnect net cid eps) (sdk_NetworkConnect E net cid eps);
     ret (map_option (wrap (''docker.NetworkConnect '' @ cid @ '' -> '' @ net @ '': '')) r) }"

text \<open>\<open>Events\<close> hands out the two channels of the SDK's result as they are.\<close>

record ('m, 'e) EventsResult =
  er_Messages :: 'm
  er_Err :: 'e

definition Events :: "('m, 'e) EventsResult \<Rightarrow> 'm \<times> 'e" where
  "Events res = (er_Messages res, er_Err res)"

lemmas facade_defs = Ping_def ContainerList_def ContainerInspect_def ImagePull_def ImageInspect_def
  ImageTag_def ImageList_def ContainerCreate_def ContainerRemove_def ContainerStart_def
  ContainerStop_def NetworkConnect_def

text \<open>A range loop over a map of endpoints visits the entries in an order Go does not fix.\<close>

definition range_networks ::
  "'w Env \<Rightarrow> (string \<times> EndpointSettings) list \<Rightarrow> ('w, (string \<times> EndpointSettings) list) io" where
  "range_networks E ns = observe (range_nets E ns)"

text \<open>
  The select of \<open>channelSender.send\<close> and \<open>cronPoller.send\<close>: the message goes into
  the channel, or the send is abandoned when the context is done and the select
  takes that case. When both cases are ready, Go picks either. A wait for room in the
  channel has no effect of its own; the theory of the channel has its bound.
\<close>

definition send :: "'w Env \<Rightarrow> StateUpdate \<Rightarrow> ('w, unit) io" where
  "send E u = do {
     done \<leftarrow> observe (ctx_done E);
     pick \<leftarrow> observe (sel_pick E);
     if done \<and> \<not> pick then ret () else emit (ESend u) }"

section \<open>Reasoning about results and effects\<close>

text \<open>
  \<open>ensures m Q\<close>: from every world, \<open>m\<close> only appends to the trace, and its result
  and the appended effects satisfy \<open>Q\<close>. The rules below compute it backwards over
  the shape of a computation.
\<close>

definition ensures :: "('w, 'a) io \<Rightarrow> ('a \<Rightarrow> effect list \<Rightarrow> bool) \<Rightarrow> bool" where
  "ensures m Q \<longleftrightarrow>
     (\<forall>w. \<exists>es. trace (snd (run_state m w)) = trace w @ es \<and> Q (fst (run_state m w)) es)"

lemma ensures_return [emits]: "Q a [] \<Longrightarrow> ensures (ret a) Q"
  by (simp add: ensures_def)

lemma ensures_bind [emits]:
  assumes "ensures m (\<lambda>a es. ensures (f a) (\<lambda>b es'. Q b (es @ es')))"
  shows "ensures (m \<bind> f) Q"
  unfolding ensures_def
proof
  fix w
  obtain a w1 where m: "run_state m w = (a, w1)" by (cases "run_state m w")
  with assms obtain es where es: "trace w1 = trace w @ es"
    and "ensures (f a) (\<lambda>b es'. Q b (es @ es'))"
    unfolding ensures_def by (metis fst_conv snd_conv)
  then obtain es' where "trace (snd (run_state (f a) w1)) = trace w1 @ es'"
    and "Q (fst (run_state (f a) w1)) (es @ es')"
    unfolding ensures_def by blast
  with m es have "trace (snd (run_state (m \<bind> f) w)) = trace w @ (es @ es')
      \<and> Q (fst (run_state (m \<bind> f) w)) (es @ es')"
    by simp
  then show "\<exists>es. trace (snd (run_state (m \<bind> f) w)) = trace w @ es
      \<and> Q (fst (run_state (m \<bind> f) w)) es" by blast
qed

lemma ensures_observe [emits]: "(\<And>a. Q a []) \<Longrightarrow> ensures (observe f) Q"
  by (auto simp: ensures_def split: prod.splits)

lemma ensures_emit [emits]: "Q () [e] \<Longrightarrow> ensures (emit e) Q"
  by (simp add: ensures_def)

lemma ensures_extcall [emits]: "(\<And>a. Q a [e]) \<Longrightarrow> ensures (extcall e f) Q"
  by (auto simp: ensures_def split: prod.splits)

lemma ensures_if [emits]:
  "(b \<Longrightarrow> ensures m Q) \<Longrightarrow> (\<not> b \<Longrightarrow> ensures n Q) \<Longrightarrow> ensures (if b then m else n) Q"
  by simp

lemma ensures_case_option [emits]:
  "(x = None \<Longrightarrow> ensures m Q) \<Longrightarrow> (\<And>a. x = Some a \<Longrightarrow> ensures (f a) Q)
   \<Longrightarrow> ensures (case x of None \<Rightarrow> m | Some a \<Rightarrow> f a) Q"
  by (cases x) auto

lemma ensures_case_sum [emits]:
  "(\<And>e. x = Inl e \<Longrightarrow> ensures (f e) Q) \<Longrightarrow> (\<And>a. x = Inr a \<Longrightarrow> ensures (g a) Q)
   \<Longrightarrow> ensures (case x of Inl e \<Rightarrow> f e | Inr a \<Rightarrow> g a) Q"
  by (cases x) auto

lemma ensures_case_prod [emits]:
  "(\<And>a b. x = (a, b) \<Longrightarrow> ensures (f a b) Q) \<Longrightarrow> ensures (case x of (a, b) \<Rightarrow> f a b) Q"
  by (cases x) auto

lemma ensures_weaken:
  "ensures m P \<Longrightarrow> (\<And>a es. P a es \<Longrightarrow> Q a es) \<Longrightarrow> ensures m Q"
  unfolding ensures_def by metis

lemma ensuresD:
  assumes "ensures m Q" and "run_state m w = (a, w')"
  shows "\<exists>es. trace w' = trace w @ es \<and> Q a es"
  using assms unfolding ensures_def by (metis fst_conv snd_conv)

lemma ensures_conj:
  assumes "ensures m P" and "ensures m Q"
  shows "ensures m (\<lambda>a es. P a es \<and> Q a es)"
  using assms unfolding ensures_def by (metis same_append_eq)

text \<open>The facade calls: one effect each, any answer.\<close>

lemma facade_emits [emits]:
  "(\<And>r. Q1 r [EPing]) \<Longrightarrow> ensures (Ping E) Q1"
  "(\<And>r. Q2 r [EContainerList all lbl]) \<Longrightarrow> ensures (ContainerList E all lbl) Q2"
  "(\<And>r. Q3 r [EContainerInspect i]) \<Longrightarrow> ensures (ContainerInspect E i) Q3"
  "(\<And>r. Q4 r [EImagePull ref]) \<Longrightarrow> ensures (ImagePull E ref) Q4"
  "(\<And>r. Q5 r [EImageInspect ref]) \<Longrightarrow> ensures (ImageInspect E ref) Q5"
  "(\<And>r. Q6 r [EImageTag src dst]) \<Longrightarrow> ensures (ImageTag E src dst) Q6"
  "(\<And>r. Q7 r [EImageList ref]) \<Longrightarrow> ensures (ImageList E ref) Q7"
  "(\<And>r. Q8 r [EContainerCreate opts]) \<Longrightarrow> ensures (ContainerCreate E opts) Q8"
  "(\<And>r. Q9 r [EContainerRemove i]) \<Longrightarrow> ensures (ContainerRemove E i) Q9"
  "(\<And>r. Q10 r [EContainerStart i]) \<Longrightarrow> ensures (ContainerStart E i) Q10"
  "(\<And>r. Q11 r [EContainerStop i t]) \<Longrightarrow> ensures (ContainerStop E i t) Q11"
  "(\<And>r. Q12 r [ENetworkConnect net i eps]) \<Longrightarrow> ensures (NetworkConnect E net i eps) Q12"
  by (auto simp: facade_defs intro!: emits)

lemma send_emits [emits]: "Q () [] \<Longrightarrow> Q () [ESend u] \<Longrightarrow> ensures (send E u) Q"
  by (auto simp: send_def intro!: emits)

text \<open>
  An external operation that gives the same answer in every state of the world.
\<close>

definition answers :: "('w \<Rightarrow> 'a \<times> 'w) \<Rightarrow> 'a \<Rightarrow> bool" where
  "answers f a \<longleftrightarrow> (\<forall>x. fst (f x) = a)"

lemma observe_answers: "answers f a \<Longrightarrow> Q a [] \<Longrightarrow> ensures (observe f) Q"
  by (auto simp: answers_def ensures_def split: prod.splits) (metis fst_conv)

lemma extcall_answers: "answers f a \<Longrightarrow> Q a [e] \<Longrightarrow> ensures (extcall e f) Q"
  by (auto simp: answers_def ensures_def split: prod.splits) (metis fst_conv)

text \<open>A call answered what the outside answered in some state.\<close>

lemma extcall_reported: "(\<And>x a y. f x = (a, y) \<Longrightarrow> Q a [e]) \<Longrightarrow> ensures (extcall e f) Q"
  by (auto simp: ensures_def split: prod.splits)

lemma ContainerList_answers:
  "answers (sdk_ContainerList E all lbl) (Inr cs) \<Longrightarrow> Q (Inr cs) [EContainerList all lbl]
   \<Longrightarrow> ensures (ContainerList E all lbl) Q"
  unfolding ContainerList_def
  by (rule ensures_bind, erule extcall_answers, rule ensures_return) simp

lemma ContainerInspect_answers:
  "answers (sdk_ContainerInspect E i) (Inr insp) \<Longrightarrow> Q (Inr insp) [EContainerInspect i]
   \<Longrightarrow> ensures (ContainerInspect E i) Q"
  unfolding ContainerInspect_def
  by (rule ensures_bind, erule extcall_answers, rule ensures_return) simp

definition fair_range :: "'w Env \<Rightarrow> bool" where
  "fair_range E \<longleftrightarrow> (\<forall>ns x. mset (fst (range_nets E ns x)) = mset ns)"

lemma range_networks_emits:
  "fair_range E \<Longrightarrow> (\<And>ms. mset ms = mset ns \<Longrightarrow> Q ms []) \<Longrightarrow> ensures (range_networks E ns) Q"
  by (auto simp: fair_range_def range_networks_def ensures_def split: prod.splits) (metis fst_conv)

definition fair_rows :: "'w Env \<Rightarrow> AppState \<Rightarrow> bool" where
  "fair_rows E st \<longleftrightarrow> (\<forall>x svc c.
     (svc, c) \<in> set (fst (range_rows E st x)) \<longleftrightarrow> Containers st svc = Some c)"

definition sorts :: "'w Env \<Rightarrow> bool" where
  "sorts E \<longleftrightarrow> (\<forall>xs x. mset (fst (sort_newest E xs x)) = mset xs \<and>
     sorted_wrt (\<lambda>a b. snd a \<ge> snd b) (fst (sort_newest E xs x)))"

text \<open>
  Every effect of the computation satisfies \<open>P\<close>: the special case that composes
  without following results.
\<close>

definition only :: "(effect \<Rightarrow> bool) \<Rightarrow> ('w, 'a) io \<Rightarrow> bool" where
  "only P m \<longleftrightarrow> ensures m (\<lambda>_ es. \<forall>e \<in> set es. P e)"

lemma only_return [allows]: "only P (ret a)"
  unfolding only_def by (intro emits) simp

lemma only_bind [allows]:
  assumes "only P m" and "\<And>a. only P (f a)"
  shows "only P (m \<bind> f)"
  unfolding only_def
proof (rule ensures_bind, rule ensures_weaken [OF assms(1) [unfolded only_def]])
  fix a es
  assume es: "\<forall>e \<in> set es. P e"
  show "ensures (f a) (\<lambda>b es'. \<forall>e \<in> set (es @ es'). P e)"
    by (rule ensures_weaken [OF assms(2) [of a, unfolded only_def]]) (use es in auto)
qed

lemma only_primitives [allows]:
  "only P (observe f)"
  "P e \<Longrightarrow> only P (emit e)"
  "P e \<Longrightarrow> only P (extcall e f)"
  unfolding only_def by (intro emits; simp)+

lemma only_cases [allows]:
  "(b \<Longrightarrow> only P m) \<Longrightarrow> (\<not> b \<Longrightarrow> only P n) \<Longrightarrow> only P (if b then m else n)"
  "only P m \<Longrightarrow> (\<And>a. only P (g a)) \<Longrightarrow> only P (case x of None \<Rightarrow> m | Some a \<Rightarrow> g a)"
  "(\<And>e. only P (h e)) \<Longrightarrow> (\<And>a. only P (k a)) \<Longrightarrow> only P (case y of Inl e \<Rightarrow> h e | Inr a \<Rightarrow> k a)"
  "(\<And>a b. only P (l a b)) \<Longrightarrow> only P (case z of (a, b) \<Rightarrow> l a b)"
  "only P m \<Longrightarrow> (\<And>a as. only P (c a as)) \<Longrightarrow> only P (case xs of [] \<Rightarrow> m | a # as \<Rightarrow> c a as)"
  by (cases x; cases y; cases z; cases xs; simp)+

lemma only_facade [allows]:
  "P EPing \<Longrightarrow> only P (Ping E)"
  "P (EContainerList all lbl) \<Longrightarrow> only P (ContainerList E all lbl)"
  "P (EContainerInspect i) \<Longrightarrow> only P (ContainerInspect E i)"
  "P (EImagePull ref) \<Longrightarrow> only P (ImagePull E ref)"
  "P (EImageInspect ref) \<Longrightarrow> only P (ImageInspect E ref)"
  "P (EImageTag src dst) \<Longrightarrow> only P (ImageTag E src dst)"
  "P (EImageList ref) \<Longrightarrow> only P (ImageList E ref)"
  "P (EContainerCreate opts) \<Longrightarrow> only P (ContainerCreate E opts)"
  "P (EContainerRemove i) \<Longrightarrow> only P (ContainerRemove E i)"
  "P (EContainerStart i) \<Longrightarrow> only P (ContainerStart E i)"
  "P (EContainerStop i t) \<Longrightarrow> only P (ContainerStop E i t)"
  "P (ENetworkConnect net i eps) \<Longrightarrow> only P (NetworkConnect E net i eps)"
  "P (ESend u) \<Longrightarrow> only P (send E u)"
  "only P (range_networks E ns)"
  unfolding facade_defs send_def range_networks_def by (intro allows; simp)+

lemma only_mono: "only P m \<Longrightarrow> (\<And>e. P e \<Longrightarrow> P' e) \<Longrightarrow> only P' m"
  unfolding only_def by (erule ensures_weaken) blast

lemma onlyD:
  assumes "only P m" and "run_state m w = (a, w')"
  shows "\<exists>es. trace w' = trace w @ es \<and> (\<forall>e \<in> set es. P e)"
  using ensuresD [OF assms(1) [unfolded only_def] assms(2)] .

text \<open>The messages that went into the channel, in order.\<close>

fun sends :: "effect list \<Rightarrow> StateUpdate list" where
  "sends [] = []"
| "sends (ESend u # es) = u # sends es"
| "sends (_ # es) = sends es"

lemma sends_append [simp]: "sends (xs @ ys) = sends xs @ sends ys"
  by (induction xs rule: sends.induct) auto

lemma set_sends: "set (sends es) = {u. ESend u \<in> set es}"
  by (induction es rule: sends.induct) auto

text \<open>A context that is never cancelled: every send goes into the channel.\<close>

definition ctx_live :: "'w Env \<Rightarrow> bool" where
  "ctx_live E \<longleftrightarrow> (\<forall>x. \<not> fst (ctx_done E x))"

lemma send_live: "ctx_live E \<Longrightarrow> Q () [ESend u] \<Longrightarrow> ensures (send E u) Q"
  by (auto simp: ctx_live_def ensures_def send_def split: prod.splits) (metis fst_conv)+

end
