(* ===== verification/Recreate.thy ===== *)
theory Recreate
  imports Effects
begin

text \<open>
  Package \<open>internal/recreate\<close>: the translation of a daemon inspect response into
  the inputs of a create call (translate.go) and the socket-only recreate
  sequence built on it (recreate.go).
\<close>

section \<open>Translation (translate.go)\<close>

definition imageLabelNamespace :: string where
  "imageLabelNamespace = ''org.opencontainers.image.''"

definition shortIDLen :: nat where
  "shortIDLen = 12"

definition RestartPolicyDisabled :: string where
  "RestartPolicyDisabled = ''no''"

definition zero_config :: ContainerConfig where
  "zero_config =
     \<lparr>cfg_Image = '''', cfg_User = '''', cfg_Cmd = [], cfg_Labels = Map.empty, cfg_rest = ''''\<rparr>"

definition zero_host_config :: HostConfig where
  "zero_host_config =
     \<lparr>hc_RestartPolicyName = '''', hc_NetworkMode = '''', hc_Binds = [], hc_AutoRemove = False,
      hc_rest = ''''\<rparr>"

definition zero_endpoint :: EndpointSettings where
  "zero_endpoint =
     \<lparr>ep_Aliases = [], ep_IPAMConfig = None, ep_IPAddress = None, ep_rest = ''''\<rparr>"

definition translateConfig :: "InspectResponse \<Rightarrow> ContainerConfig" where
  "translateConfig insp = (case in_Config insp of None \<Rightarrow> zero_config | Some c \<Rightarrow> c)"

definition translateHostConfig :: "InspectResponse \<Rightarrow> HostConfig" where
  "translateHostConfig insp =
     (case in_HostConfig insp of
        None \<Rightarrow> zero_host_config\<lparr>hc_RestartPolicyName := RestartPolicyDisabled\<rparr>
      | Some h \<Rightarrow>
          if hc_RestartPolicyName h = '''' then h\<lparr>hc_RestartPolicyName := RestartPolicyDisabled\<rparr>
          else h)"

definition scrubEndpoint :: "EndpointSettings option \<Rightarrow> string \<Rightarrow> EndpointSettings" where
  "scrubEndpoint ep shortID =
     (case ep of
        None \<Rightarrow> zero_endpoint
      | Some e \<Rightarrow>
          (let out = (if ep_Aliases e \<noteq> [] \<and> shortID \<noteq> ''''
                      then e\<lparr>ep_Aliases := filter (\<lambda>a. a \<noteq> shortID) (ep_Aliases e)\<rparr> else e)
           in if ep_IPAMConfig e = None then out\<lparr>ep_IPAddress := None\<rparr> else out))"

fun split_networks ::
  "string \<Rightarrow> bool \<Rightarrow> networks \<Rightarrow>
   (string \<times> EndpointSettings) list \<times> (string \<times> EndpointSettings) list" where
  "split_networks sid first [] = ([], [])"
| "split_networks sid first ((name, ep) # ns) =
     (let scrubbed = scrubEndpoint ep sid
      in if first then (case split_networks sid False ns of (out, ex) \<Rightarrow> ((name, scrubbed) # out, ex))
         else (case split_networks sid False ns of (out, ex) \<Rightarrow> (out, (name, scrubbed) # ex)))"

definition translateNetworks ::
  "InspectResponse \<Rightarrow> (string \<times> EndpointSettings) list \<times> (string \<times> EndpointSettings) list" where
  "translateNetworks insp =
     (case in_Networks insp of
        None \<Rightarrow> ([], [])
      | Some ns \<Rightarrow>
          (let sid = (if length (in_ID insp) \<ge> shortIDLen then take shortIDLen (in_ID insp) else '''')
           in split_networks sid True ns))"

definition Translate ::
  "InspectResponse \<Rightarrow> ContainerConfig \<times> HostConfig \<times> (string \<times> EndpointSettings) list
     \<times> (string \<times> EndpointSettings) list" where
  "Translate insp =
     (let (netCfg, extras) = translateNetworks insp
      in (translateConfig insp, translateHostConfig insp, netCfg, extras))"

definition RefreshImageLabels :: "ContainerConfig \<Rightarrow> labels \<Rightarrow> ContainerConfig" where
  "RefreshImageLabels cfg imageLabels =
     cfg\<lparr>cfg_Labels := (\<lambda>k. if HasPrefix k imageLabelNamespace \<and> imageLabels k \<noteq> None
                           then imageLabels k else cfg_Labels cfg k)\<rparr>"

section \<open>The recreate sequence (recreate.go)\<close>

definition composeServiceLabel :: string where
  "composeServiceLabel = ''com.docker.compose.service''"

definition stopGraceSeconds :: int where
  "stopGraceSeconds = 10"

text \<open>The most recently created container, the first of them on a tie.\<close>

fun newest_of :: "ContainerSummary \<Rightarrow> ContainerSummary list \<Rightarrow> ContainerSummary" where
  "newest_of n [] = n"
| "newest_of n (c # cs) = newest_of (if cs_Created c > cs_Created n then c else n) cs"

definition service_filter :: "string \<Rightarrow> string" where
  "service_filter svc = composeServiceLabel @ ''='' @ svc"

fun connect_extras ::
  "'w Env \<Rightarrow> string \<Rightarrow> (string \<times> EndpointSettings) list \<Rightarrow> ('w, go_error option) io" where
  "connect_extras E cid [] = ret None"
| "connect_extras E cid ((net, eps) # ns) = do {
     r \<leftarrow> NetworkConnect E net cid eps;
     case r of
       Some e \<Rightarrow> do {
         _ \<leftarrow> ContainerRemove E cid;
         ret (Some (wrap (''recreate.Service: connect '' @ cid @ '' to '' @ net @ '': '') e)) }
     | None \<Rightarrow> connect_extras E cid ns }"

definition refreshed_config ::
  "'w Env \<Rightarrow> InspectResponse \<Rightarrow> ContainerConfig \<Rightarrow> ('w, ContainerConfig) io" where
  "refreshed_config E insp cfg =
     (case in_Config insp of
        None \<Rightarrow> ret cfg
      | Some c \<Rightarrow>
          if cfg_Image c = '''' then ret cfg
          else do {
            r \<leftarrow> ImageInspect E (cfg_Image c);
            case r of
              Inl _ \<Rightarrow> ret cfg
            | Inr img \<Rightarrow>
                ret (case ii_ConfigLabels img of None \<Rightarrow> cfg | Some l \<Rightarrow> RefreshImageLabels cfg l) })"

definition replace_container ::
  "'w Env \<Rightarrow> string \<Rightarrow> ContainerCreateOptions \<Rightarrow> (string \<times> EndpointSettings) list
   \<Rightarrow> ('w, string result) io" where
  "replace_container E oldID opts extraNets = do {
     r4 \<leftarrow> ContainerStop E oldID stopGraceSeconds;
     case r4 of
       Some e \<Rightarrow> ret (Inl (wrap (''recreate.Service: stop '' @ oldID @ '': '') e))
     | None \<Rightarrow> do {
         r5 \<leftarrow> ContainerRemove E oldID;
         case r5 of
           Some e \<Rightarrow> ret (Inl (wrap (''recreate.Service: remove '' @ oldID @ '': '') e))
         | None \<Rightarrow> do {
             r6 \<leftarrow> ContainerCreate E opts;
             case r6 of
               Inl e \<Rightarrow>
                 ret (Inl (wrap (''recreate.Service: create '' @ cc_Name opts @ '' (old GONE): '') e))
             | Inr newID \<Rightarrow> do {
                 nets \<leftarrow> range_networks E extraNets;
                 r7 \<leftarrow> connect_extras E newID nets;
                 case r7 of
                   Some e \<Rightarrow> ret (Inl e)
                 | None \<Rightarrow> do {
                     r8 \<leftarrow> ContainerStart E newID;
                     case r8 of
                       Some e \<Rightarrow> do {
                         _ \<leftarrow> ContainerRemove E newID;
                         ret (Inl (wrap (''recreate.Service: start '' @ newID @ '': '') e)) }
                     | None \<Rightarrow> ret (Inr newID) } } } } }"

definition recreate_Service :: "'w Env \<Rightarrow> string \<Rightarrow> ('w, string result) io" where
  "recreate_Service E svcName = do {
     r1 \<leftarrow> ContainerList E True (service_filter svcName);
     case r1 of
       Inl e \<Rightarrow> ret (Inl (wrap (''recreate.Service: list '' @ quote svcName @ '': '') e))
     | Inr [] \<Rightarrow>
         ret (Inl (errors_New (''recreate.Service: no container for service '' @ quote svcName)))
     | Inr (c # cs) \<Rightarrow> do {
         let oldID = cs_ID (newest_of c cs);
         r2 \<leftarrow> ContainerInspect E oldID;
         case r2 of
           Inl e \<Rightarrow> ret (Inl (wrap (''recreate.Service: inspect '' @ oldID @ '': '') e))
         | Inr insp \<Rightarrow> do {
             let (cfg0, hostCfg, netCfg, extraNets) = Translate insp;
             cfg \<leftarrow> refreshed_config E insp cfg0;
             let name = TrimPrefix (in_Name insp) ''/'';
             replace_container E oldID
               \<lparr>cc_Config = cfg, cc_HostConfig = hostCfg, cc_Endpoints = netCfg, cc_Name = name\<rparr>
               extraNets } } }"

section \<open>Lemmas\<close>

lemma RefreshImageLabels_other [simp]:
  "\<not> HasPrefix k imageLabelNamespace \<Longrightarrow>
     cfg_Labels (RefreshImageLabels cfg l) k = cfg_Labels cfg k"
  by (simp add: RefreshImageLabels_def)

lemma RefreshImageLabels_frame [simp]:
  "cfg_Image (RefreshImageLabels cfg l) = cfg_Image cfg"
  "cfg_User (RefreshImageLabels cfg l) = cfg_User cfg"
  "cfg_Cmd (RefreshImageLabels cfg l) = cfg_Cmd cfg"
  "cfg_rest (RefreshImageLabels cfg l) = cfg_rest cfg"
  by (simp_all add: RefreshImageLabels_def)

lemma newest_of_in: "newest_of n cs \<in> set (n # cs)"
proof (induction cs arbitrary: n)
  case (Cons d ds)
  let ?m = "if cs_Created d > cs_Created n then d else n"
  have "newest_of n (d # ds) \<in> set (?m # ds)" using Cons.IH [of ?m] by simp
  moreover have "set (?m # ds) \<subseteq> set (n # d # ds)" by auto
  ultimately show ?case by blast
qed simp

lemma newest_of_max: "c \<in> set (n # cs) \<Longrightarrow> cs_Created c \<le> cs_Created (newest_of n cs)"
proof (induction cs arbitrary: n c)
  case Nil
  then show ?case by simp
next
  case (Cons d ds)
  let ?m = "if cs_Created d > cs_Created n then d else n"
  have "cs_Created n \<le> cs_Created ?m \<and> cs_Created d \<le> cs_Created ?m" by auto
  moreover have "cs_Created ?m \<le> cs_Created (newest_of ?m ds)" by (rule Cons.IH) simp
  ultimately show ?case using Cons.prems Cons.IH [of c ?m] by force
qed

lemma newest_of_first:
  "\<exists>xs ys. n # cs = xs @ newest_of n cs # ys \<and>
     (\<forall>x \<in> set xs. cs_Created x < cs_Created (newest_of n cs))"
proof (induction cs arbitrary: n)
  case Nil
  show ?case by (intro exI [of _ "[]"]) simp
next
  case (Cons d ds)
  show ?case
  proof (cases "cs_Created d > cs_Created n")
    case True
    from Cons.IH [of d] obtain xs ys where "d # ds = xs @ newest_of d ds # ys"
      and "\<forall>x \<in> set xs. cs_Created x < cs_Created (newest_of d ds)" by blast
    moreover have "cs_Created n < cs_Created (newest_of d ds)"
      using True newest_of_max [of d d ds] by simp
    ultimately have "n # d # ds = (n # xs) @ newest_of d ds # ys"
      and "\<forall>x \<in> set (n # xs). cs_Created x < cs_Created (newest_of d ds)" by auto
    with True show ?thesis by (metis newest_of.simps(2))
  next
    case False
    from Cons.IH [of n] obtain xs ys where eq: "n # ds = xs @ newest_of n ds # ys"
      and lt: "\<forall>x \<in> set xs. cs_Created x < cs_Created (newest_of n ds)" by blast
    show ?thesis
    proof (cases xs)
      case Nil
      with eq have "newest_of n ds = n" by (metis append_Nil list.inject)
      then have "n # d # ds = [] @ newest_of n ds # d # ds" by simp
      with False show ?thesis by (metis empty_iff empty_set newest_of.simps(2))
    next
      case (Cons x xs')
      with eq have "n # d # ds = (n # d # xs') @ newest_of n ds # ys"
        by (metis append_Cons list.inject)
      moreover have "cs_Created n < cs_Created (newest_of n ds)" using lt Cons eq by auto
      with False lt Cons have "\<forall>x \<in> set (n # d # xs'). cs_Created x < cs_Created (newest_of n ds)"
        by auto
      ultimately show ?thesis using False by (metis newest_of.simps(2))
    qed
  qed
qed

lemma split_networks_False:
  "split_networks sid False ns = ([], map (\<lambda>(n, e). (n, scrubEndpoint e sid)) ns)"
  by (induction ns) auto

lemma split_networks_True:
  "split_networks sid True ((n, e) # ns) =
     ([(n, scrubEndpoint e sid)], map (\<lambda>(n, e). (n, scrubEndpoint e sid)) ns)"
  by (simp add: split_networks_False)

lemma scrubEndpoint_alias: "sid \<noteq> '''' \<Longrightarrow> sid \<notin> set (ep_Aliases (scrubEndpoint ep sid))"
  by (auto simp: scrubEndpoint_def zero_endpoint_def Let_def split: option.splits)

lemma scrubEndpoint_ip:
  "ep_IPAMConfig (scrubEndpoint ep sid) = None \<Longrightarrow> ep_IPAddress (scrubEndpoint ep sid) = None"
  by (auto simp: scrubEndpoint_def zero_endpoint_def Let_def split: option.splits if_splits)

lemma refreshed_config_emits:
  assumes "\<And>c es. es = [] \<or> (\<exists>ref. es = [EImageInspect ref]) \<Longrightarrow>
      (\<And>k. \<not> HasPrefix k imageLabelNamespace \<Longrightarrow> cfg_Labels c k = cfg_Labels cfg k) \<Longrightarrow>
      c\<lparr>cfg_Labels := cfg_Labels cfg\<rparr> = cfg \<Longrightarrow> Q c es"
  shows "ensures (refreshed_config E insp cfg) Q"
  unfolding refreshed_config_def
  by (auto intro!: emits assms simp: RefreshImageLabels_def split: option.splits)

definition connects :: "string \<Rightarrow> (string \<times> EndpointSettings) list \<Rightarrow> effect list" where
  "connects cid ns = map (\<lambda>(net, eps). ENetworkConnect net cid eps) ns"

lemma connect_extras_emits:
  assumes ok: "Q None (connects cid ns)"
    and bad: "\<And>e ms rs. ns = ms @ rs \<Longrightarrow> Q (Some e) (connects cid ms @ [EContainerRemove cid])"
  shows "ensures (connect_extras E cid ns) Q"
  using assms
proof (induction ns arbitrary: Q)
  case Nil
  then show ?case by (auto intro!: emits simp: connects_def)
next
  case (Cons n ns)
  obtain net eps where n: "n = (net, eps)" by force
  have rest: "ensures (connect_extras E cid ns) (\<lambda>b es'. Q b ([ENetworkConnect net cid eps] @ es'))"
  proof (rule Cons.IH)
    show "Q None ([ENetworkConnect net cid eps] @ connects cid ns)"
      using Cons.prems(1) by (simp add: connects_def n)
    show "Q (Some e) ([ENetworkConnect net cid eps] @ connects cid ms @ [EContainerRemove cid])"
      if "ns = ms @ rs" for e ms rs
      using Cons.prems(2) [of "n # ms" rs e] that by (simp add: connects_def n)
  qed
  have "Q (Some e) [ENetworkConnect net cid eps, EContainerRemove cid]" for e
    using Cons.prems(2) [of "[n]" ns e] by (simp add: connects_def n)
  then show ?case
    unfolding n connect_extras.simps by (intro emits rest) simp
qed

text \<open>What the replacement of a container leaves in the trace.\<close>

definition replaced ::
  "string \<Rightarrow> ContainerCreateOptions \<Rightarrow> (string \<times> EndpointSettings) list \<Rightarrow> string \<Rightarrow> effect list
   \<Rightarrow> bool" where
  "replaced old opts extras new es \<longleftrightarrow>
     (\<exists>nets. mset nets = mset extras \<and>
        es = [EContainerStop old stopGraceSeconds, EContainerRemove old, EContainerCreate opts]
             @ connects new nets @ [EContainerStart new])"

definition replace_failed ::
  "string \<Rightarrow> ContainerCreateOptions \<Rightarrow> go_error \<Rightarrow> effect list \<Rightarrow> bool" where
  "replace_failed old opts e es \<longleftrightarrow>
     es = [EContainerStop old stopGraceSeconds]
   \<or> es = [EContainerStop old stopGraceSeconds, EContainerRemove old]
   \<or> es = [EContainerStop old stopGraceSeconds, EContainerRemove old, EContainerCreate opts]
       \<and> Contains (err_text e) ''old GONE''
   \<or> (\<exists>new nets tl. (tl = [] \<or> tl = [EContainerStart new]) \<and>
        es = [EContainerStop old stopGraceSeconds, EContainerRemove old, EContainerCreate opts]
             @ connects new nets @ tl @ [EContainerRemove new])"

lemma wrap_old_GONE: "Contains (err_text (wrap (a @ n @ '' (old GONE): '') e)) ''old GONE''"
proof -
  have "err_text (wrap (a @ n @ '' (old GONE): '') e) =
      (a @ n @ '' ('') @ ''old GONE'' @ (''): '' @ err_text e)" by simp
  then show ?thesis by (metis Contains_append)
qed

lemma replaced_shape:
  "mset nets = mset extras \<Longrightarrow>
     replaced old opts extras new
       ([EContainerStop old stopGraceSeconds] @ [EContainerRemove old] @ [EContainerCreate opts] @ []
        @ connects new nets @ [EContainerStart new] @ [])"
  by (auto simp: replaced_def)

lemma replace_failed_shapes:
  "replace_failed old opts e ([EContainerStop old stopGraceSeconds] @ [])"
  "replace_failed old opts e ([EContainerStop old stopGraceSeconds] @ [EContainerRemove old] @ [])"
  "replace_failed old opts (wrap (a @ n @ '' (old GONE): '') e)
     ([EContainerStop old stopGraceSeconds] @ [EContainerRemove old] @ [EContainerCreate opts] @ [])"
  "replace_failed old opts e
     ([EContainerStop old stopGraceSeconds] @ [EContainerRemove old] @ [EContainerCreate opts] @ []
      @ (connects new nets @ [EContainerRemove new]) @ [])"
  "replace_failed old opts e
     ([EContainerStop old stopGraceSeconds] @ [EContainerRemove old] @ [EContainerCreate opts] @ []
      @ connects new nets @ [EContainerStart new] @ [EContainerRemove new] @ [])"
  using wrap_old_GONE by (auto simp: replace_failed_def)

lemma replace_container_emits:
  assumes "fair_range E"
    and ok: "\<And>new es. replaced old opts extras new es \<Longrightarrow> Q (Inr new) es"
    and bad: "\<And>e es. replace_failed old opts e es \<Longrightarrow> Q (Inl e) es"
  shows "ensures (replace_container E old opts extras) Q"
  unfolding replace_container_def
  apply (intro emits connect_extras_emits range_networks_emits [OF assms(1)])
  apply (rule bad, rule replace_failed_shapes | rule ok, erule replaced_shape | simp only: option.distinct)+
  done

text \<open>The whole sequence, for any answers of the daemon.\<close>

definition recreate_prefix :: "string \<Rightarrow> string \<Rightarrow> effect list \<Rightarrow> bool" where
  "recreate_prefix svc old es \<longleftrightarrow>
     (\<exists>img. (img = [] \<or> (\<exists>ref. img = [EImageInspect ref])) \<and>
        es = [EContainerList True (service_filter svc), EContainerInspect old] @ img)"

lemma recreate_prefixI:
  "es = [] \<or> (\<exists>ref. es = [EImageInspect ref]) \<Longrightarrow>
     recreate_prefix svc old ([EContainerList True (service_filter svc)] @ [EContainerInspect old] @ es)"
  by (auto simp: recreate_prefix_def)

lemma recreate_emits:
  assumes fair: "fair_range E"
    and untouched: "\<And>e es. set es \<subseteq> range EContainerInspect \<union> {EContainerList True (service_filter svc)}
        \<Longrightarrow> Q (Inl e) es"
    and bad: "\<And>e old opts pre es. recreate_prefix svc old pre \<Longrightarrow> replace_failed old opts e es
        \<Longrightarrow> Q (Inl e) (pre @ es)"
    and ok: "\<And>old opts extras new pre es. recreate_prefix svc old pre
        \<Longrightarrow> replaced old opts extras new es \<Longrightarrow> Q (Inr new) (pre @ es)"
  shows "ensures (recreate_Service E svc) Q"
  unfolding recreate_Service_def Let_def
  apply (intro emits refreshed_config_emits replace_container_emits [OF fair])
  subgoal by (rule untouched) auto
  subgoal for r cs
    apply (cases cs)
    subgoal by (auto intro!: emits untouched)
    subgoal for c cs'
      apply (simp only: list.case)
      apply (intro emits refreshed_config_emits replace_container_emits [OF fair])
      subgoal by (rule untouched) auto
      subgoal using ok recreate_prefixI by (metis append.assoc)
      subgoal using bad recreate_prefixI by (metis append.assoc)
      done
    done
  done

text \<open>
  What the new container is to be made from, without reference to the translation: the
  labels of the old configuration, with those of the OCI image namespace that the image
  now behind the reference has; and the endpoints of the old networks without the short
  id of the old container and, where no address was configured, without its address.
\<close>

definition carried_labels :: "labels \<Rightarrow> ImageInspectResponse result \<Rightarrow> labels" where
  "carried_labels old ir k =
     (case ir of
        Inl _ \<Rightarrow> old k
      | Inr img \<Rightarrow>
          (case ii_ConfigLabels img of
             None \<Rightarrow> old k
           | Some fresh \<Rightarrow>
               if (\<exists>t. k = ''org.opencontainers.image.'' @ t) \<and> k \<in> dom fresh then fresh k else old k))"

definition carried_endpoint :: "string \<Rightarrow> EndpointSettings option \<Rightarrow> EndpointSettings" where
  "carried_endpoint oldID ep =
     (case ep of
        None \<Rightarrow> \<lparr>ep_Aliases = [], ep_IPAMConfig = None, ep_IPAddress = None, ep_rest = ''''\<rparr>
      | Some e \<Rightarrow>
          \<lparr>ep_Aliases = filter (\<lambda>a. length oldID < 12 \<or> a \<noteq> take 12 oldID) (ep_Aliases e),
           ep_IPAMConfig = ep_IPAMConfig e,
           ep_IPAddress = (if ep_IPAMConfig e = None then None else ep_IPAddress e),
           ep_rest = ep_rest e\<rparr>)"

definition carried_networks :: "InspectResponse \<Rightarrow> (string \<times> EndpointSettings) list" where
  "carried_networks insp =
     (case in_Networks insp of None \<Rightarrow> []
      | Some ns \<Rightarrow> map (\<lambda>(name, ep). (name, carried_endpoint (in_ID insp) ep)) ns)"

lemma scrub_carried:
  "scrubEndpoint ep (if length oldID \<ge> 12 then take 12 oldID else '''') = carried_endpoint oldID ep"
proof (cases "12 \<le> length oldID")
  case True
  then have "take 12 oldID \<noteq> ''''" by auto
  with True show ?thesis
    by (auto simp: scrubEndpoint_def carried_endpoint_def zero_endpoint_def Let_def split: option.split)
next
  case False
  then show ?thesis
    by (auto simp: scrubEndpoint_def carried_endpoint_def zero_endpoint_def Let_def split: option.split)
qed

lemma translateNetworks_carried:
  "translateNetworks insp = (take 1 (carried_networks insp), drop 1 (carried_networks insp))"
proof (cases "in_Networks insp")
  case (Some ns)
  let ?sid = "if length (in_ID insp) \<ge> 12 then take 12 (in_ID insp) else ''''"
  have "split_networks ?sid True ns =
      (take 1 (map (\<lambda>(n, e). (n, scrubEndpoint e ?sid)) ns), drop 1 (map (\<lambda>(n, e). (n, scrubEndpoint e ?sid)) ns))"
    by (cases ns) (auto simp: split_networks_False)
  then show ?thesis
    unfolding scrub_carried by (simp only: translateNetworks_def carried_networks_def shortIDLen_def Some option.case Let_def)
qed (simp add: translateNetworks_def carried_networks_def)

lemma newest_unique:
  assumes "n # cs = xs @ old # ys" and "\<forall>x \<in> set xs. cs_Created x < cs_Created old"
    and "\<forall>y \<in> set ys. cs_Created y \<le> cs_Created old"
  shows "newest_of n cs = old"
proof -
  let ?m = "newest_of n cs"
  obtain xs' ys' where m: "n # cs = xs' @ ?m # ys'" "\<forall>x \<in> set xs'. cs_Created x < cs_Created ?m"
    using newest_of_first by blast
  have "old \<in> set (n # cs)" unfolding assms(1) by simp
  then have ge: "cs_Created old \<le> cs_Created ?m" by (rule newest_of_max)
  have "?m \<in> set (xs @ old # ys)" unfolding assms(1) [symmetric] by (rule newest_of_in)
  then have nin: "?m \<notin> set xs" and old: "old \<notin> set xs'"
    and "cs_Created ?m = cs_Created old" using assms(2,3) m(2) ge by force+
  have "xs @ old # ys = xs' @ ?m # ys'" using assms(1) m(1) by simp
  then show ?thesis using nin old
    by (auto simp: append_eq_append_conv2 append_eq_Cons_conv Cons_eq_append_conv)
qed

lemma refreshed_config_known:
  assumes "in_Config insp = Some c" and "answers (sdk_ImageInspect E (cfg_Image c)) ir"
    and none: "cfg_Image c = '''' \<Longrightarrow> Q c []"
    and some: "cfg_Image c \<noteq> '''' \<Longrightarrow>
      Q (c\<lparr>cfg_Labels := carried_labels (cfg_Labels c) ir\<rparr>) [EImageInspect (cfg_Image c)]"
  shows "ensures (refreshed_config E insp c) Q"
proof (cases "cfg_Image c = ''''")
  case True
  with assms(1) none show ?thesis by (simp add: refreshed_config_def ensures_return)
next
  case False
  have "c\<lparr>cfg_Labels := carried_labels (cfg_Labels c) ir\<rparr> =
      (case ir of Inl _ \<Rightarrow> c | Inr img \<Rightarrow> case ii_ConfigLabels img of None \<Rightarrow> c | Some l \<Rightarrow> RefreshImageLabels c l)"
    by (cases ir) (auto simp: carried_labels_def RefreshImageLabels_def imageLabelNamespace_def HasPrefix_iff
        fun_eq_iff domIff split: option.splits intro!: ContainerConfig.equality)
  with some [OF False] False assms(1) show ?thesis
    unfolding refreshed_config_def ImageInspect_def
    by (auto intro!: ensures_bind extcall_answers [OF assms(2)] ensures_return split: sum.splits)
qed

lemma recreate_emits_known:
  assumes fair: "fair_range E"
    and list: "answers (sdk_ContainerList E True (service_filter svc)) (Inr (c # cs))"
    and insp: "answers (sdk_ContainerInspect E (cs_ID (newest_of c cs))) (Inr insp)"
    and conf: "in_Config insp = Some cfg" and image: "answers (sdk_ImageInspect E (cfg_Image cfg)) ir"
    and bad: "\<And>e es. Q (Inl e) es"
    and ok: "\<And>cfg' new img es.
        cfg' = (if cfg_Image cfg = '''' then cfg else cfg\<lparr>cfg_Labels := carried_labels (cfg_Labels cfg) ir\<rparr>) \<Longrightarrow>
        img = (if cfg_Image cfg = '''' then [] else [EImageInspect (cfg_Image cfg)]) \<Longrightarrow>
        replaced (cs_ID (newest_of c cs))
          \<lparr>cc_Config = cfg', cc_HostConfig = translateHostConfig insp,
           cc_Endpoints = fst (translateNetworks insp), cc_Name = TrimPrefix (in_Name insp) ''/''\<rparr>
          (snd (translateNetworks insp)) new es \<Longrightarrow>
        Q (Inr new) ([EContainerList True (service_filter svc), EContainerInspect (cs_ID (newest_of c cs))] @ img @ es)"
  shows "ensures (recreate_Service E svc) Q"
proof -
  have cfg: "translateConfig insp = cfg" by (simp add: translateConfig_def conf)
  show ?thesis
    unfolding recreate_Service_def Let_def Translate_def case_prod_beta
    apply (rule ensures_bind, rule ContainerList_answers [OF list])
    apply (simp only: sum.case list.case)
    apply (rule ensures_bind, rule ContainerInspect_answers [OF insp])
    apply (simp only: sum.case list.case fst_conv snd_conv cfg)
    apply (rule ensures_bind, rule refreshed_config_known [OF conf image])
    subgoal by (rule replace_container_emits [OF fair]) (auto intro: bad dest: ok [rotated 2])
    subgoal by (rule replace_container_emits [OF fair]) (auto intro: bad dest: ok [rotated 2])
    done
qed

section \<open>Properties\<close>

text \<open>
  C6. When \<open>recreate.Service\<close> succeeds, the daemon saw exactly this: the list and
  the inspect of the newest container of the service (the first of the list on a tie),
  the inspect of the image its configuration names, then stop, remove, create, one
  network connect per further network and start, in that order. The create call carries
  the whole configuration of the old container, its labels brought up to date with the
  image in the OCI image namespace and nowhere else; its host configuration, with the
  restart policy \<open>no\<close> for an absent one; its name; and its first network. Together with
  the connects, every network of the old container is attached, each endpoint as it was
  but for the short id of the old container and an address that was not configured.
\<close>

theorem recreate_success:
  assumes "fair_range E"
    and "answers (sdk_ContainerList E True (''com.docker.compose.service='' @ svc)) (Inr (xs @ old # ys))"
    and "\<forall>x \<in> set xs. cs_Created x < cs_Created old" and "\<forall>y \<in> set ys. cs_Created y \<le> cs_Created old"
    and "answers (sdk_ContainerInspect E (cs_ID old)) (Inr insp)"
    and "in_Config insp = Some cfg" and "in_HostConfig insp = Some host"
    and "answers (sdk_ImageInspect E (cfg_Image cfg)) ir"
    and "run_state (recreate_Service E svc) w = (Inr new, w')"
  shows "\<exists>nets. mset nets = mset (drop 1 (carried_networks insp)) \<and>
      trace w' = trace w
        @ [EContainerList True (''com.docker.compose.service='' @ svc), EContainerInspect (cs_ID old)]
        @ (if cfg_Image cfg = '''' then [] else [EImageInspect (cfg_Image cfg)])
        @ [EContainerStop (cs_ID old) 10, EContainerRemove (cs_ID old),
           EContainerCreate
             \<lparr>cc_Config = (if cfg_Image cfg = '''' then cfg
                           else cfg\<lparr>cfg_Labels := carried_labels (cfg_Labels cfg) ir\<rparr>),
              cc_HostConfig = host\<lparr>hc_RestartPolicyName :=
                (if hc_RestartPolicyName host = '''' then ''no'' else hc_RestartPolicyName host)\<rparr>,
              cc_Endpoints = take 1 (carried_networks insp), cc_Name = TrimPrefix (in_Name insp) ''/''\<rparr>]
        @ map (\<lambda>(net, eps). ENetworkConnect net new eps) nets @ [EContainerStart new]"
proof -
  obtain c cs where all: "xs @ old # ys = c # cs" by (cases "xs @ old # ys") auto
  have newest: "newest_of c cs = old" by (rule newest_unique [OF all [symmetric] assms(3,4)])
  have filter: "service_filter svc = ''com.docker.compose.service='' @ svc"
    by (simp add: service_filter_def composeServiceLabel_def)
  have host: "translateHostConfig insp = host\<lparr>hc_RestartPolicyName :=
      (if hc_RestartPolicyName host = '''' then ''no'' else hc_RestartPolicyName host)\<rparr>"
    using assms(7) by (simp add: translateHostConfig_def RestartPolicyDisabled_def)
  let ?cfg = "if cfg_Image cfg = '''' then cfg else cfg\<lparr>cfg_Labels := carried_labels (cfg_Labels cfg) ir\<rparr>"
  let ?img = "if cfg_Image cfg = '''' then [] else [EImageInspect (cfg_Image cfg)]"
  let ?opts = "\<lparr>cc_Config = ?cfg, cc_HostConfig = translateHostConfig insp,
      cc_Endpoints = fst (translateNetworks insp), cc_Name = TrimPrefix (in_Name insp) ''/''\<rparr>"
  let ?Q = "\<lambda>r es. r = Inr new \<longrightarrow> (\<exists>es'.
      es = [EContainerList True (service_filter svc), EContainerInspect (cs_ID old)] @ ?img @ es' \<and>
      replaced (cs_ID old) ?opts (snd (translateNetworks insp)) new es')"
  have "ensures (recreate_Service E svc) ?Q"
    by (rule recreate_emits_known [where ?c = c and ?cs = cs and ?insp = insp and ?cfg = cfg and ?ir = ir])
       (use assms(1,2,5,6,8) in \<open>simp_all only: filter all newest sum.distinct simp_thms; blast\<close>)+
  from ensuresD [OF this assms(9)] obtain es where
    "trace w' = trace w @ [EContainerList True (service_filter svc), EContainerInspect (cs_ID old)] @ ?img @ es"
    and "replaced (cs_ID old) ?opts (snd (translateNetworks insp)) new es" by auto
  then show ?thesis
    unfolding replaced_def translateNetworks_carried fst_conv snd_conv host filter connects_def stopGraceSeconds_def
    by auto
qed

text \<open>
  A daemon for the witnesses: two containers of one service on two networks; every
  call succeeds, and range loops visit maps in the listed order.
\<close>

definition demo_config :: ContainerConfig where
  "demo_config =
     \<lparr>cfg_Image = ''ghcr.io/centroid-is/web:1'', cfg_User = ''root'', cfg_Cmd = [''run''],
      cfg_Labels = [''hmi-update.pinned'' \<mapsto> ''true'', ''org.opencontainers.image.revision'' \<mapsto> ''old''],
      cfg_rest = ''rest''\<rparr>"

definition demo_inspect :: InspectResponse where
  "demo_inspect =
     \<lparr>in_ID = ''0123456789abcdef'', in_Name = ''/web-1'', in_Image = ''sha256:img'', in_RestartCount = 0,
      in_State = Some \<lparr>rs_Running = True, rs_Health = None\<rparr>, in_Config = Some demo_config,
      in_HostConfig = Some zero_host_config,
      in_Networks = Some
        [(''front'', Some \<lparr>ep_Aliases = [''web'', ''0123456789ab''], ep_IPAMConfig = None,
                            ep_IPAddress = Some ''10.0.0.7'', ep_rest = ''''\<rparr>),
         (''back'', None)]\<rparr>"

definition demo_env :: "unit Env" where
  "demo_env =
     \<lparr>sdk_Ping = (\<lambda>x. (None, x)),
      sdk_ContainerList = (\<lambda>_ _ x.
        (Inr [\<lparr>cs_ID = ''old'', cs_Created = 1\<rparr>, \<lparr>cs_ID = ''new'', cs_Created = 5\<rparr>], x)),
      sdk_ContainerInspect = (\<lambda>_ x. (Inr demo_inspect, x)),
      sdk_ImagePull = (\<lambda>_ x.
        (Inr \<lparr>ps_messages = [], ps_decode_end = None, ps_copy_end = None\<rparr>, x)),
      sdk_ImageInspect = (\<lambda>_ x.
        (Inr \<lparr>ii_RepoDigests = [''ghcr.io/centroid-is/web@sha256:d1''], ii_Created = '''',
              ii_ConfigLabels = Some [''org.opencontainers.image.revision'' \<mapsto> ''new'',
                                      ''hmi-update.pinned'' \<mapsto> ''false'']\<rparr>, x)),
      sdk_ImageTag = (\<lambda>_ _ x. (None, x)),
      sdk_ImageList = (\<lambda>_ x. (Inr [], x)),
      sdk_ContainerCreate = (\<lambda>_ x. (Inr ''created'', x)),
      sdk_ContainerRemove = (\<lambda>_ x. (None, x)),
      sdk_ContainerStart = (\<lambda>_ x. (None, x)),
      sdk_ContainerStop = (\<lambda>_ _ x. (None, x)),
      sdk_NetworkConnect = (\<lambda>_ _ _ x. (None, x)),
      reg_Digest = (\<lambda>_ x. (Inr ''sha256:d1'', x)),
      reg_Manifest = (\<lambda>_ x. (Inr \<lparr>mf_Digest = ''sha256:d1'', mf_CreatedAt = 0\<rparr>, x)),
      http_Healthz = (\<lambda>_ x. (True, x)),
      os_Stat = (\<lambda>_ x. (Inr \<lparr>fi_ModTime = 0, fi_Size = 0, fi_Inode = None\<rparr>, x)),
      env_store = (\<lambda>x. (empty_state, x)),
      env_trylock = (\<lambda>_ x. (True, x)),
      ctx_done = (\<lambda>x. (False, x)),
      sel_pick = (\<lambda>x. (True, x)),
      range_nets = (\<lambda>ns x. (ns, x)),
      range_rows = (\<lambda>st x. ([], x)),
      sort_newest = (\<lambda>cs x. (sort_key (\<lambda>c. - snd c) cs, x)),
      time_Now = (\<lambda>x. (0, x)), env_zone = (\<lambda>t. 0)\<rparr>"

definition world0 :: "unit World" where
  "world0 = \<lparr>ext = (), trace = []\<rparr>"

lemma demo_fair [simp]: "fair_range demo_env"
  by (simp add: fair_range_def demo_env_def)

lemmas demo_run = facade_defs demo_env_def world0_def recreate_Service_def Translate_def
  refreshed_config_def demo_inspect_def replace_container_def range_networks_def
  translateNetworks_def demo_config_def shortIDLen_def

lemma demo_carried:
  "carried_networks demo_inspect =
     [(''front'', \<lparr>ep_Aliases = [''web''], ep_IPAMConfig = None, ep_IPAddress = None, ep_rest = ''''\<rparr>),
      (''back'', zero_endpoint)]"
  "carried_labels (cfg_Labels demo_config)
     (Inr \<lparr>ii_RepoDigests = [''ghcr.io/centroid-is/web@sha256:d1''], ii_Created = '''',
           ii_ConfigLabels = Some [''org.opencontainers.image.revision'' \<mapsto> ''new'', ''hmi-update.pinned'' \<mapsto> ''false'']\<rparr>) =
   [''hmi-update.pinned'' \<mapsto> ''true'', ''org.opencontainers.image.revision'' \<mapsto> ''new'']"
  by (simp add: carried_networks_def carried_endpoint_def demo_inspect_def zero_endpoint_def)
     (rule ext, simp add: carried_labels_def demo_config_def)

theorem recreate_success_witness:
  "trace (snd (run_state (recreate_Service demo_env ''web'') world0)) =
     [EContainerList True ''com.docker.compose.service=web'', EContainerInspect ''new'',
      EImageInspect ''ghcr.io/centroid-is/web:1'', EContainerStop ''new'' 10, EContainerRemove ''new'',
      EContainerCreate
        \<lparr>cc_Config = demo_config\<lparr>cfg_Labels :=
           [''hmi-update.pinned'' \<mapsto> ''true'', ''org.opencontainers.image.revision'' \<mapsto> ''new'']\<rparr>,
         cc_HostConfig = zero_host_config\<lparr>hc_RestartPolicyName := ''no''\<rparr>,
         cc_Endpoints = [(''front'', \<lparr>ep_Aliases = [''web''], ep_IPAMConfig = None, ep_IPAddress = None, ep_rest = ''''\<rparr>)],
         cc_Name = ''web-1''\<rparr>,
      ENetworkConnect ''back'' ''created'' zero_endpoint, EContainerStart ''created'']"
proof -
  let ?r = "run_state (recreate_Service demo_env ''web'') world0"
  let ?old = "\<lparr>cs_ID = ''new'', cs_Created = 5\<rparr>" and ?x = "\<lparr>cs_ID = ''old'', cs_Created = 1\<rparr>"
  let ?ir = "Inr \<lparr>ii_RepoDigests = [''ghcr.io/centroid-is/web@sha256:d1''], ii_Created = '''',
      ii_ConfigLabels = Some [''org.opencontainers.image.revision'' \<mapsto> ''new'', ''hmi-update.pinned'' \<mapsto> ''false'']\<rparr>"
  have run: "?r = (Inr ''created'', snd ?r)" by (simp add: demo_run Let_def)
  have answer: "answers (sdk_ContainerList demo_env True (''com.docker.compose.service='' @ ''web'')) (Inr ([?x] @ ?old # []))"
    "answers (sdk_ContainerInspect demo_env (cs_ID ?old)) (Inr demo_inspect)"
    "answers (sdk_ImageInspect demo_env (cfg_Image demo_config)) ?ir"
    by (simp_all add: answers_def demo_env_def)
  have parts: "in_Config demo_inspect = Some demo_config" "in_HostConfig demo_inspect = Some zero_host_config"
    "TrimPrefix (in_Name demo_inspect) ''/'' = ''web-1''" "cfg_Image demo_config = ''ghcr.io/centroid-is/web:1''"
    "hc_RestartPolicyName zero_host_config = ''''"
    by (simp_all add: demo_inspect_def demo_config_def zero_host_config_def TrimPrefix_def)
  from recreate_success [OF demo_fair answer(1) _ _ answer(2) parts(1,2) answer(3) run] show ?thesis
    unfolding demo_carried parts by (auto simp: world0_def)
qed

text \<open>
  C7. When \<open>recreate.Service\<close> fails, whatever the daemon answers, the old
  container was not touched; or the last call was the failing stop, the failing
  remove, or a failing create, in which case the error text holds \<open>old GONE\<close>; or
  the container created last was removed again by the last call.
\<close>

theorem recreate_failure:
  assumes "fair_range E" and "run_state (recreate_Service E svc) w = (Inl e, w')"
  shows "\<exists>es. trace w' = trace w @ es \<and>
     ((\<forall>f \<in> set es. f = EContainerList True (service_filter svc) \<or> (\<exists>i. f = EContainerInspect i))
    \<or> (\<exists>pre old. es = pre @ [EContainerStop old 10] \<and> recreate_prefix svc old pre)
    \<or> (\<exists>pre old. es = pre @ [EContainerStop old 10, EContainerRemove old] \<and> recreate_prefix svc old pre)
    \<or> (\<exists>pre old opts.
         es = pre @ [EContainerStop old 10, EContainerRemove old, EContainerCreate opts] \<and>
         recreate_prefix svc old pre \<and> Contains (err_text e) ''old GONE'')
    \<or> (\<exists>pre old opts new nets tl.
         es = pre @ [EContainerStop old 10, EContainerRemove old, EContainerCreate opts]
              @ connects new nets @ tl @ [EContainerRemove new] \<and>
         recreate_prefix svc old pre \<and> (tl = [] \<or> tl = [EContainerStart new])))"
proof -
  let ?Q = "\<lambda>r es. r = Inl e \<longrightarrow>
      set es \<subseteq> range EContainerInspect \<union> {EContainerList True (service_filter svc)} \<or>
      (\<exists>pre old opts es'. es = pre @ es' \<and> recreate_prefix svc old pre \<and> replace_failed old opts e es')"
  have "ensures (recreate_Service E svc) ?Q"
    by (rule recreate_emits [OF assms(1)]) blast+
  from ensuresD [OF this assms(2)] obtain es where es: "trace w' = trace w @ es"
    and "set es \<subseteq> range EContainerInspect \<union> {EContainerList True (service_filter svc)} \<or>
      (\<exists>pre old opts es'. es = pre @ es' \<and> recreate_prefix svc old pre \<and> replace_failed old opts e es')"
    by blast
  then consider "set es \<subseteq> range EContainerInspect \<union> {EContainerList True (service_filter svc)}"
    | pre old opts es' where "es = pre @ es'" "recreate_prefix svc old pre" "replace_failed old opts e es'"
    by blast
  then show ?thesis
  proof cases
    case 1
    with es show ?thesis by (intro exI [of _ es]) blast
  next
    case 2
    note fine = es 2(1,2)
    from 2(3) show ?thesis
      unfolding replace_failed_def stopGraceSeconds_def
    proof (elim disjE)
      assume "es' = [EContainerStop old 10]"
      with fine show ?thesis by metis
    next
      assume "es' = [EContainerStop old 10, EContainerRemove old]"
      with fine show ?thesis by metis
    next
      assume "es' = [EContainerStop old 10, EContainerRemove old, EContainerCreate opts] \<and>
          Contains (err_text e) ''old GONE''"
      with fine show ?thesis by metis
    next
      assume "\<exists>new nets tl. (tl = [] \<or> tl = [EContainerStart new]) \<and>
          es' = [EContainerStop old 10, EContainerRemove old, EContainerCreate opts]
                @ connects new nets @ tl @ [EContainerRemove new]"
      with fine show ?thesis by (elim exE conjE) metis
    qed
  qed
qed

definition create_fails_env :: "unit Env" where
  "create_fails_env =
     demo_env\<lparr>sdk_ContainerCreate := (\<lambda>_ x. (Inl (errors_New ''no such image''), x))\<rparr>"

lemma recreate_failure_witness:
  "\<exists>e. fst (run_state (recreate_Service create_fails_env ''web'') world0) = Inl e \<and>
     Contains (err_text e) ''old GONE'' \<and>
     (\<exists>pre old opts. trace (snd (run_state (recreate_Service create_fails_env ''web'') world0)) =
        pre @ [EContainerStop old 10, EContainerRemove old, EContainerCreate opts] \<and>
        recreate_prefix ''web'' old pre)"
proof -
  let ?r = "run_state (recreate_Service create_fails_env ''web'') world0"
  have fair: "fair_range create_fails_env" by (simp add: fair_range_def create_fails_env_def demo_env_def)
  have run: "\<exists>e opts p. ?r = (Inl e, snd ?r) \<and> trace (snd ?r) = p @ [EContainerCreate opts]"
    by (simp add: demo_run create_fails_env_def Let_def)
  then obtain e opts p where r: "?r = (Inl e, snd ?r)" and p: "trace (snd ?r) = p @ [EContainerCreate opts]"
    by blast
  from recreate_failure [OF fair r] p r show ?thesis
    by (auto simp: world0_def) (metis fst_conv)+
qed

text \<open>
  \<open>translateNetworks\<close> loses no network and invents none: the network of the
  create call and the extra ones are together the networks of the old container,
  at most one of them in the create call, each endpoint scrubbed of the old
  container's short id and, without an IPAM configuration, of its address.
\<close>

theorem translateNetworks_split:
  "fst (translateNetworks insp) @ snd (translateNetworks insp) =
     (case in_Networks insp of None \<Rightarrow> [] | Some ns \<Rightarrow>
        map (\<lambda>(name, ep). (name, scrubEndpoint ep
          (if length (in_ID insp) \<ge> 12 then take 12 (in_ID insp) else ''''))) ns)
   \<and> length (fst (translateNetworks insp)) \<le> 1
   \<and> (\<forall>(name, ep) \<in> set (fst (translateNetworks insp) @ snd (translateNetworks insp)).
        (12 \<le> length (in_ID insp) \<longrightarrow> take 12 (in_ID insp) \<notin> set (ep_Aliases ep)) \<and>
        (ep_IPAMConfig ep = None \<longrightarrow> ep_IPAddress ep = None))"
proof (cases "in_Networks insp")
  case None
  then show ?thesis by (simp add: translateNetworks_def)
next
  case (Some ns)
  define sid where "sid = (if length (in_ID insp) \<ge> 12 then take 12 (in_ID insp) else '''')"
  have split: "translateNetworks insp = split_networks sid True ns"
    by (simp add: translateNetworks_def Some sid_def shortIDLen_def)
  have all: "fst (split_networks sid True ns) @ snd (split_networks sid True ns) =
      map (\<lambda>(name, ep). (name, scrubEndpoint ep sid)) ns"
    and one: "length (fst (split_networks sid True ns)) \<le> 1"
    by (cases ns; auto simp: split_networks_True split_networks_False simp del: split_networks.simps(2))+
  have "12 \<le> length (in_ID insp) \<Longrightarrow> sid = take 12 (in_ID insp) \<and> sid \<noteq> ''''"
    by (auto simp: sid_def)
  then have "\<forall>(name, ep) \<in> set (map (\<lambda>(name, ep). (name, scrubEndpoint ep sid)) ns).
        (12 \<le> length (in_ID insp) \<longrightarrow> take 12 (in_ID insp) \<notin> set (ep_Aliases ep)) \<and>
        (ep_IPAMConfig ep = None \<longrightarrow> ep_IPAddress ep = None)"
    using scrubEndpoint_alias [of sid] scrubEndpoint_ip [of _ sid] by fastforce
  then show ?thesis unfolding split all using one by (simp add: Some sid_def)
qed

lemma translateNetworks_split_witness:
  "translateNetworks demo_inspect =
     ([(''front'', \<lparr>ep_Aliases = [''web''], ep_IPAMConfig = None, ep_IPAddress = None, ep_rest = ''''\<rparr>)],
      [(''back'', zero_endpoint)])
   \<and> take 12 (in_ID demo_inspect) \<notin>
       set (ep_Aliases (snd (hd (fst (translateNetworks demo_inspect)))))"
proof -
  have eval: "translateNetworks demo_inspect =
     ([(''front'', \<lparr>ep_Aliases = [''web''], ep_IPAMConfig = None, ep_IPAddress = None, ep_rest = ''''\<rparr>)],
      [(''back'', zero_endpoint)])"
    by (simp add: translateNetworks_def demo_inspect_def shortIDLen_def scrubEndpoint_def)
  moreover have "12 \<le> length (in_ID demo_inspect)" by (simp add: demo_inspect_def)
  ultimately show ?thesis
    using translateNetworks_split [of demo_inspect] by auto
qed

end
