(* ===== verification/Discovery.thy ===== *)
theory Discovery
  imports Poller Recreate "HOL-Library.Word"
begin

text \<open>
  \<open>internal/docker/discovery.go\<close>: the boot list, the event handlers that keep the
  rows of watched containers, and the reconnect loop with its back-off.
\<close>

section \<open>References, ids and labels\<close>

definition shortID :: "string \<Rightarrow> string" where
  "shortID i = (if length i < 12 then i else take 12 i)"

definition parseImageRef :: "string \<Rightarrow> string \<times> string" where
  "parseImageRef ref =
     (case Index ref ''@'' of
        Some at \<Rightarrow> (take at ref, '''')
      | None \<Rightarrow>
          (case LastIndex ref CHR '':'' of
             Some colon \<Rightarrow>
               if \<not> Contains (drop (colon + 1) ref) ''/''
               then (take colon ref, drop (colon + 1) ref) else (ref, ''latest'')
           | None \<Rightarrow> (ref, ''latest'')))"

text \<open>A nil map and an empty one read alike, so both are the empty map here.\<close>

definition filterHmiLabels :: "labels \<Rightarrow> labels" where
  "filterHmiLabels l = (\<lambda>k. if HasPrefix k ''hmi-update.'' then l k else None)"

section \<open>Event handlers\<close>

text \<open>The digest and the build time that the image inspect yields.\<close>

definition digest_of_image :: "ImageInspectResponse result \<Rightarrow> string \<times> Time" where
  "digest_of_image r =
     (case r of
        Inl _ \<Rightarrow> ('''', 0)
      | Inr img \<Rightarrow>
          ((case ii_RepoDigests img of
              [] \<Rightarrow> ''''
            | rd # _ \<Rightarrow> (case Index rd ''@sha256:'' of Some at \<Rightarrow> drop (at + 1) rd | None \<Rightarrow> '''')),
           (if ii_Created img \<noteq> ''''
            then (case parse_RFC3339 (ii_Created img) of Some t \<Rightarrow> t | None \<Rightarrow> 0) else 0)))"

definition upsert_row ::
  "string \<Rightarrow> string \<Rightarrow> ContainerConfig \<Rightarrow> string \<times> Time \<Rightarrow> bool \<Rightarrow> Container \<Rightarrow> Container" where
  "upsert_row svc cid cfg dig invalidPattern c =
     (let (img, tag) = parseImageRef (cfg_Image cfg);
          c1 = c\<lparr>Service := svc, ImageRepo := img, Tag := tag, ContainerID := shortID cid,
                 Labels := filterHmiLabels (cfg_Labels cfg),
                 Pinned := Contains (cfg_Image cfg) ''@sha256:'', Stopped := False,
                 CurrentDigest := fst dig, CurrentDigestAt := snd dig\<rparr>
      in if invalidPattern then c1\<lparr>Notes := NoteInvalidTagPattern\<rparr> else c1)"

definition upsert_msg ::
  "string \<Rightarrow> string \<Rightarrow> ContainerConfig \<Rightarrow> string \<times> Time \<Rightarrow> bool \<Rightarrow> StateUpdate" where
  "upsert_msg svc cid cfg dig invalidPattern =
     \<lparr>upd_Kind = KindContainerEvent, upd_Service = svc,
      Apply = (\<lambda>st. put_row svc (upsert_row svc cid cfg dig invalidPattern (row st svc)) st)\<rparr>"

text \<open>
  The handlers thread the pattern cache, which is a pointer that may be nil. A send
  on \<open>d.updates\<close> is a plain channel send.
\<close>

definition set_pattern ::
  "'re regexp \<Rightarrow> string \<Rightarrow> string \<Rightarrow> 're Patterns option \<Rightarrow> bool \<times> 're Patterns option" where
  "set_pattern R svc pattern ps =
     (case ps of
        None \<Rightarrow> (False, None)
      | Some m \<Rightarrow> (case Patterns_Set R svc pattern m of (err, m') \<Rightarrow> (err \<noteq> None, Some m')))"

definition upsertFromInspect ::
  "'w Env \<Rightarrow> 're regexp \<Rightarrow> string \<Rightarrow> 're Patterns option \<Rightarrow> ('w, 're Patterns option) io" where
  "upsertFromInspect E R cid ps =
     (if cid = '''' then ret ps
      else do {
        r \<leftarrow> ContainerInspect E cid;
        case r of
          Inl _ \<Rightarrow> ret ps
        | Inr insp \<Rightarrow>
            (case in_Config insp of
               None \<Rightarrow> ret ps
             | Some cfg \<Rightarrow>
                 (case cfg_Labels cfg composeServiceLabel of
                    None \<Rightarrow> ret ps
                  | Some svc \<Rightarrow>
                      if svc = '''' then ret ps
                      else do {
                        img \<leftarrow> ImageInspect E (in_Image insp);
                        let pat = (case filterHmiLabels (cfg_Labels cfg) ''hmi-update.tag-pattern'' of
                                     None \<Rightarrow> '''' | Some p \<Rightarrow> p);
                        let (invalid, ps') = set_pattern R svc pat ps;
                        emit (ESend (upsert_msg svc cid cfg (digest_of_image img) invalid));
                        ret ps' })) })"

definition serviceForContainerID :: "'w Env \<Rightarrow> string \<Rightarrow> ('w, string) io" where
  "serviceForContainerID E cid = do {
     st \<leftarrow> observe (env_store E);
     rows \<leftarrow> observe (range_rows E st);
     ret (case find (\<lambda>(svc, c). ContainerID c = shortID cid) rows of
            None \<Rightarrow> '''' | Some (svc, _) \<Rightarrow> svc) }"

definition stopped_msg :: "string \<Rightarrow> StateUpdate" where
  "stopped_msg svc =
     \<lparr>upd_Kind = KindContainerEvent, upd_Service = svc,
      Apply = with_row svc (\<lambda>c. c\<lparr>Stopped := True\<rparr>)\<rparr>"

definition removed_msg :: "string \<Rightarrow> StateUpdate" where
  "removed_msg svc =
     \<lparr>upd_Kind = KindContainerEvent, upd_Service = svc,
      Apply = with_row svc (\<lambda>c. c\<lparr>Stopped := True, ContainerID := ''''\<rparr>)\<rparr>"

definition markStopped :: "'w Env \<Rightarrow> string \<Rightarrow> ('w, unit) io" where
  "markStopped E cid = do {
     svc \<leftarrow> serviceForContainerID E cid;
     if svc = '''' then ret () else emit (ESend (stopped_msg svc)) }"

definition removeContainer ::
  "'w Env \<Rightarrow> string \<Rightarrow> 're Patterns option \<Rightarrow> ('w, 're Patterns option) io" where
  "removeContainer E cid ps = do {
     svc \<leftarrow> serviceForContainerID E cid;
     if svc = '''' then ret ps
     else do {
       emit (ESend (removed_msg svc));
       ret (map_option (Patterns_Delete svc) ps) } }"

record EventMessage =
  ev_Action :: string
  ev_ActorID :: string

definition handleEvent ::
  "'w Env \<Rightarrow> 're regexp \<Rightarrow> EventMessage \<Rightarrow> 're Patterns option \<Rightarrow> ('w, 're Patterns option) io" where
  "handleEvent E R ev ps =
     (if ev_Action ev = ''start'' then upsertFromInspect E R (ev_ActorID ev) ps
      else if ev_Action ev = ''die'' then do { markStopped E (ev_ActorID ev); ret ps }
      else if ev_Action ev = ''destroy'' then removeContainer E (ev_ActorID ev) ps
      else ret ps)"

fun upsert_all ::
  "'w Env \<Rightarrow> 're regexp \<Rightarrow> ContainerSummary list \<Rightarrow> 're Patterns option \<Rightarrow> ('w, 're Patterns option) io" where
  "upsert_all E R [] ps = ret ps"
| "upsert_all E R (c # cs) ps = do { ps' \<leftarrow> upsertFromInspect E R (cs_ID c) ps; upsert_all E R cs ps' }"

definition bootList ::
  "'w Env \<Rightarrow> 're regexp \<Rightarrow> 're Patterns option \<Rightarrow> ('w, go_error option \<times> 're Patterns option) io" where
  "bootList E R ps = do {
     r \<leftarrow> ContainerList E False ''hmi-update.watch=true'';
     case r of
       Inl e \<Rightarrow> ret (Some e, ps)
     | Inr cs \<Rightarrow> do { ps' \<leftarrow> upsert_all E R cs ps; ret (None, ps') } }"

section \<open>The events loop\<close>

text \<open>What the select of \<open>drainEvents\<close> takes in one iteration.\<close>

datatype select_case =
    CtxDone
  | ErrChClosed
  | ErrChValue "go_error option"
  | EventChClosed
  | Event EventMessage

text \<open>
  \<open>drainEvents\<close> over the cases its select takes; \<open>None\<close> while it is still waiting
  for another one.
\<close>

fun drainEvents ::
  "'w Env \<Rightarrow> 're regexp \<Rightarrow> select_case list \<Rightarrow> nat \<Rightarrow> 're Patterns option \<Rightarrow>
   ('w, (nat \<times> string) option \<times> 're Patterns option) io" where
  "drainEvents E R [] n ps = ret (None, ps)"
| "drainEvents E R (CtxDone # _) n ps = ret (Some (n, ''ctx-cancelled''), ps)"
| "drainEvents E R (ErrChClosed # _) n ps = ret (Some (n, ''errch-closed''), ps)"
| "drainEvents E R (ErrChValue (Some e) # _) n ps = ret (Some (n, ''stream-err''), ps)"
| "drainEvents E R (ErrChValue None # cs) n ps = drainEvents E R cs n ps"
| "drainEvents E R (EventChClosed # _) n ps = ret (Some (n, ''eventch-closed''), ps)"
| "drainEvents E R (Event ev # cs) n ps = do {
     ps' \<leftarrow> handleEvent E R ev ps;
     drainEvents E R cs (n + 1) ps' }"

record Discoverer =
  d_maxBackoff :: Duration
  d_backoffBase :: Duration

definition NewDiscoverer :: Discoverer where
  "NewDiscoverer = \<lparr>d_maxBackoff = 30 * Second, d_backoffBase = 1 * Second\<rparr>"

text \<open>The shift happens in the 64-bit signed \<open>time.Duration\<close>.\<close>

definition computeBackoff :: "Discoverer \<Rightarrow> int \<Rightarrow> Duration" where
  "computeBackoff d attempt0 =
     (let attempt = (if attempt0 < 1 then 1 else attempt0)
      in if attempt > 30 then d_maxBackoff d
         else let b = sint (push_bit (nat (attempt - 1)) (word_of_int (d_backoffBase d) :: 64 word))
              in if b > d_maxBackoff d \<or> b \<le> 0 then d_maxBackoff d else b)"

text \<open>
  \<open>ctxAwareSleep\<close>, the production sleeper: how long it blocks, given when the context
  ends, counted from the call.
\<close>

definition ctxAwareSleep :: "Duration option \<Rightarrow> Duration \<Rightarrow> Duration" where
  "ctxAwareSleep ctx_ends d =
     (if d \<le> 0 then 0 else case ctx_ends of None \<Rightarrow> d | Some c \<Rightarrow> min (max 0 c) d)"

lemma ctxAwareSleep_bounds:
  "0 \<le> ctxAwareSleep c d" "ctxAwareSleep c d \<le> max 0 d" "ctxAwareSleep (Some e) d \<le> max 0 e"
  by (auto simp: ctxAwareSleep_def split: option.splits)

text \<open>
  One subscription as the loop meets it: the two \<open>ctx.Err\<close> checks around it and the
  cases the drain takes. The loop runs over the subscriptions of its life and
  returns the context error, or \<open>None\<close> while it is still running.
\<close>

record subscription =
  sub_ctx_before :: "go_error option"
  sub_cases :: "select_case list"
  sub_ctx_after :: "go_error option"

fun eventsLoop ::
  "'w Env \<Rightarrow> 're regexp \<Rightarrow> Discoverer \<Rightarrow> subscription list \<Rightarrow> int \<Rightarrow> 're Patterns option \<Rightarrow>
   ('w, go_error option) io" where
  "eventsLoop E R d [] attempt ps = ret None"
| "eventsLoop E R d (s # ss) attempt ps =
     (case sub_ctx_before s of
        Some err \<Rightarrow> ret (Some err)
      | None \<Rightarrow> do {
          ps1 \<leftarrow> (if attempt > 0 then do { (_, p) \<leftarrow> bootList E R ps; ret p } else ret ps);
          emit EEvents;
          (r, ps2) \<leftarrow> drainEvents E R (sub_cases s) 0 ps1;
          case r of
            None \<Rightarrow> ret None
          | Some (eventsHandled, reason) \<Rightarrow>
              (case sub_ctx_after s of
                 Some err \<Rightarrow> ret (Some err)
               | None \<Rightarrow> do {
                   let attempt1 = (if eventsHandled > 0 then 0 else attempt);
                   let attempt2 = attempt1 + 1;
                   emit (ESleep (computeBackoff d attempt2));
                   eventsLoop E R d ss attempt2 ps2 }) })"

definition Discoverer_Run ::
  "'w Env \<Rightarrow> 're regexp \<Rightarrow> Discoverer \<Rightarrow> subscription list \<Rightarrow> 're Patterns option \<Rightarrow>
   ('w, go_error option) io" where
  "Discoverer_Run E R d ss ps = do {
     (_, ps1) \<leftarrow> bootList E R ps;
     eventsLoop E R d ss 0 ps1 }"

section \<open>Lemmas\<close>

lemma Contains_digest_at: "Contains ref ''@sha256:'' \<Longrightarrow> Index ref ''@'' \<noteq> None"
proof (induction ref)
  case (Cons c s)
  then show ?case by (cases "c = CHR ''@''") (auto simp: Contains_def split: if_splits)
qed (simp add: Contains_def)

lemma parseImageRef_pinned: "Contains ref ''@sha256:'' \<Longrightarrow> snd (parseImageRef ref) = ''''"
  using Contains_digest_at [of ref] by (auto simp: parseImageRef_def)

lemma Contains_singleton: "Contains s [c] \<longleftrightarrow> c \<in> set s"
  using Index_None_iff [of s c] by (auto simp: Contains_def)

lemma parseImageRef_tagged:
  assumes "CHR ''@'' \<notin> set img" and "CHR ''@'' \<notin> set tag" and "CHR '':'' \<notin> set tag" and "CHR ''/'' \<notin> set tag"
  shows "parseImageRef (img @ '':'' @ tag) = (img, tag)"
proof -
  have "Index (img @ '':'' @ tag) ''@'' = None" using assms by (simp add: Index_None_iff)
  moreover have "LastIndex (img @ '':'' @ tag) CHR '':'' = Some (length img)"
    using LastIndex_append [of "CHR '':''" tag img] assms(3) by simp
  ultimately show ?thesis
    using assms(4) by (simp add: parseImageRef_def Contains_singleton)
qed

text \<open>The image part and the tag give the reference back, with the implicit tag added.\<close>

lemma parseImageRef_join:
  assumes "CHR ''@'' \<notin> set ref" and "parseImageRef ref = (img, tag)"
  shows "img @ '':'' @ tag = ref \<or> img = ref \<and> tag = ''latest''"
proof -
  have "Index ref ''@'' = None" using assms(1) by (simp add: Index_None_iff)
  with assms(2) show ?thesis
    by (auto simp: parseImageRef_def split: option.splits if_splits dest!: LastIndex_Some)
qed

lemma set_pattern_emitless [simp]: "fst (set_pattern R svc '''' ps) = False"
  by (simp add: set_pattern_def Patterns_Set_def split: option.splits)

text \<open>The messages discovery sends.\<close>

definition discovery_sends :: "AppState \<Rightarrow> StateUpdate \<Rightarrow> bool" where
  "discovery_sends snap u \<longleftrightarrow>
     (\<exists>svc cid cfg dig bad. svc \<noteq> '''' \<and> u = upsert_msg svc cid cfg dig bad) \<or>
     (\<exists>svc. u = stopped_msg svc) \<or> (\<exists>svc. u = removed_msg svc)"

lemma row_ok_upsert:
  assumes "row_ok svc c \<or> c = zero_container"
  shows "row_ok svc (upsert_row svc cid cfg dig bad c)"
proof -
  have "ActionInFlight c \<in> action_states" "Notes c \<in> known_notes"
    using assms by (auto simp: row_ok_def zero_container_def action_states_def known_notes_def)
  then show ?thesis
    using parseImageRef_pinned [of "cfg_Image cfg"]
    by (auto simp: row_ok_def upsert_row_def filterHmiLabels_def hmi_prefix_def Let_def
        split: prod.splits if_splits)
qed

lemma safe_upsert_msg: "safe D (upsert_msg svc cid cfg dig bad)"
  by (auto simp: safe_def upsert_msg_def row_def state_okD intro!: state_ok_put_row row_ok_upsert
      split: option.splits)

interpretation discovery: producer discovery_sends
  by unfold_locales
     (auto simp: discovery_sends_def safe_upsert_msg stopped_msg_def removed_msg_def row_ok_def
        intro!: safe_with_row)

text \<open>Every message of a handler is one of those, and the two inspects come before an upsert.\<close>

lemma upsertFromInspect_emits:
  assumes "\<And>p. Q p []" and "\<And>p. Q p [EContainerInspect cid]"
    and "\<And>p (insp :: InspectResponse) cfg svc dig bad. in_Config insp = Some cfg \<Longrightarrow> cfg_Labels cfg composeServiceLabel = Some svc
      \<Longrightarrow> svc \<noteq> [] \<Longrightarrow> Q p ([EContainerInspect cid] @ [EImageInspect (in_Image insp)] @
            [ESend (upsert_msg svc cid cfg dig bad)])"
  shows "ensures (upsertFromInspect E R cid ps) Q"
  unfolding upsertFromInspect_def Let_def case_prod_beta
  apply (intro emits)
  apply (simp_all only: append_Nil2 assms(1,2))
  apply (rule assms(3))
  apply simp_all
  done

lemma serviceForContainerID_emits:
  "(\<And>svc. Q svc []) \<Longrightarrow> ensures (serviceForContainerID E cid) Q"
  unfolding serviceForContainerID_def by (intro emits) simp

definition discovery_effect :: "effect \<Rightarrow> bool" where
  "discovery_effect e \<longleftrightarrow>
     (case e of
        ESend u \<Rightarrow> (\<forall>snap. discovery_sends snap u)
      | EContainerList _ _ \<Rightarrow> True | EContainerInspect _ \<Rightarrow> True | EImageInspect _ \<Rightarrow> True
      | EEvents \<Rightarrow> True | ESleep _ \<Rightarrow> True | _ \<Rightarrow> False)"

lemma discovery_effect_simps [simp]:
  "svc \<noteq> [] \<Longrightarrow> discovery_effect (ESend (upsert_msg svc cid cfg dig bad))"
  "discovery_effect (ESend (stopped_msg svc))"
  "discovery_effect (ESend (removed_msg svc))"
  "discovery_effect (EContainerList b l)" "discovery_effect (EContainerInspect i)"
  "discovery_effect (EImageInspect i)" "discovery_effect EEvents" "discovery_effect (ESleep t)"
proof -
  show "discovery_effect (ESend (upsert_msg svc cid cfg dig bad))" if "svc \<noteq> []"
    unfolding discovery_effect_def discovery_sends_def using that by (simp del: split_paired_Ex) metis
  show "discovery_effect (ESend (stopped_msg svc))"
    unfolding discovery_effect_def discovery_sends_def by (simp del: split_paired_Ex) metis
  show "discovery_effect (ESend (removed_msg svc))"
    unfolding discovery_effect_def discovery_sends_def by (simp del: split_paired_Ex) metis
qed (simp_all add: discovery_effect_def)

lemma only_upsert [allows]: "only discovery_effect (upsertFromInspect E R cid ps)"
  unfolding upsertFromInspect_def Let_def by (intro allows) simp_all

lemma only_serviceForContainerID [allows]: "only P (serviceForContainerID E cid)"
  unfolding serviceForContainerID_def by (intro allows)

lemma only_handleEvent [allows]: "only discovery_effect (handleEvent E R ev ps)"
  unfolding handleEvent_def markStopped_def removeContainer_def by (intro allows) simp_all

lemma only_upsert_all [allows]: "only discovery_effect (upsert_all E R cs ps)"
  by (induction cs arbitrary: ps) (auto intro!: allows)

lemma only_bootList [allows]: "only discovery_effect (bootList E R ps)"
  unfolding bootList_def by (intro allows) simp_all

lemma only_drainEvents [allows]: "only discovery_effect (drainEvents E R cs n ps)"
  by (induction E R cs n ps rule: drainEvents.induct) (auto intro!: allows)

lemma only_eventsLoop [allows]: "only discovery_effect (eventsLoop E R d ss a ps)"
proof (induction ss arbitrary: a ps)
  case (Cons s ss)
  show ?case unfolding eventsLoop.simps Let_def by (intro allows Cons.IH) simp_all
qed (auto intro!: allows)

lemma only_Run: "only discovery_effect (Discoverer_Run E R d ss ps)"
  unfolding Discoverer_Run_def by (intro allows)

lemma parseImageRef_untagged:
  assumes "CHR ''@'' \<notin> set ref" and "ref = path @ name" and "CHR '':'' \<notin> set name"
    and "path = [] \<or> last path = CHR ''/''"
  shows "parseImageRef ref = (ref, ''latest'')"
proof (cases "LastIndex ref CHR '':''")
  case None
  with assms(1) show ?thesis by (simp add: parseImageRef_def Index_None_iff split: option.splits)
next
  case (Some i)
  let ?t = "drop (Suc i) ref"
  from LastIndex_Some [OF Some] have eq: "take i ref @ CHR '':'' # ?t = path @ name" using assms(2) by metis
  have "CHR ''/'' \<in> set ?t"
  proof -
    from eq consider us where "take i ref @ us = path" "CHR '':'' # ?t = us @ name"
      | us where "take i ref = path @ us" "us @ CHR '':'' # ?t = name"
      by (auto simp: append_eq_append_conv2)
    then show ?thesis
    proof cases
      case 1
      with assms(3) obtain us' where us: "us = CHR '':'' # us'" and t: "?t = us' @ name"
        by (cases us) auto
      from 1 us have "path \<noteq> []" and "last path = last us" by auto
      with assms(4) us have "us' \<noteq> [] \<and> last us' = CHR ''/''" by (auto split: if_splits)
      with t show ?thesis by (metis UnCI last_in_set set_append)
    next
      case 2
      with assms(3) show ?thesis by auto
    qed
  qed
  with Some assms(1) show ?thesis
    by (simp add: parseImageRef_def Index_None_iff Contains_singleton split: option.splits)
qed

lemma sint_word_of_int64: "0 \<le> x \<Longrightarrow> x < 2 ^ 63 \<Longrightarrow> sint (word_of_int x :: 64 word) = x"
  by (simp add: signed_of_int signed_take_bit_int_eq_self)

lemma computeBackoff_shift:
  assumes "1 \<le> a" and "a \<le> 30"
  shows "sint (push_bit (nat (a - 1)) (word_of_int Second :: 64 word)) = Second * 2 ^ nat (a - 1)"
proof -
  have "nat (a - 1) \<le> 29" using assms by simp
  then have "(2::int) ^ nat (a - 1) \<le> 2 ^ 29" by (rule power_increasing) simp
  then have "Second * 2 ^ nat (a - 1) < 2 ^ 63" and "0 \<le> Second * 2 ^ nat (a - 1)"
    by (simp_all add: Second_def nanosecond_per_second_def)
  moreover have "push_bit (nat (a - 1)) (word_of_int Second :: 64 word) =
      word_of_int (Second * 2 ^ nat (a - 1))"
    by (simp add: push_bit_eq_mult)
  ultimately show ?thesis by (simp only: sint_word_of_int64)
qed

lemma computeBackoff_default:
  assumes "1 \<le> a"
  shows "computeBackoff NewDiscoverer a = min (30 * Second) (Second * 2 ^ nat (a - 1))"
proof (cases "a \<le> 30")
  case True
  define b where "b = Second * 2 ^ nat (a - 1)"
  have "0 < b" by (simp add: b_def Second_def nanosecond_per_second_def)
  moreover have "computeBackoff NewDiscoverer a = (if b > 30 * Second \<or> b \<le> 0 then 30 * Second else b)"
    using True assms
    by (simp add: computeBackoff_def NewDiscoverer_def computeBackoff_shift b_def Let_def)
  ultimately show ?thesis unfolding b_def [symmetric] by (simp add: min_def)
next
  case False
  then have "(2::int) ^ 30 \<le> 2 ^ nat (a - 1)" by (intro power_increasing) auto
  then have "30 * Second \<le> Second * 2 ^ nat (a - 1)"
    by (simp add: Second_def nanosecond_per_second_def)
  with False show ?thesis by (simp add: computeBackoff_def NewDiscoverer_def min_def Let_def)
qed

section \<open>Properties\<close>

text \<open>
  C33. The poller asks the registry for the reference the container runs: for a row
  upserted from a tagged reference that is not pinned, the reference itself; from a
  reference whose last path component has no tag, the reference with the tag
  \<open>latest\<close>. The registry's port, if any, is not taken for a tag.
\<close>

theorem poll_fetches_running_ref:
  assumes "CHR ''@'' \<notin> set (cfg_Image cfg)"
  shows "(cfg_Image cfg = img @ '':'' @ tag \<and> tag \<noteq> '''' \<and> CHR '':'' \<notin> set tag \<and> CHR ''/'' \<notin> set tag
      \<and> Patterns_Match R m svc tag
      \<longrightarrow> refForContainer R m (upsert_row svc cid cfg dig bad c) = cfg_Image cfg)
    \<and> (cfg_Image cfg = path @ name \<and> CHR '':'' \<notin> set name \<and> (path = [] \<or> last path = CHR ''/'')
      \<and> Patterns_Match R m svc ''latest''
      \<longrightarrow> refForContainer R m (upsert_row svc cid cfg dig bad c) = cfg_Image cfg @ '':latest'')"
proof (intro conjI impI; elim conjE)
  assume "cfg_Image cfg = img @ '':'' @ tag" "tag \<noteq> ''''" "CHR '':'' \<notin> set tag" "CHR ''/'' \<notin> set tag"
    "Patterns_Match R m svc tag"
  moreover from this assms have "parseImageRef (cfg_Image cfg) = (img, tag)"
    by (simp add: parseImageRef_tagged [simplified])
  ultimately show "refForContainer R m (upsert_row svc cid cfg dig bad c) = cfg_Image cfg"
    by (simp add: refForContainer_def upsert_row_def Let_def)
next
  assume "cfg_Image cfg = path @ name" "CHR '':'' \<notin> set name" "path = [] \<or> last path = CHR ''/''"
    "Patterns_Match R m svc ''latest''"
  moreover from this assms have "parseImageRef (cfg_Image cfg) = (cfg_Image cfg, ''latest'')"
    by (intro parseImageRef_untagged)
  ultimately show "refForContainer R m (upsert_row svc cid cfg dig bad c) = cfg_Image cfg @ '':latest''"
    by (simp add: refForContainer_def upsert_row_def Let_def)
qed

theorem poll_fetches_running_ref_witness:
  "refForContainer always_match Map.empty
     (upsert_row ''web'' ''0123456789abcdef'' (zero_config\<lparr>cfg_Image := ''localhost:5000/web:v1''\<rparr>) ('''', 0) False
        zero_container) = ''localhost:5000/web:v1''
   \<and> refForContainer always_match Map.empty
     (upsert_row ''web'' ''0123456789abcdef'' (zero_config\<lparr>cfg_Image := ''localhost:5000/web''\<rparr>) ('''', 0) False
        zero_container) = ''localhost:5000/web:latest''"
proof
  show "refForContainer always_match Map.empty
     (upsert_row ''web'' ''0123456789abcdef'' (zero_config\<lparr>cfg_Image := ''localhost:5000/web:v1''\<rparr>) ('''', 0) False
        zero_container) = ''localhost:5000/web:v1''"
    using poll_fetches_running_ref [where R = always_match and m = Map.empty and svc = "''web''"
        and cid = "''0123456789abcdef''" and dig = "('''', 0)" and bad = False and c = zero_container
        and img = "''localhost:5000/web''" and tag = "''v1''"
        and cfg = "zero_config\<lparr>cfg_Image := ''localhost:5000/web:v1''\<rparr>"]
    by (simp add: Patterns_Match_def)
  show "refForContainer always_match Map.empty
     (upsert_row ''web'' ''0123456789abcdef'' (zero_config\<lparr>cfg_Image := ''localhost:5000/web''\<rparr>) ('''', 0) False
        zero_container) = ''localhost:5000/web:latest''"
    using poll_fetches_running_ref [where R = always_match and m = Map.empty and svc = "''web''"
        and cid = "''0123456789abcdef''" and dig = "('''', 0)" and bad = False and c = zero_container
        and path = "''localhost:5000/''" and name = "''web''"
        and cfg = "zero_config\<lparr>cfg_Image := ''localhost:5000/web''\<rparr>"]
    by (simp add: Patterns_Match_def)
qed

definition same_action_state :: "Container \<Rightarrow> Container \<Rightarrow> bool" where
  "same_action_state c d \<longleftrightarrow>
     PreviousDigest d = PreviousDigest c \<and> PreviousDigestAt d = PreviousDigestAt c \<and>
     PreviousDigestBuiltAt d = PreviousDigestBuiltAt c \<and> ActionInFlight d = ActionInFlight c \<and>
     ActionError d = ActionError c \<and> AvailableDigest d = AvailableDigest c \<and>
     AvailableDigestAt d = AvailableDigestAt c \<and> LastPolledAt d = LastPolledAt c"

lemma discovery_same_action_state:
  assumes "discovery_sends snap u" and "Containers st svc = Some c"
  shows "\<exists>d. Containers (Apply u st) svc = Some d \<and> same_action_state c d"
proof -
  have "same_action_state c (upsert_row svc' cid cfg dig bad c)" for svc' cid cfg dig bad
    by (auto simp: same_action_state_def upsert_row_def Let_def split: prod.splits)
  with assms show ?thesis
    by (auto simp: discovery_sends_def upsert_msg_def stopped_msg_def removed_msg_def row_def
        same_action_state_def split: option.splits)
qed

text \<open>
  C32. Discovery never takes an action's bookkeeping away: whatever the daemon
  reports while \<open>Run\<close> lives, no message it sends deletes a row, and none changes a
  row's previous digest with its dates, its in-flight action, its action error, or
  what the poller recorded. So the error of a failed recreate or verify stays until the
  next action on the service that announces itself: the container-start event does not
  clear it.
\<close>

theorem discovery_keeps_action_state:
  assumes "run_state (Discoverer_Run E R d ss ps) w = (r, w')"
  shows "\<exists>es. trace w' = trace w @ es \<and>
    (\<forall>u st svc c. ESend u \<in> set es \<and> Containers st svc = Some c \<longrightarrow>
       (\<exists>c'. Containers (Apply u st) svc = Some c' \<and> same_action_state c c'))"
proof -
  from onlyD [OF only_Run assms] obtain es where "trace w' = trace w @ es"
    and "\<forall>e \<in> set es. discovery_effect e" by blast
  then show ?thesis
    using discovery_same_action_state by (fastforce simp: discovery_effect_def)
qed

text \<open>A life of the loop: the boot list finds the two demo containers, an event stream ends at once.\<close>

definition demo_subs :: "subscription list" where
  "demo_subs = [\<lparr>sub_ctx_before = None, sub_cases = [ErrChClosed], sub_ctx_after = None\<rparr>]"

theorem discovery_keeps_action_state_witness:
  "\<exists>es. trace (snd (run_state (Discoverer_Run demo_env always_match NewDiscoverer demo_subs (Some Map.empty))
        world0)) = trace world0 @ es \<and>
    (\<forall>u st svc c. ESend u \<in> set es \<and> Containers st svc = Some c \<longrightarrow>
       (\<exists>c'. Containers (Apply u st) svc = Some c' \<and> same_action_state c c'))"
  by (rule discovery_keeps_action_state, rule prod.collapse [symmetric])

text \<open>
  An upsert message leaves only after both inspects: the effects of
  \<open>upsertFromInspect\<close> are none, the failed or useless container inspect alone, or
  the container inspect, the image inspect and then one message for the service
  named by the compose label.
\<close>

theorem upsert_after_inspects:
  assumes "run_state (upsertFromInspect E R cid ps) w = (ps', w')"
  shows "trace w' = trace w \<or> trace w' = trace w @ [EContainerInspect cid] \<or>
    (\<exists>(insp :: InspectResponse) cfg svc dig bad.
       in_Config insp = Some cfg \<and> cfg_Labels cfg composeServiceLabel = Some svc \<and> svc \<noteq> '''' \<and>
       trace w' = trace w @ [EContainerInspect cid, EImageInspect (in_Image insp),
                             ESend (upsert_msg svc cid cfg dig bad)])"
proof -
  let ?Q = "\<lambda>_ es. es = [] \<or> es = [EContainerInspect cid] \<or>
    (\<exists>(insp :: InspectResponse) cfg svc dig bad. in_Config insp = Some cfg \<and>
       cfg_Labels cfg composeServiceLabel = Some svc \<and> svc \<noteq> '''' \<and>
       es = [EContainerInspect cid] @ [EImageInspect (in_Image insp)]
            @ [ESend (upsert_msg svc cid cfg dig bad)])"
  have "ensures (upsertFromInspect E R cid ps) ?Q"
    by (rule upsertFromInspect_emits) (simp, simp, blast)
  from ensuresD [OF this assms] show ?thesis by (elim exE conjE disjE) fastforce+
qed

definition labelled_env :: "unit Env" where
  "labelled_env = demo_env\<lparr>sdk_ContainerInspect := (\<lambda>_ x.
     (Inr (demo_inspect\<lparr>in_Config := Some (demo_config\<lparr>cfg_Labels := [composeServiceLabel \<mapsto> ''web'']\<rparr>)\<rparr>), x))\<rparr>"

theorem upsert_after_inspects_witness:
  "\<exists>(insp :: InspectResponse) cfg svc dig bad.
     in_Config insp = Some cfg \<and> cfg_Labels cfg composeServiceLabel = Some svc \<and>
     trace (snd (run_state (upsertFromInspect labelled_env always_match ''c1'' None) world0)) =
       [EContainerInspect ''c1'', EImageInspect (in_Image insp), ESend (upsert_msg svc ''c1'' cfg dig bad)]"
proof -
  let ?r = "run_state (upsertFromInspect labelled_env always_match ''c1'' None) world0"
  have "length (trace (snd ?r)) = 3"
    by (simp add: upsertFromInspect_def labelled_env_def facade_defs demo_env_def world0_def Let_def
        set_pattern_def)
  with upsert_after_inspects [OF prod.collapse [symmetric],
      of labelled_env always_match "''c1''" None world0]
  show ?thesis by (elim disjE) (simp_all add: world0_def del: split_paired_Ex, blast)
qed

text \<open>
  A \<open>die\<close> or \<open>destroy\<close> event of a container that no row runs any more (the old
  container of a recreate, whose row already has the new id) sends nothing and
  leaves the tag patterns alone.
\<close>

theorem stale_event_ignored:
  assumes "fair_rows E st" and "answers (env_store E) st"
    and "\<And>svc c. Containers st svc = Some c \<Longrightarrow> ContainerID c \<noteq> shortID (ev_ActorID ev)"
    and "ev_Action ev = ''die'' \<or> ev_Action ev = ''destroy''"
    and "run_state (handleEvent E R ev ps) w = (ps', w')"
  shows "ps' = ps \<and> trace w' = trace w"
proof -
  have none: "find (\<lambda>(svc, c). ContainerID c = shortID (ev_ActorID ev)) rows = None"
    if "rows = fst (range_rows E st x)" for rows x
    using assms(1,3) that by (force simp: fair_rows_def find_None_iff)
  have "ensures (serviceForContainerID E (ev_ActorID ev)) (\<lambda>svc es. svc = '''' \<and> es = [])"
    unfolding serviceForContainerID_def ensures_def
    using none assms(2) by (auto simp: answers_def split: prod.splits) (metis fst_conv option.simps(4))+
  then have "ensures (handleEvent E R ev ps) (\<lambda>p es. p = ps \<and> es = [])"
    unfolding handleEvent_def markStopped_def removeContainer_def
    using assms(4) by (auto intro!: emits elim!: ensures_weaken)
  from ensuresD [OF this assms(5)] show ?thesis by simp
qed

definition one_row :: AppState where
  "one_row = empty_state\<lparr>Containers := [''web'' \<mapsto> (demo_row ''web'')\<lparr>ContainerID := ''0123456789ab''\<rparr>]\<rparr>"

definition one_row_env :: "unit Env" where
  "one_row_env = demo_env\<lparr>env_store := (\<lambda>x. (one_row, x)),
     range_rows := (\<lambda>st x. ([(''web'', (demo_row ''web'')\<lparr>ContainerID := ''0123456789ab''\<rparr>)], x))\<rparr>"

theorem stale_event_ignored_witness:
  "trace (snd (run_state (handleEvent one_row_env always_match \<lparr>ev_Action = ''die'', ev_ActorID = ''gone''\<rparr>
      (Some Map.empty)) world0)) = trace world0"
proof -
  let ?ev = "\<lparr>ev_Action = ''die'', ev_ActorID = ''gone''\<rparr>"
  have "fair_rows one_row_env one_row" and "answers (env_store one_row_env) one_row"
    by (auto simp: fair_rows_def answers_def one_row_env_def one_row_def split: if_splits)
  moreover have "\<And>svc c. Containers one_row svc = Some c \<Longrightarrow> ContainerID c \<noteq> shortID (ev_ActorID ?ev)"
    by (auto simp: one_row_def shortID_def split: if_splits)
  ultimately show ?thesis
    using stale_event_ignored [of one_row_env one_row ?ev, OF _ _ _ _ prod.collapse [symmetric],
        of always_match "Some Map.empty" world0] by simp
qed

definition failed_subscription :: "subscription \<Rightarrow> bool" where
  "failed_subscription s \<longleftrightarrow>
     sub_ctx_before s = None \<and> sub_ctx_after s = None \<and>
     (\<exists>e cs. sub_cases s = ErrChClosed # cs \<or> sub_cases s = EventChClosed # cs \<or>
             sub_cases s = ErrChValue (Some e) # cs)"

fun sleeps :: "effect list \<Rightarrow> Duration list" where
  "sleeps [] = []"
| "sleeps (ESleep t # es) = t # sleeps es"
| "sleeps (_ # es) = sleeps es"

lemma sleeps_append [simp]: "sleeps (xs @ ys) = sleeps xs @ sleeps ys"
  by (induction xs rule: sleeps.induct) auto

lemma sleeps_discovery:
  assumes "only (\<lambda>e. \<nexists>t. e = ESleep t) m"
  shows "ensures m (\<lambda>_ es. sleeps es = [])"
proof -
  have "\<forall>e \<in> set es. \<nexists>t. e = ESleep t \<Longrightarrow> sleeps es = []" for es
    by (induction es rule: sleeps.induct) auto
  with assms show ?thesis unfolding only_def by (rule ensures_weaken) blast
qed

lemma bootList_no_sleep: "only (\<lambda>e. \<nexists>t. e = ESleep t) (bootList E R ps)"
proof -
  have "only (\<lambda>e. \<nexists>t. e = ESleep t) (upsert_all E R cs ps)" for cs ps
    by (induction cs arbitrary: ps) (auto intro!: allows simp: upsertFromInspect_def Let_def)
  then show ?thesis unfolding bootList_def by (intro allows) simp_all
qed

lemma drain_failed:
  "sub_cases s = ErrChClosed # cs \<or> sub_cases s = EventChClosed # cs \<or> sub_cases s = ErrChValue (Some e) # cs
   \<Longrightarrow> \<exists>reason. drainEvents E R (sub_cases s) 0 ps = ret (Some (0, reason), ps)"
  by auto

lemma eventsLoop_sleeps:
  assumes "list_all failed_subscription ss" and "0 \<le> a"
  shows "ensures (eventsLoop E R d ss a ps)
    (\<lambda>_ es. sleeps es = map (\<lambda>i. computeBackoff d (a + int i + 1)) [0..<length ss])"
  using assms
proof (induction ss arbitrary: a ps)
  case Nil
  then show ?case by (auto intro!: emits)
next
  case (Cons s ss)
  then have s: "failed_subscription s" and ss: "list_all failed_subscription ss" by auto
  then have ctx: "sub_ctx_before s = None" "sub_ctx_after s = None" by (auto simp: failed_subscription_def)
  from s obtain reason where drain: "\<And>ps. \<exists>r. drainEvents E R (sub_cases s) 0 ps = ret (Some (0, r), ps)"
    unfolding failed_subscription_def using drain_failed by metis
  have boot: "ensures (if a > 0 then bootList E R ps \<bind> (\<lambda>(_, p). ret p) else ret ps)
      (\<lambda>_ es. sleeps es = [])"
    by (rule sleeps_discovery) (intro allows bootList_no_sleep)
  have next_waits: "map (\<lambda>i. computeBackoff d (a + int i + 1)) [0..<length (s # ss)] =
      computeBackoff d (a + 1) # map (\<lambda>i. computeBackoff d ((a + 1) + int i + 1)) [0..<length ss]"
    by (simp add: map_upt_Suc add.commute add.left_commute del: upt_Suc)
  show ?case
    unfolding eventsLoop.simps ctx Let_def option.case next_waits
  proof (rule ensures_bind, rule ensures_weaken [OF boot])
    fix ps1 es
    assume es: "sleeps es = []"
    obtain r where r: "drainEvents E R (sub_cases s) 0 ps1 = ret (Some (0, r), ps1)" using drain by blast
    have "ensures (eventsLoop E R d ss (a + 1) ps1)
      (\<lambda>_ es. sleeps es = map (\<lambda>i. computeBackoff d ((a + 1) + int i + 1)) [0..<length ss])"
      using Cons.IH [OF ss, of "a + 1" ps1] Cons.prems by simp
    then show "ensures (emit EEvents \<bind> (\<lambda>_. drainEvents E R (sub_cases s) 0 ps1 \<bind> (\<lambda>(r, ps2).
        case r of None \<Rightarrow> ret None
        | Some (eventsHandled, reason) \<Rightarrow>
            emit (ESleep (computeBackoff d ((if 0 < eventsHandled then 0 else a) + 1))) \<bind>
            (\<lambda>_. eventsLoop E R d ss ((if 0 < eventsHandled then 0 else a) + 1) ps2))))
      (\<lambda>b es'. sleeps (es @ es') = computeBackoff d (a + 1) #
         map (\<lambda>i. computeBackoff d ((a + 1) + int i + 1)) [0..<length ss])"
      unfolding r by (auto intro!: emits elim!: ensures_weaken simp: es)
  qed
qed

text \<open>
  C34. The back-off is \<open>min 30s (2^(attempt-1) s)\<close>, never wraps in the 64-bit
  duration, and a daemon that fails \<open>n\<close> subscriptions in a row without one event is
  retried after exactly these waits.
\<close>

theorem reconnect_backoff:
  assumes "list_all failed_subscription ss"
    and "run_state (eventsLoop E R NewDiscoverer ss 0 ps) w = (r, w')"
  shows "\<exists>es. trace w' = trace w @ es \<and>
    sleeps es = map (\<lambda>i. min (30 * Second) (2 ^ i * Second)) [0..<length ss]"
proof -
  have "computeBackoff NewDiscoverer (0 + int i + 1) = min (30 * Second) (2 ^ i * Second)" for i
    by (subst computeBackoff_default) (simp_all add: mult.commute)
  with ensuresD [OF eventsLoop_sleeps [OF assms(1)] assms(2)] show ?thesis by simp
qed

theorem reconnect_backoff_witness:
  "\<exists>es. trace (snd (run_state (eventsLoop demo_env always_match NewDiscoverer
        (replicate 7 (hd demo_subs)) 0 None) world0)) = es \<and>
     sleeps es = map (\<lambda>s. s * Second) [1, 2, 4, 8, 16, 30, 30]"
proof -
  have "list_all failed_subscription (replicate 7 (hd demo_subs))"
    by (simp add: list_all_iff demo_subs_def failed_subscription_def)
  from reconnect_backoff [OF this prod.collapse [symmetric], of demo_env always_match None world0]
  show ?thesis
    by (simp add: world0_def upt_rec numeral_eq_Suc min_def Second_def nanosecond_per_second_def)
qed

end
