(* ===== verification/Verify.thy ===== *)
theory Verify
  imports Recreate
begin

text \<open>
  \<open>internal/actions/verify.go\<close>: the poll loop that watches a recreated container.
  Each turn either returns or adds one to the count of good ticks, so the loop is a
  total function; the deadline, the context and the daemon decide the rest.
\<close>

definition defaultVerifyWindow :: Duration where
  "defaultVerifyWindow = 15 * Second"

definition defaultHealthcheckWindow :: Duration where
  "defaultHealthcheckWindow = 60 * Second"

definition verifyTickInterval :: Duration where
  "verifyTickInterval = 1 * Second"

record verifySnapshot =
  vs_ContainerID :: string
  vs_RestartCount :: int
  vs_HealthcheckOptIn :: bool
  vs_VerifyWindow :: Duration
  vs_HealthcheckWindow :: Duration

text \<open>The sentinel, and \<open>fmt.Errorf("%w: %w", ErrVerifyFailed, &VerifyDetail{...})\<close>.\<close>

definition verify_canceled :: go_error where
  "verify_canceled =
     sentinel_error ErrVerifyCanceled ''actions: verify-after-recreate canceled by context''"

definition VerifyDetail_Error :: "VerifyDetail \<Rightarrow> go_error" where
  "VerifyDetail_Error d =
     \<lparr>err_text = vd_Reason d, err_chain = [ErrVerifyFailed], err_detail = Some d\<rparr>"

definition verify_failed :: "VerifyDetail \<Rightarrow> go_error" where
  "verify_failed d =
     wrap2 (sentinel_error ErrVerifyFailed ''actions: verify-after-recreate failed'') (VerifyDetail_Error d)"

text \<open>What one inspect of the container means for the loop.\<close>

datatype verdict = Fail go_error | Succeed | GoodTick

definition judge ::
  "verifySnapshot \<Rightarrow> Duration \<Rightarrow> InspectResponse result \<Rightarrow> verdict" where
  "judge snap verifyWindow r =
     (case r of
        Inl err \<Rightarrow>
          if errors_Is err CtxCanceled then Fail verify_canceled
          else Fail (verify_failed \<lparr>vd_RestartCount = 0, vd_Running = False,
                 vd_ContainerID = vs_ContainerID snap,
                 vd_Reason = ''ContainerInspect failed: '' @ err_text err\<rparr>)
      | Inr insp \<Rightarrow>
          (case in_State insp of
             None \<Rightarrow> Fail (verify_failed \<lparr>vd_RestartCount = 0, vd_Running = False,
                 vd_ContainerID = vs_ContainerID snap, vd_Reason = ''container state nil''\<rparr>)
           | Some s \<Rightarrow>
               if \<not> rs_Running s then
                 Fail (verify_failed \<lparr>vd_RestartCount = in_RestartCount insp, vd_Running = False,
                   vd_ContainerID = vs_ContainerID snap, vd_Reason = ''container not running''\<rparr>)
               else if in_RestartCount insp > vs_RestartCount snap then
                 Fail (verify_failed \<lparr>vd_RestartCount = in_RestartCount insp, vd_Running = rs_Running s,
                   vd_ContainerID = vs_ContainerID snap,
                   vd_Reason = ''container restarted '' @ show_int (in_RestartCount insp - vs_RestartCount snap)
                     @ '' times in '' @ show_duration verifyWindow\<rparr>)
               else if vs_HealthcheckOptIn snap \<and> rs_Health s = Some ''unhealthy'' then
                 Fail (verify_failed \<lparr>vd_RestartCount = in_RestartCount insp, vd_Running = rs_Running s,
                   vd_ContainerID = vs_ContainerID snap, vd_Reason = ''healthcheck unhealthy''\<rparr>)
               else if vs_HealthcheckOptIn snap \<and> rs_Health s = Some ''healthy'' then Succeed
               else GoodTick))"

text \<open>
  The select between \<open>ctx.Done\<close> and the ticker: \<open>False\<close> when the context wins. On the
  first turn only \<open>ctx.Err\<close> is checked.
\<close>

definition await_tick :: "'w Env \<Rightarrow> bool \<Rightarrow> ('w, bool) io" where
  "await_tick E firstTick = do {
     done \<leftarrow> observe (ctx_done E);
     if firstTick then ret (\<not> done)
     else do {
       pick \<leftarrow> observe (sel_pick E);
       if done \<and> \<not> pick then ret False
       else do { emit (ESleep verifyTickInterval); ret True } } }"

function verify_loop ::
  "'w Env \<Rightarrow> verifySnapshot \<Rightarrow> Duration \<Rightarrow> Time \<Rightarrow> nat \<Rightarrow> nat \<Rightarrow> bool \<Rightarrow> bool \<Rightarrow> ('w, go_error option) io" where
  "verify_loop E snap verifyWindow deadline target consecutive sawHealthDeclared firstTick = do {
     go \<leftarrow> await_tick E firstTick;
     if \<not> go then ret (Some verify_canceled)
     else do {
       now \<leftarrow> observe (time_Now E);
       if After now deadline then
         (if vs_HealthcheckOptIn snap \<and> \<not> sawHealthDeclared then ret None
          else ret (Some (verify_failed \<lparr>vd_RestartCount = 0, vd_Running = False,
                 vd_ContainerID = vs_ContainerID snap,
                 vd_Reason = ''did not reach '' @ show_nat target @ '' consecutive healthy ticks within ''
                   @ show_duration verifyWindow\<rparr>)))
       else do {
         r \<leftarrow> ContainerInspect E (vs_ContainerID snap);
         case judge snap verifyWindow r of
           Fail e \<Rightarrow> ret (Some e)
         | Succeed \<Rightarrow> ret None
         | GoodTick \<Rightarrow>
             if consecutive + 1 \<ge> target then ret None
             else verify_loop E snap verifyWindow deadline target (consecutive + 1) sawHealthDeclared False } } }"
  by pat_completeness auto
termination
  by (relation "measure (\<lambda>(E, snap, win, dl, target, n, saw, first). target - n)") auto

declare verify_loop.simps [simp del]

definition verify_target :: "Duration \<Rightarrow> nat" where
  "verify_target verifyWindow =
     (let t = verifyWindow div verifyTickInterval in if t < 1 then 1 else nat t)"

definition verifyAfterRecreate :: "'w Env \<Rightarrow> verifySnapshot \<Rightarrow> ('w, go_error option) io" where
  "verifyAfterRecreate E snap = do {
     let verifyWindow = (if vs_VerifyWindow snap \<le> 0 then defaultVerifyWindow else vs_VerifyWindow snap);
     let healthcheckWindow = (if vs_HealthcheckWindow snap \<le> 0 then defaultHealthcheckWindow
                              else vs_HealthcheckWindow snap);
     now \<leftarrow> observe (time_Now E);
     let deadline0 = now + wrap64 (verifyWindow + 3 * verifyTickInterval);
     deadline \<leftarrow> (if vs_HealthcheckOptIn snap then do {
                    now2 \<leftarrow> observe (time_Now E);
                    ret (now2 + wrap64 (healthcheckWindow + 3 * verifyTickInterval)) }
                  else ret deadline0);
     verify_loop E snap verifyWindow deadline (verify_target verifyWindow) 0 False True }"

section \<open>Lemmas\<close>

lemma verify_error_class [simp]:
  "errors_Is (verify_failed d) ErrVerifyFailed"
  "errors_As (verify_failed d) = Some d"
  "errors_Is verify_canceled s \<longleftrightarrow> s = ErrVerifyCanceled"
  "errors_As verify_canceled = None"
  "\<not> errors_Is (verify_failed d) ErrVerifyCanceled"
  by (auto simp: verify_failed_def verify_canceled_def VerifyDetail_Error_def errors_As_def wrap2_def
      sentinel_error_def errors_Is_def)

lemma judge_Fail: "judge snap win r = Fail e \<Longrightarrow> e = verify_canceled \<or> (\<exists>d. e = verify_failed d \<and>
    vd_ContainerID d = vs_ContainerID snap)"
  by (auto simp: judge_def split: sum.splits option.splits if_splits)

lemma judge_Succeed:
  "judge snap win r = Succeed \<Longrightarrow> vs_HealthcheckOptIn snap"
  by (auto simp: judge_def split: sum.splits option.splits if_splits)

lemma ensures_case_verdict [emits]:
  "(\<And>e. v = Fail e \<Longrightarrow> ensures (f e) Q) \<Longrightarrow> (v = Succeed \<Longrightarrow> ensures s Q) \<Longrightarrow>
   (v = GoodTick \<Longrightarrow> ensures g Q) \<Longrightarrow>
   ensures (case v of Fail e \<Rightarrow> f e | Succeed \<Rightarrow> s | GoodTick \<Rightarrow> g) Q"
  by (cases v) auto

lemma await_tick_emits [emits]:
  "Q False [] \<Longrightarrow> (first \<Longrightarrow> Q True []) \<Longrightarrow> (\<not> first \<Longrightarrow> Q True [ESleep verifyTickInterval])
   \<Longrightarrow> ensures (await_tick E first) Q"
  unfolding await_tick_def
proof (intro emits)
  fix dn
  assume "Q False []" "first" "first \<Longrightarrow> Q True []"
  then show "Q (\<not> dn) ([] @ [])" by (cases dn) auto
qed simp_all

text \<open>The inspects of a run of the loop: one per turn, a tick before each but the first.\<close>

definition watch :: "string \<Rightarrow> bool \<Rightarrow> nat \<Rightarrow> effect list" where
  "watch cid first n =
     (if first then tl else id)
       (concat (replicate n [ESleep verifyTickInterval, EContainerInspect cid]))"

lemma watch_simps [simp]:
  "watch cid b 0 = []"
  "watch cid False (Suc n) = ESleep verifyTickInterval # EContainerInspect cid # watch cid False n"
  "watch cid True (Suc n) = EContainerInspect cid # watch cid False n"
  by (auto simp: watch_def)

definition loop_outcome ::
  "verifySnapshot \<Rightarrow> nat \<Rightarrow> nat \<Rightarrow> bool \<Rightarrow> go_error option \<Rightarrow> effect list \<Rightarrow> bool" where
  "loop_outcome snap target n first r es \<longleftrightarrow>
     (\<exists>k tick. es = watch (vs_ContainerID snap) first k @ tick \<and>
        (tick = [] \<or> tick = [ESleep verifyTickInterval]) \<and> n + k \<le> max target (n + 1) \<and>
        (r = None \<and> \<not> vs_HealthcheckOptIn snap \<longrightarrow> tick = [] \<and> n + k = max target (n + 1)) \<and>
        (\<forall>e. r = Some e \<longrightarrow> e = verify_canceled \<or>
           (\<exists>d. e = verify_failed d \<and> vd_ContainerID d = vs_ContainerID snap)))"

lemma loop_outcome_now:
  "loop_outcome snap target n first (Some verify_canceled) []"
  "tick = [] \<or> tick = [ESleep verifyTickInterval] \<Longrightarrow> vs_HealthcheckOptIn snap \<Longrightarrow>
     loop_outcome snap target n first None tick"
  "tick = [] \<or> tick = [ESleep verifyTickInterval] \<Longrightarrow> vd_ContainerID d = vs_ContainerID snap \<Longrightarrow>
     loop_outcome snap target n first (Some (verify_failed d)) tick"
  unfolding loop_outcome_def by (rule exI [of _ 0], fastforce)+

lemma loop_outcome_turn:
  assumes "pre = watch (vs_ContainerID snap) first 1"
  shows "(r = None \<longrightarrow> vs_HealthcheckOptIn snap \<or> target \<le> n + 1) \<Longrightarrow>
      (\<forall>e. r = Some e \<longrightarrow> e = verify_canceled \<or>
         (\<exists>d. e = verify_failed d \<and> vd_ContainerID d = vs_ContainerID snap)) \<Longrightarrow>
      loop_outcome snap target n first r pre"
    and "loop_outcome snap target (n + 1) False r es \<Longrightarrow> n + 1 < target \<Longrightarrow>
      loop_outcome snap target n first r (pre @ es)"
proof -
  assume "r = None \<longrightarrow> vs_HealthcheckOptIn snap \<or> target \<le> n + 1"
    and "\<forall>e. r = Some e \<longrightarrow> e = verify_canceled \<or>
         (\<exists>d. e = verify_failed d \<and> vd_ContainerID d = vs_ContainerID snap)"
  then show "loop_outcome snap target n first r pre"
    unfolding loop_outcome_def assms by (intro exI [of _ 1] exI [of _ "[]"]) auto
next
  assume "loop_outcome snap target (n + 1) False r es" and lt: "n + 1 < target"
  then obtain k tick where "es = watch (vs_ContainerID snap) False k @ tick"
    and "tick = [] \<or> tick = [ESleep verifyTickInterval]" and "(n + 1) + k \<le> max target (n + 1 + 1)"
    and "r = None \<and> \<not> vs_HealthcheckOptIn snap \<longrightarrow> tick = [] \<and> (n + 1) + k = max target (n + 1 + 1)"
    and "\<forall>e. r = Some e \<longrightarrow> e = verify_canceled \<or>
         (\<exists>d. e = verify_failed d \<and> vd_ContainerID d = vs_ContainerID snap)"
    unfolding loop_outcome_def by blast
  moreover have "pre @ watch (vs_ContainerID snap) False k = watch (vs_ContainerID snap) first (Suc k)"
    unfolding assms by (cases first) auto
  ultimately show "loop_outcome snap target n first r (pre @ es)"
    unfolding loop_outcome_def using lt by (intro exI [of _ "Suc k"] exI [of _ tick]) auto
qed

lemma verify_loop_outcome:
  "ensures (verify_loop E snap win dl target n saw first) (loop_outcome snap target n first)"
proof (induction E snap win dl target n saw first rule: verify_loop.induct)
  case (1 E snap win dl target n saw first)
  define tk where "tk = (if first then [] else [ESleep verifyTickInterval])"
  have tick: "ensures (await_tick E first) Q" if "Q False []" and "Q True tk" for Q
    using that by (intro emits) (simp_all add: tk_def split: if_splits)
  have tk: "tk = [] \<or> tk = [ESleep verifyTickInterval]" by (simp add: tk_def)
  have pre: "tk @ [EContainerInspect (vs_ContainerID snap)] = watch (vs_ContainerID snap) first 1"
    by (simp add: tk_def)
  have turn: "loop_outcome snap target n first r (tk @ [] @ [EContainerInspect (vs_ContainerID snap)] @ [])"
    if "r = None \<longrightarrow> vs_HealthcheckOptIn snap \<or> target \<le> n + 1"
      and "\<forall>e. r = Some e \<longrightarrow> e = verify_canceled \<or>
        (\<exists>d. e = verify_failed d \<and> vd_ContainerID d = vs_ContainerID snap)" for r
    using loop_outcome_turn(1) [OF pre that] by simp
  show ?case
    apply (subst verify_loop.simps)
    apply (rule ensures_bind, rule tick)
    subgoal by (auto intro!: emits loop_outcome_now)
    subgoal
      apply (simp only: not_True_eq_False if_False)
      apply (intro emits)
      subgoal using tk by (simp add: loop_outcome_now)
      subgoal using tk by (simp add: loop_outcome_now)
      subgoal for now r e by (rule turn) (auto dest: judge_Fail)
      subgoal for now r by (rule turn) (auto dest: judge_Succeed)
      subgoal by (rule turn) auto
      subgoal for now r
        by (rule ensures_weaken [OF 1])
           (use loop_outcome_turn(2) [OF pre] in \<open>auto simp: not_le\<close>)
      done
    done
qed

definition effective_window :: "verifySnapshot \<Rightarrow> Duration" where
  "effective_window snap = (if vs_VerifyWindow snap \<le> 0 then defaultVerifyWindow else vs_VerifyWindow snap)"

lemma verify_target_pos: "1 \<le> verify_target win"
  by (auto simp: verify_target_def Let_def)

lemma verifyAfterRecreate_outcome:
  "ensures (verifyAfterRecreate E snap) (loop_outcome snap (verify_target (effective_window snap)) 0 True)"
  unfolding verifyAfterRecreate_def Let_def effective_window_def [symmetric]
  by (intro emits) (auto intro!: emits ensures_weaken [OF verify_loop_outcome])

lemma live_tick:
  "ctx_live E \<Longrightarrow> Q True (if first then [] else [ESleep verifyTickInterval]) \<Longrightarrow> ensures (await_tick E first) Q"
  unfolding await_tick_def ctx_live_def ensures_def
  by (auto split: prod.splits) (metis fst_conv)+

lemma good_loop:
  assumes "ctx_live E" and "answers (time_Now E) t" and "\<not> After t dl"
    and insp: "answers (sdk_ContainerInspect E (vs_ContainerID snap)) (Inr insp)"
    and good: "judge snap win (Inr insp) = GoodTick"
  shows "ensures (verify_loop E snap win dl target n saw first)
    (\<lambda>r es. r = None \<and> es = watch (vs_ContainerID snap) first (max target (n + 1) - n))"
  using assms
proof (induction E snap win dl target n saw first rule: verify_loop.induct)
  case (1 E snap win dl target n saw first)
  let ?tk = "if first then [] else [ESleep verifyTickInterval]"
  have one: "?tk @ [EContainerInspect (vs_ContainerID snap)] @ watch (vs_ContainerID snap) False k =
      watch (vs_ContainerID snap) first (Suc k)" for k by simp
  have IH: "ensures (verify_loop E snap win dl target (n + 1) saw False)
      (\<lambda>r es. r = None \<and> es = watch (vs_ContainerID snap) False (max target (n + 1 + 1) - (n + 1)))"
    if "\<not> target \<le> n + 1"
    using 1(1) [OF _ 1(4) _ that 1(2-6)] 1(6) by simp
  show ?case
    apply (subst verify_loop.simps)
    apply (rule ensures_bind, rule live_tick [OF 1(2)])
    apply (simp only: not_True_eq_False if_False)
    apply (rule ensures_bind, rule observe_answers [OF 1(3)])
    apply (simp only: 1(4) if_False)
    apply (rule ensures_bind, rule ContainerInspect_answers [OF 1(5)])
    apply (simp only: 1(6) verdict.case)
    apply (intro emits)
    subgoal using one [of 0] by (simp add: max_def)
    subgoal
      apply (rule ensures_weaken [OF IH])
      apply assumption
      subgoal premises prems for b es
      proof -
        from prems have "max target (n + 1 + 1) - (n + 1) = target - (n + 1)"
          and "Suc (target - (n + 1)) = max target (n + 1) - n" by auto
        with prems one [of "target - (n + 1)"] show ?thesis by simp
      qed
      done
    done
qed

section \<open>Properties\<close>

text \<open>
  C18. The verify loop always returns, after at most as many inspects as the window
  has ticks, and its verdict is typed: it is success, or the cancellation sentinel
  without a detail, or \<open>ErrVerifyFailed\<close> with a detail that names the watched
  container. Without the healthcheck opt-in, success means that the container was
  inspected once per tick for the whole window.
\<close>

theorem verify_outcomes:
  assumes "run_state (verifyAfterRecreate E snap) w = (r, w')"
  shows "\<exists>k tick.
    trace w' = trace w @ watch (vs_ContainerID snap) True k @ tick
    \<and> k \<le> verify_target (effective_window snap) \<and> (tick = [] \<or> tick = [ESleep (1 * Second)])
    \<and> (r = None \<and> \<not> vs_HealthcheckOptIn snap \<longrightarrow> tick = [] \<and> k = verify_target (effective_window snap))
    \<and> (\<forall>e. r = Some e \<longrightarrow>
         errors_Is e ErrVerifyCanceled \<and> errors_As e = None \<or>
         errors_Is e ErrVerifyFailed \<and> \<not> errors_Is e ErrVerifyCanceled \<and>
         (\<exists>d. errors_As e = Some d \<and> vd_ContainerID d = vs_ContainerID snap))"
proof -
  from ensuresD [OF verifyAfterRecreate_outcome assms] obtain es where "trace w' = trace w @ es"
    and "loop_outcome snap (verify_target (effective_window snap)) 0 True r es" by blast
  moreover from this obtain k tick where
    "es = watch (vs_ContainerID snap) True k @ tick" "tick = [] \<or> tick = [ESleep verifyTickInterval]"
    "k \<le> verify_target (effective_window snap)"
    "r = None \<and> \<not> vs_HealthcheckOptIn snap \<longrightarrow> tick = [] \<and> k = verify_target (effective_window snap)"
    "\<forall>e. r = Some e \<longrightarrow> e = verify_canceled \<or>
       (\<exists>d. e = verify_failed d \<and> vd_ContainerID d = vs_ContainerID snap)"
    using verify_target_pos [of "effective_window snap"] unfolding loop_outcome_def
    by (simp add: max_absorb1 del: One_nat_def) blast
  ultimately show ?thesis
    by (intro exI [of _ k] exI [of _ tick]) (auto simp: verifyTickInterval_def)
qed

definition demo_snap :: verifySnapshot where
  "demo_snap =
     \<lparr>vs_ContainerID = ''new'', vs_RestartCount = 0, vs_HealthcheckOptIn = False,
      vs_VerifyWindow = 2 * Second, vs_HealthcheckWindow = 0\<rparr>"

theorem verify_outcomes_witness:
  "\<exists>k tick. trace (snd (run_state (verifyAfterRecreate demo_env demo_snap) world0)) =
     watch ''new'' True k @ tick \<and> k \<le> 2"
proof -
  have "verify_target (effective_window demo_snap) = 2"
    by (simp add: verify_target_def effective_window_def demo_snap_def verifyTickInterval_def Second_def
        nanosecond_per_second_def)
  with verify_outcomes [OF prod.collapse [symmetric], of demo_env demo_snap world0]
  show ?thesis by (auto simp: demo_snap_def world0_def)
qed

lemma good_verify:
  assumes "ctx_live E" and "answers (time_Now E) t"
    and "answers (sdk_ContainerInspect E (vs_ContainerID snap)) (Inr insp)"
    and "judge snap (effective_window snap) (Inr insp) = GoodTick"
    and "vs_VerifyWindow snap < 2 ^ 62" and "vs_HealthcheckWindow snap < 2 ^ 62"
  shows "ensures (verifyAfterRecreate E snap)
    (\<lambda>r es. r = None \<and> es = watch (vs_ContainerID snap) True (verify_target (effective_window snap)))"
proof -
  have loop: "ensures (verify_loop E snap (effective_window snap) dl (verify_target (effective_window snap)) 0 False True)
      (\<lambda>r es. r = None \<and> es = watch (vs_ContainerID snap) True (verify_target (effective_window snap)))"
    if "t \<le> dl" for dl
    using good_loop [OF assms(1,2) _ assms(3,4), of dl "verify_target (effective_window snap)" 0 False True]
      that verify_target_pos [of "effective_window snap"]
    by (simp add: After_def max_absorb1 del: One_nat_def)
  have "0 \<le> wrap64 (effective_window snap + 3 * verifyTickInterval)"
    and "0 \<le> wrap64 ((if vs_HealthcheckWindow snap \<le> 0 then defaultHealthcheckWindow else vs_HealthcheckWindow snap)
      + 3 * verifyTickInterval)"
    using assms(5,6) by (subst wrap64_small; auto simp: effective_window_def defaultVerifyWindow_def defaultHealthcheckWindow_def
        verifyTickInterval_def Second_def nanosecond_per_second_def)+
  then show ?thesis
    unfolding verifyAfterRecreate_def Let_def effective_window_def [symmetric]
    by (intro ensures_bind observe_answers [OF assms(2)] ensures_if)
       (auto intro!: emits observe_answers [OF assms(2)] ensures_weaken [OF loop])
qed

text \<open>
  The healthcheck opt-in does not wait for health: a container that stays in
  the health state \<open>starting\<close> is reported verified once the plain window has passed
  (15 inspects by default), whatever the healthcheck window.
\<close>

theorem starting_counts_as_verified:
  assumes "ctx_live E" and "answers (time_Now E) t"
    and "answers (sdk_ContainerInspect E (vs_ContainerID snap)) (Inr insp)"
    and "in_State insp = Some \<lparr>rs_Running = True, rs_Health = Some ''starting''\<rparr>"
    and "in_RestartCount insp \<le> vs_RestartCount snap"
    and "vs_HealthcheckOptIn snap" and "vs_VerifyWindow snap = 15 * Second" and "vs_HealthcheckWindow snap < 2 ^ 62"
    and "run_state (verifyAfterRecreate E snap) w = (r, w')"
  shows "r = None \<and> trace w' = trace w @ watch (vs_ContainerID snap) True 15"
proof -
  have "effective_window snap = 15 * Second" and "verify_target (15 * Second) = 15"
    using assms(7)
    by (simp_all add: effective_window_def verify_target_def verifyTickInterval_def Second_def
        nanosecond_per_second_def)
  moreover have "judge snap (effective_window snap) (Inr insp) = GoodTick"
    using assms(4-6) by (simp add: judge_def)
  ultimately show ?thesis
    using ensuresD [OF good_verify [OF assms(1-3) _ _ assms(8)] assms(9)] assms(7)
    by (simp add: Second_def nanosecond_per_second_def)
qed

definition starting_env :: "unit Env" where
  "starting_env = demo_env\<lparr>sdk_ContainerInspect := (\<lambda>_ x.
     (Inr (demo_inspect\<lparr>in_State := Some \<lparr>rs_Running = True, rs_Health = Some ''starting''\<rparr>\<rparr>), x))\<rparr>"

definition optin_snap :: verifySnapshot where
  "optin_snap = demo_snap\<lparr>vs_HealthcheckOptIn := True, vs_VerifyWindow := 15 * Second,
     vs_HealthcheckWindow := 60 * Second\<rparr>"

theorem starting_counts_as_verified_witness:
  "fst (run_state (verifyAfterRecreate starting_env optin_snap) world0) = None \<and>
   trace (snd (run_state (verifyAfterRecreate starting_env optin_snap) world0)) = watch ''new'' True 15"
  using starting_counts_as_verified [of starting_env 0 optin_snap
      "demo_inspect\<lparr>in_State := Some \<lparr>rs_Running = True, rs_Health = Some ''starting''\<rparr>\<rparr>",
      OF _ _ _ _ _ _ _ _ prod.collapse [symmetric], of world0]
  by (simp add: ctx_live_def answers_def starting_env_def demo_env_def optin_snap_def demo_snap_def
      demo_inspect_def world0_def Second_def nanosecond_per_second_def)

end
