(* ===== verification/Compose_Reader.thy ===== *)
theory Compose_Reader
  imports Recreate
begin

text \<open>
  \<open>internal/compose/reader.go\<close>: the boot snapshot of the compose file and the drift
  check before every action. \<open>fmt\<close> stands for \<open>Format(time.RFC3339Nano)\<close> of a time
  in its location; the text of a drift error is all it reaches.
\<close>

record Reader =
  rd_path :: string
  rd_bootInode :: nat
  rd_bootModTime :: Time
  rd_bootSize :: int
  rd_bootInodeStable :: bool

definition compose_file_moved :: go_error where
  "compose_file_moved = sentinel_error ErrComposeFileMoved ''compose: file moved or replaced since boot''"

text \<open>\<open>None\<close> when the platform has no inode or reports inode 0.\<close>

definition statInode :: "FileInfo \<Rightarrow> nat option" where
  "statInode info = (case fi_Inode info of None \<Rightarrow> None | Some i \<Rightarrow> if i = 0 then None else Some i)"

definition captureBootSnapshot :: "FileInfo result \<Rightarrow> Reader \<Rightarrow> Reader result" where
  "captureBootSnapshot stat r =
     (case stat of
        Inl err \<Rightarrow> Inl err
      | Inr info \<Rightarrow>
          (let r1 = r\<lparr>rd_bootModTime := fi_ModTime info, rd_bootSize := fi_Size info\<rparr>
           in case statInode info of
                Some i \<Rightarrow> Inr (r1\<lparr>rd_bootInode := i, rd_bootInodeStable := True\<rparr>)
              | None \<Rightarrow> Inr (r1\<lparr>rd_bootInodeStable := False\<rparr>)))"

definition NewReader :: "'w Env \<Rightarrow> string \<Rightarrow> ('w, Reader result) io" where
  "NewReader E path =
     (if path = '''' then
        ret (Inl (errors_New ''compose.NewReader: empty path (set DOCKER_UPDATE_COMPOSE_PATH)''))
      else do {
        stat \<leftarrow> observe (os_Stat E path);
        ret (map_sum (wrap ''compose.NewReader: '') id
          (captureBootSnapshot stat
             \<lparr>rd_path = path, rd_bootInode = 0, rd_bootModTime = 0, rd_bootSize = 0,
              rd_bootInodeStable = False\<rparr>)) })"

definition drift_text :: "(Time \<Rightarrow> string) \<Rightarrow> Reader \<Rightarrow> FileInfo \<Rightarrow> string" where
  "drift_text fmt r info =
     ''compose.CheckUnchanged '' @ rd_path r @ '': mtime/size drift (boot mtime=''
       @ fmt (rd_bootModTime r) @ '' size='' @ show_int (rd_bootSize r) @ '', now mtime=''
       @ fmt (fi_ModTime info) @ '' size='' @ show_int (fi_Size info) @ ''): ''"

definition inode_text :: "Reader \<Rightarrow> nat \<Rightarrow> string" where
  "inode_text r i =
     ''compose.CheckUnchanged '' @ rd_path r @ '': inode drift (boot='' @ show_nat (rd_bootInode r)
       @ '', now='' @ show_nat i @ ''): ''"

definition check_stat :: "(Time \<Rightarrow> string) \<Rightarrow> Reader \<Rightarrow> FileInfo result \<Rightarrow> go_error option" where
  "check_stat fmt r stat =
     (case stat of
        Inl err \<Rightarrow>
          Some (wrap (''compose.CheckUnchanged stat '' @ rd_path r @ '': '') (wrap2 compose_file_moved err))
      | Inr info \<Rightarrow>
          if fi_ModTime info \<noteq> rd_bootModTime r \<or> fi_Size info \<noteq> rd_bootSize r then
            Some (wrap (drift_text fmt r info) compose_file_moved)
          else if rd_bootInodeStable r then
            (case statInode info of
               Some i \<Rightarrow>
                 if i \<noteq> rd_bootInode r then
                   Some (wrap (inode_text r i) compose_file_moved)
                 else None
             | None \<Rightarrow> None)
          else None)"

definition CheckUnchanged :: "'w Env \<Rightarrow> (Time \<Rightarrow> string) \<Rightarrow> Reader \<Rightarrow> ('w, go_error option) io" where
  "CheckUnchanged E fmt r = do {
     stat \<leftarrow> observe (os_Stat E (rd_path r));
     ret (check_stat fmt r stat) }"

lemma only_CheckUnchanged [allows]: "only P (CheckUnchanged E fmt r)"
  unfolding CheckUnchanged_def by (intro allows)

lemma CheckUnchanged_emits [emits]: "(\<And>e. Q e []) \<Longrightarrow> ensures (CheckUnchanged E fmt r) Q"
  unfolding CheckUnchanged_def by (intro emits) simp

lemma check_stat_moved: "check_stat fmt r stat = Some e \<Longrightarrow> errors_Is e ErrComposeFileMoved"
  by (auto simp: check_stat_def compose_file_moved_def split: sum.splits if_splits option.splits)

lemma CheckUnchanged_moved:
  "(\<And>e. errors_Is e ErrComposeFileMoved \<Longrightarrow> Q (Some e) []) \<Longrightarrow> Q None [] \<Longrightarrow> ensures (CheckUnchanged E fmt r) Q"
  unfolding CheckUnchanged_def
  by (intro ensures_bind ensures_observe ensures_return) (metis append_Nil check_stat_moved option.exhaust)

text \<open>
  C35. The drift check passes exactly when the file can be read, has the modification
  time and the size of the boot snapshot, and, where both stats report an inode,
  the same inode; so an edit in place and an atomic replacement that keeps time and
  size are both caught. Every refusal is \<open>ErrComposeFileMoved\<close>, and a vanished file
  keeps the operating system's error on the chain.
\<close>

theorem drift_check_exact:
  assumes "run_state (NewReader E path) w = (Inr r, w')"
  shows "\<exists>info0. fst (os_Stat E path (ext w)) = Inr info0 \<and>
    (\<forall>fmt stat.
      (check_stat fmt r stat = None \<longleftrightarrow>
        (\<exists>info. stat = Inr info \<and> fi_ModTime info = fi_ModTime info0 \<and> fi_Size info = fi_Size info0 \<and>
           (statInode info0 = None \<or> statInode info = None \<or> statInode info = statInode info0))) \<and>
      (\<forall>e. check_stat fmt r stat = Some e \<longrightarrow> errors_Is e ErrComposeFileMoved \<and>
         (\<forall>err s. stat = Inl err \<and> errors_Is err s \<longrightarrow> errors_Is e s)))"
proof -
  let ?r0 = "\<lparr>rd_path = path, rd_bootInode = 0, rd_bootModTime = 0, rd_bootSize = 0,
      rd_bootInodeStable = False\<rparr>"
  from assms obtain info0 where stat0: "fst (os_Stat E path (ext w)) = Inr info0"
    and "captureBootSnapshot (Inr info0) ?r0 = Inr r"
    by (auto simp: NewReader_def captureBootSnapshot_def Let_def
        split: if_splits prod.splits sum.splits option.splits)
  then have boot: "rd_bootModTime r = fi_ModTime info0" "rd_bootSize r = fi_Size info0"
    "rd_bootInodeStable r \<longleftrightarrow> statInode info0 \<noteq> None"
    "statInode info0 \<noteq> None \<Longrightarrow> statInode info0 = Some (rd_bootInode r)"
    by (auto simp: captureBootSnapshot_def Let_def split: option.splits)
  have passes: "check_stat fmt r stat = None \<longleftrightarrow>
        (\<exists>info. stat = Inr info \<and> fi_ModTime info = fi_ModTime info0 \<and> fi_Size info = fi_Size info0 \<and>
           (statInode info0 = None \<or> statInode info = None \<or> statInode info = statInode info0))" for fmt stat
  proof (cases stat)
    case (Inr info)
    show ?thesis
    proof (cases "statInode info0 = None \<or> statInode info = None")
      case True
      with Inr boot(1-3) show ?thesis by (auto simp: check_stat_def)
    next
      case False
      then obtain i where "statInode info = Some i" and "statInode info0 = Some (rd_bootInode r)"
        using boot(4) by auto
      with Inr boot(1-3) show ?thesis by (auto simp: check_stat_def)
    qed
  qed (simp add: check_stat_def)
  have refuses: "errors_Is e ErrComposeFileMoved \<and> (\<forall>err s. stat = Inl err \<and> errors_Is err s \<longrightarrow> errors_Is e s)"
    if "check_stat fmt r stat = Some e" for fmt stat e
  proof (cases stat)
    case (Inl err)
    with that have "e = wrap (''compose.CheckUnchanged stat '' @ rd_path r @ '': '') (wrap2 compose_file_moved err)"
      by (simp add: check_stat_def)
    with Inl show ?thesis by (simp add: compose_file_moved_def)
  next
    case (Inr info)
    have "\<exists>p. e = wrap p compose_file_moved"
      using that unfolding Inr check_stat_def by (auto split: if_splits option.splits)
    then obtain p where "e = wrap p compose_file_moved" by blast
    with Inr show ?thesis by (simp add: compose_file_moved_def)
  qed
  show ?thesis
    using passes refuses stat0 by (intro exI [of _ info0] conjI allI impI) simp_all
qed

theorem drift_check_exact_witness:
  "\<exists>r. fst (run_state (NewReader demo_env ''compose.yml'') world0) = Inr r \<and>
     check_stat (\<lambda>_. '''') r (Inr \<lparr>fi_ModTime = 1, fi_Size = 0, fi_Inode = None\<rparr>) \<noteq> None"
proof -
  have run: "run_state (NewReader demo_env ''compose.yml'') world0 =
      (Inr \<lparr>rd_path = ''compose.yml'', rd_bootInode = 0, rd_bootModTime = 0, rd_bootSize = 0,
           rd_bootInodeStable = False\<rparr>, world0)"
    by (simp add: NewReader_def captureBootSnapshot_def statInode_def demo_env_def world0_def Let_def)
  have "fst (os_Stat demo_env ''compose.yml'' (ext world0)) = Inr \<lparr>fi_ModTime = 0, fi_Size = 0, fi_Inode = None\<rparr>"
    by (simp add: demo_env_def)
  with drift_check_exact [OF run] have "\<forall>fmt stat. check_stat fmt
      \<lparr>rd_path = ''compose.yml'', rd_bootInode = 0, rd_bootModTime = 0, rd_bootSize = 0,
           rd_bootInodeStable = False\<rparr> stat = None \<longrightarrow> (\<exists>info. stat = Inr info \<and> fi_ModTime info = 0)"
    by (metis FileInfo.select_convs(1) sum.inject(2))
  then show ?thesis unfolding run by fastforce
qed

end
