(* ===== verification/Orchestrator.thy ===== *)
theory Orchestrator
  imports Verify Compose_Reader Document
begin

text \<open>
  \<open>internal/actions/orchestrator.go\<close>: the update, rollback and force-pull actions.
  Each handler is a computation over the daemon, the registry, the compose file and
  the clock; what it changes in the document is the sequence of messages it sends.
\<close>

section \<open>Data\<close>

record ActionResult =
  ar_CurrentDigest :: string
  ar_PreviousDigest :: string
  ar_NoOp :: bool

record actionOrchestrator =
  oc_composeReader :: "Reader option"
  oc_fmt :: "Time \<Rightarrow> string"
  oc_selfService :: string
  oc_verifyWindow :: Duration
  oc_healthcheckWindow :: Duration

text \<open>The dependencies that must not be nil, as flags; then the defaults.\<close>

definition NewOrchestrator ::
  "bool \<Rightarrow> bool \<Rightarrow> Reader option \<Rightarrow> (Time \<Rightarrow> string) \<Rightarrow> bool \<Rightarrow> bool \<Rightarrow> string \<Rightarrow> Duration \<Rightarrow> Duration
   \<Rightarrow> actionOrchestrator result" where
  "NewOrchestrator hasDocker hasResolver composeReader fmt hasStore hasUpdates selfService verifyWindow
     healthcheckWindow =
     (if \<not> hasDocker then Inl (errors_New ''actions.NewOrchestrator: nil docker.Client'')
      else if \<not> hasResolver then Inl (errors_New ''actions.NewOrchestrator: nil registry.Resolver'')
      else if \<not> hasStore then Inl (errors_New ''actions.NewOrchestrator: nil *state.Store'')
      else if \<not> hasUpdates then Inl (errors_New ''actions.NewOrchestrator: nil updates channel'')
      else Inr \<lparr>oc_composeReader = composeReader, oc_fmt = fmt,
                oc_selfService = (if selfService = '''' then ''docker-update'' else selfService),
                oc_verifyWindow = (if verifyWindow \<le> 0 then defaultVerifyWindow else verifyWindow),
                oc_healthcheckWindow =
                  (if healthcheckWindow \<le> 0 then defaultHealthcheckWindow else healthcheckWindow)\<rparr>)"

section \<open>Sentinel errors (errors.go)\<close>

definition service_busy :: go_error where
  "service_busy = sentinel_error ErrServiceBusy ''actions: service busy (per-service mutex held)''"

definition compose_failed :: go_error where
  "compose_failed = sentinel_error ErrComposeFailed ''actions: compose runner returned non-zero exit''"

definition pull_failed :: go_error where
  "pull_failed = sentinel_error ErrPullFailed ''actions: docker pull failed or digest mismatch''"

definition no_previous_digest :: go_error where
  "no_previous_digest = sentinel_error ErrNoPreviousDigest
     ''actions: rollback requires a recorded previous digest (no_previous_digest)''"

definition not_a_downgrade :: go_error where
  "not_a_downgrade = sentinel_error ErrNotADowngrade
     ''actions: rollback candidate is not strictly older than current (not_a_downgrade)''"

section \<open>Messages\<close>

definition action_start_msg :: "string \<Rightarrow> string \<Rightarrow> StateUpdate" where
  "action_start_msg service what =
     \<lparr>upd_Kind = KindActionStart, upd_Service = service,
      Apply = with_row service (\<lambda>c. c\<lparr>ActionInFlight := what, ActionError := ''''\<rparr>)\<rparr>"

definition progress_msg :: "string \<Rightarrow> StateUpdate" where
  "progress_msg service =
     \<lparr>upd_Kind = KindActionProgress, upd_Service = service, Apply = (\<lambda>st. st)\<rparr>"

definition update_swap_msg :: "string \<Rightarrow> Container \<Rightarrow> string \<Rightarrow> Time \<Rightarrow> StateUpdate" where
  "update_swap_msg service snapshot newDigest swapTime =
     (let prevToWrite = (if CurrentDigest snapshot = '''' then ImageRepo snapshot else CurrentDigest snapshot);
          shouldRecordPrevious = (prevToWrite \<noteq> '''' \<and> prevToWrite \<noteq> newDigest)
      in \<lparr>upd_Kind = KindActionProgress, upd_Service = service,
          Apply = with_row service (\<lambda>c.
            (if shouldRecordPrevious
             then c\<lparr>PreviousDigest := prevToWrite, PreviousDigestAt := swapTime,
                    PreviousDigestBuiltAt := CurrentDigestAt snapshot\<rparr> else c)
            \<lparr>CurrentDigest := newDigest, UpdateAvailable := False\<rparr>)\<rparr>)"

definition rollback_swap_msg :: "string \<Rightarrow> Container \<Rightarrow> string \<Rightarrow> Time \<Rightarrow> StateUpdate" where
  "rollback_swap_msg service snapshot newCurrent swapTime =
     (let oldCurrent = CurrentDigest snapshot;
          shouldRecordPrevious = (oldCurrent \<noteq> '''' \<and> oldCurrent \<noteq> newCurrent)
      in \<lparr>upd_Kind = KindActionProgress, upd_Service = service,
          Apply = with_row service (\<lambda>c0.
            let c1 = (if shouldRecordPrevious
                      then c0\<lparr>PreviousDigest := oldCurrent, PreviousDigestAt := swapTime,
                              PreviousDigestBuiltAt := CurrentDigestAt snapshot\<rparr> else c0);
                c2 = c1\<lparr>CurrentDigest := newCurrent\<rparr>
            in if AvailableDigest c2 \<noteq> ''''
               then c2\<lparr>UpdateAvailable := (CurrentDigest c2 \<noteq> AvailableDigest c2)\<rparr> else c2)\<rparr>)"

definition action_done_msg :: "string \<Rightarrow> StateUpdate" where
  "action_done_msg service =
     \<lparr>upd_Kind = KindActionResult, upd_Service = service,
      Apply = with_row service (\<lambda>c. c\<lparr>ActionInFlight := '''', ActionError := ''''\<rparr>)\<rparr>"

definition force_pull_msg :: "string \<Rightarrow> string \<Rightarrow> StateUpdate" where
  "force_pull_msg service pulledDigest =
     \<lparr>upd_Kind = KindActionResult, upd_Service = service,
      Apply = with_row service (\<lambda>c0.
        let c1 = c0\<lparr>AvailableDigest := pulledDigest\<rparr>;
            c2 = (if CurrentDigest c1 \<noteq> '''' then c1\<lparr>UpdateAvailable := (CurrentDigest c1 \<noteq> pulledDigest)\<rparr>
                  else c1)
        in c2\<lparr>ActionInFlight := '''', ActionError := ''''\<rparr>)\<rparr>"

definition failure_msg :: "string \<Rightarrow> string \<Rightarrow> go_error \<Rightarrow> StateUpdate" where
  "failure_msg service phase err =
     \<lparr>upd_Kind = KindActionResult, upd_Service = service,
      Apply = with_row service (\<lambda>c. c\<lparr>ActionInFlight := '''',
        ActionError := phase @ ''_failed: '' @ err_text err\<rparr>)\<rparr>"

lemmas action_msg_defs = action_start_msg_def progress_msg_def update_swap_msg_def rollback_swap_msg_def
  action_done_msg_def force_pull_msg_def failure_msg_def

definition sendFailureResult :: "'w Env \<Rightarrow> string \<Rightarrow> string \<Rightarrow> go_error \<Rightarrow> ('w, unit) io" where
  "sendFailureResult E service phase err = send E (failure_msg service phase err)"

section \<open>Shared helpers\<close>

definition Digest :: "'w Env \<Rightarrow> string \<Rightarrow> ('w, string result) io" where
  "Digest E ref = extcall (EDigest ref) (reg_Digest E ref)"

text \<open>The decoder loop of \<open>drainPullStream\<close>.\<close>

fun drain_messages :: "pullJSONMessage list \<Rightarrow> go_error option \<Rightarrow> string \<Rightarrow> string result" where
  "drain_messages [] (Some err) digest = Inl (wrap ''drain pull stream: '' err)"
| "drain_messages [] None digest =
     (if digest = '''' then Inl (errors_New ''docker pull stream ended without aux digest'') else Inr digest)"
| "drain_messages (m # ms) fin digest =
     (if pm_Error m \<noteq> '''' then Inl (errors_New (''docker pull stream error: '' @ pm_Error m))
      else let digest1 = (if digest = '''' \<and> HasPrefix (pm_Status m) ''Digest: sha256:''
                          then TrimPrefix (pm_Status m) ''Digest: '' else digest)
           in case pm_Aux m of
                NoAux \<Rightarrow> drain_messages ms fin digest1
              | BadAux err \<Rightarrow> Inl (wrap ''drain pull stream: aux unmarshal: '' err)
              | Aux i d \<Rightarrow>
                  drain_messages ms fin (if d \<noteq> '''' then d else if i \<noteq> '''' then i else digest1))"

definition drainPullStream :: "PullStream \<Rightarrow> string result" where
  "drainPullStream rc = drain_messages (ps_messages rc) (ps_decode_end rc) ''''"

definition image_ref :: "string \<Rightarrow> string \<Rightarrow> string" where
  "image_ref repo tag = repo @ '':'' @ (if tag = '''' then ''latest'' else tag)"

definition pullAndVerifyDigest :: "'w Env \<Rightarrow> string \<Rightarrow> string \<Rightarrow> ('w, string result) io" where
  "pullAndVerifyDigest E repo tag = do {
     let ref = image_ref repo tag;
     r1 \<leftarrow> ImagePull E ref;
     case r1 of
       Inl err \<Rightarrow> ret (Inl (wrap_text pull_failed (''ImagePull '' @ ref @ '': '' @ err_text err)))
     | Inr rc \<Rightarrow>
         (case drainPullStream rc of
            Inl err \<Rightarrow> ret (Inl (wrap_text pull_failed (err_text err)))
          | Inr pulledDigest \<Rightarrow> do {
              r2 \<leftarrow> Digest E ref;
              case r2 of
                Inl err \<Rightarrow>
                  ret (Inl (wrap_text pull_failed (''registry.Digest '' @ ref @ '': '' @ err_text err)))
              | Inr registryDigest \<Rightarrow>
                  if pulledDigest \<noteq> registryDigest then
                    ret (Inl (wrap_text pull_failed (''pulled digest '' @ pulledDigest
                      @ '' does not match registry digest '' @ registryDigest @ '' (Pitfall 1)'')))
                  else ret (Inr pulledDigest) }) }"

definition inspectImageCreated :: "'w Env \<Rightarrow> string \<Rightarrow> string \<Rightarrow> ('w, Time option) io" where
  "inspectImageCreated E repo digest =
     (if digest = '''' then ret None
      else do {
        r \<leftarrow> ImageInspect E (if repo \<noteq> '''' then repo @ ''@'' @ digest else digest);
        r' \<leftarrow> (case r of Inr _ \<Rightarrow> ret r | Inl _ \<Rightarrow> ImageInspect E digest);
        ret (case r' of
               Inl _ \<Rightarrow> None
             | Inr img \<Rightarrow> if ii_Created img = '''' then None else parse_RFC3339 (ii_Created img)) })"

text \<open>The scan of one image's \<open>RepoDigests\<close>: whether it is the current one, and the digest picked.\<close>

fun scan_digests :: "string \<Rightarrow> string \<Rightarrow> string list \<Rightarrow> bool \<times> string" where
  "scan_digests cur picked [] = (False, picked)"
| "scan_digests cur picked (rd # rds) =
     (case Index rd ''@sha256:'' of
        None \<Rightarrow> scan_digests cur picked rds
      | Some at \<Rightarrow>
          (let d = drop (at + 1) rd
           in if cur \<noteq> '''' \<and> d = cur then (True, picked)
              else scan_digests cur (if picked = '''' then d else picked) rds))"

definition rollback_candidates :: "string \<Rightarrow> Time \<Rightarrow> ImageSummary list \<Rightarrow> (string \<times> int) list" where
  "rollback_candidates currentDigest currentCreated imgs =
     (let currentCreatedUnix = (if IsZero currentCreated then 0 else Unix currentCreated)
      in concat (map (\<lambda>img.
           case scan_digests currentDigest '''' (im_RepoDigests img) of (isCurrent, picked) \<Rightarrow>
             if isCurrent \<or> picked = '''' then []
             else if currentCreatedUnix > 0 \<and> im_Created img \<ge> currentCreatedUnix then []
             else [(picked, im_Created img)]) imgs))"

definition findFallbackRollbackTarget ::
  "'w Env \<Rightarrow> string \<Rightarrow> string \<Rightarrow> Time \<Rightarrow> ('w, string result) io" where
  "findFallbackRollbackTarget E repo currentDigest currentCreated =
     (if repo = '''' then ret (Inr '''')
      else do {
        r \<leftarrow> ImageList E repo;
        case r of
          Inl err \<Rightarrow> ret (Inl (wrap (''findFallbackRollbackTarget ImageList '' @ repo @ '': '') err))
        | Inr imgs \<Rightarrow>
            (case rollback_candidates currentDigest currentCreated imgs of
               [] \<Rightarrow> ret (Inr '''')
             | cands \<Rightarrow> do {
                 sorted_cands \<leftarrow> observe (sort_newest E cands);
                 ret (Inr (fst (hd sorted_cands))) }) })"

definition lookupContainerIDByService :: "'w Env \<Rightarrow> string \<Rightarrow> ('w, string result) io" where
  "lookupContainerIDByService E service = do {
     r \<leftarrow> ContainerList E True (''com.docker.compose.service='' @ service);
     case r of
       Inl err \<Rightarrow> ret (Inl err)
     | Inr [] \<Rightarrow> ret (Inl (errors_New (''no container found for service '' @ quote service)))
     | Inr (c # cs) \<Rightarrow> ret (Inr (cs_ID (newest_of c cs))) }"

definition inspectAndVerify ::
  "'w Env \<Rightarrow> actionOrchestrator \<Rightarrow> string \<Rightarrow> Container \<Rightarrow> ('w, go_error option) io" where
  "inspectAndVerify E oc service snapshot = do {
     r \<leftarrow> lookupContainerIDByService E service;
     case r of
       Inl err \<Rightarrow>
         ret (Some (verify_failed \<lparr>vd_RestartCount = 0, vd_Running = False,
           vd_ContainerID = ContainerID snapshot,
           vd_Reason = ''post-recreate ContainerList('' @ service @ '') failed: '' @ err_text err\<rparr>))
     | Inr newID \<Rightarrow>
         verifyAfterRecreate E
           \<lparr>vs_ContainerID = newID, vs_RestartCount = 0,
            vs_HealthcheckOptIn = (label snapshot ''hmi-update.wait-for-healthy'' = ''true''),
            vs_VerifyWindow = oc_verifyWindow oc, vs_HealthcheckWindow = oc_healthcheckWindow oc\<rparr> }"

section \<open>Locks and the drift check\<close>

text \<open>The prefix of every error an action returns from inside its lock.\<close>

definition action_prefix :: "string \<Rightarrow> string \<Rightarrow> string" where
  "action_prefix action service = ''actions.'' @ action @ '' '' @ service @ '': ''"

text \<open>
  \<open>lockService\<close> as its caller sees it; the theory of the mutexes has its inside. The
  body runs between the lock and the deferred unlock.
\<close>

definition with_lock :: "'w Env \<Rightarrow> string \<Rightarrow> string \<Rightarrow> ('w, 'a result) io \<Rightarrow> ('w, 'a result) io" where
  "with_lock E service prefix body = do {
     ok \<leftarrow> observe (env_trylock E service);
     if \<not> ok then ret (Inl (wrap prefix service_busy))
     else do {
       emit (ELock service);
       r \<leftarrow> body;
       emit (EUnlock service);
       ret r } }"

definition drift_check :: "'w Env \<Rightarrow> actionOrchestrator \<Rightarrow> ('w, go_error option) io" where
  "drift_check E oc =
     (case oc_composeReader oc of None \<Rightarrow> ret None | Some r \<Rightarrow> CheckUnchanged E (oc_fmt oc) r)"

definition snapshot_of :: "'w Env \<Rightarrow> string \<Rightarrow> ('w, Container option) io" where
  "snapshot_of E service = do { st \<leftarrow> observe (env_store E); ret (Containers st service) }"

section \<open>Update\<close>

text \<open>
  Recreate, record the swap, verify, and the result message: what Update and Rollback
  do once the right image has the tag.
\<close>

definition recreate_swap_verify ::
  "'w Env \<Rightarrow> actionOrchestrator \<Rightarrow> string \<Rightarrow> string \<Rightarrow> Container \<Rightarrow> (Time \<Rightarrow> StateUpdate) \<Rightarrow> ActionResult
   \<Rightarrow> ('w, ActionResult result) io" where
  "recreate_swap_verify E oc prefix service snapshot swap res = do {
     r \<leftarrow> recreate_Service E service;
     case r of
       Inl err \<Rightarrow> do {
         let wrapped = wrap2 compose_failed err;
         sendFailureResult E service ''compose'' wrapped;
         ret (Inl (wrap prefix wrapped)) }
     | Inr _ \<Rightarrow> do {
         swapTime \<leftarrow> observe (time_Now E);
         send E (swap swapTime);
         v \<leftarrow> inspectAndVerify E oc service snapshot;
         case v of
           Some err \<Rightarrow> do {
             sendFailureResult E service ''verify'' err;
             ret (Inl (wrap prefix err)) }
         | None \<Rightarrow> do {
             send E (action_done_msg service);
             ret (Inr res) } } }"

definition update_action ::
  "'w Env \<Rightarrow> actionOrchestrator \<Rightarrow> string \<Rightarrow> Container \<Rightarrow> ('w, ActionResult result) io" where
  "update_action E oc service snapshot = do {
     let prefix = action_prefix ''Update'' service;
     send E (action_start_msg service ''updating'');
     p \<leftarrow> pullAndVerifyDigest E (ImageRepo snapshot) (Tag snapshot);
     case p of
       Inl err \<Rightarrow> do {
         sendFailureResult E service ''pull'' err;
         ret (Inl (wrap prefix err)) }
     | Inr pulledDigest \<Rightarrow> do {
         send E (progress_msg service);
         recreate_swap_verify E oc prefix service snapshot
           (update_swap_msg service snapshot pulledDigest)
           \<lparr>ar_CurrentDigest = pulledDigest, ar_PreviousDigest = CurrentDigest snapshot, ar_NoOp = False\<rparr> } }"

definition Update :: "'w Env \<Rightarrow> actionOrchestrator \<Rightarrow> string \<Rightarrow> ('w, ActionResult result) io" where
  "Update E oc service = do {
     d \<leftarrow> drift_check E oc;
     case d of
       Some err \<Rightarrow> ret (Inl (wrap ''actions.Update: '' err))
     | None \<Rightarrow>
         with_lock E service (action_prefix ''Update'' service) (do {
           s \<leftarrow> snapshot_of E service;
           case s of
             None \<Rightarrow>
               ret (Inl (errors_New (''actions.Update: container '' @ quote service @ '' not in state'')))
           | Some snapshot \<Rightarrow>
               if AvailableDigest snapshot \<noteq> '''' \<and> CurrentDigest snapshot = AvailableDigest snapshot then
                 ret (Inr \<lparr>ar_CurrentDigest = CurrentDigest snapshot,
                           ar_PreviousDigest = PreviousDigest snapshot, ar_NoOp = True\<rparr>)
               else update_action E oc service snapshot }) }"

section \<open>Rollback\<close>

text \<open>The recorded previous digest, or empty when the daemon has neither form of it (BUG-7d, P9-J).\<close>

definition present_previous :: "'w Env \<Rightarrow> Container \<Rightarrow> ('w, string) io" where
  "present_previous E snapshot =
     (if PreviousDigest snapshot = '''' then ret ''''
      else do {
        r \<leftarrow> ImageInspect E (ImageRepo snapshot @ ''@'' @ PreviousDigest snapshot);
        case r of
          Inr _ \<Rightarrow> ret (PreviousDigest snapshot)
        | Inl _ \<Rightarrow> do {
            r2 \<leftarrow> ImageInspect E (PreviousDigest snapshot);
            case r2 of Inr _ \<Rightarrow> ret (PreviousDigest snapshot) | Inl _ \<Rightarrow> ret '''' } })"

definition fallback_target :: "'w Env \<Rightarrow> Container \<Rightarrow> ('w, string) io" where
  "fallback_target E snapshot = do {
     r \<leftarrow> findFallbackRollbackTarget E (ImageRepo snapshot) (CurrentDigest snapshot) (CurrentDigestAt snapshot);
     ret (case r of Inl _ \<Rightarrow> '''' | Inr d \<Rightarrow> d) }"

text \<open>The digest to roll back to: recorded, or found in the image cache (P9-I, BUG-7c).\<close>

definition rollback_target :: "'w Env \<Rightarrow> Container \<Rightarrow> ('w, string) io" where
  "rollback_target E snapshot = do {
     prev \<leftarrow> present_previous E snapshot;
     prev2 \<leftarrow> (if prev \<noteq> '''' \<and> prev = CurrentDigest snapshot then do {
                 peek \<leftarrow> fallback_target E snapshot;
                 ret (if peek \<noteq> '''' then '''' else prev) }
               else ret prev);
     if prev2 = '''' then fallback_target E snapshot else ret prev2 }"

definition newer_or_same :: "'w Env \<Rightarrow> Container \<Rightarrow> string \<Rightarrow> ('w, bool) io" where
  "newer_or_same E snapshot target =
     (if IsZero (CurrentDigestAt snapshot) then ret False
      else do {
        c \<leftarrow> inspectImageCreated E (ImageRepo snapshot) target;
        ret (case c of None \<Rightarrow> False | Some prevCreated \<Rightarrow> \<not> Before prevCreated (CurrentDigestAt snapshot)) })"

definition retag :: "'w Env \<Rightarrow> Container \<Rightarrow> string \<Rightarrow> ('w, go_error option) io" where
  "retag E snapshot target = do {
     let dst = image_ref (ImageRepo snapshot) (Tag snapshot);
     r \<leftarrow> ImageTag E (ImageRepo snapshot @ ''@'' @ target) dst;
     case r of
       None \<Rightarrow> ret None
     | Some tagErr \<Rightarrow> do {
         r2 \<leftarrow> ImageTag E target dst;
         ret (case r2 of None \<Rightarrow> None | Some _ \<Rightarrow> Some tagErr) } }"

definition rollback_action ::
  "'w Env \<Rightarrow> actionOrchestrator \<Rightarrow> string \<Rightarrow> Container \<Rightarrow> string \<Rightarrow> ('w, ActionResult result) io" where
  "rollback_action E oc service snapshot target = do {
     let prefix = action_prefix ''Rollback'' service;
     send E (action_start_msg service ''rolling_back'');
     t \<leftarrow> retag E snapshot target;
     case t of
       Some tagErr \<Rightarrow> do {
         let wrapped = wrap2 pull_failed tagErr;
         sendFailureResult E service ''pull'' wrapped;
         ret (Inl (wrap prefix wrapped)) }
     | None \<Rightarrow> do {
         send E (progress_msg service);
         recreate_swap_verify E oc prefix service snapshot
           (rollback_swap_msg service snapshot target)
           \<lparr>ar_CurrentDigest = target, ar_PreviousDigest = CurrentDigest snapshot, ar_NoOp = False\<rparr> } }"

definition Rollback :: "'w Env \<Rightarrow> actionOrchestrator \<Rightarrow> string \<Rightarrow> ('w, ActionResult result) io" where
  "Rollback E oc service = do {
     d \<leftarrow> drift_check E oc;
     case d of
       Some err \<Rightarrow> ret (Inl (wrap ''actions.Rollback: '' err))
     | None \<Rightarrow>
         with_lock E service (action_prefix ''Rollback'' service) (do {
           s \<leftarrow> snapshot_of E service;
           case s of
             None \<Rightarrow>
               ret (Inl (errors_New (''actions.Rollback: container '' @ quote service @ '' not in state'')))
           | Some snapshot \<Rightarrow> do {
               target \<leftarrow> rollback_target E snapshot;
               if target = '''' then
                 ret (Inl (wrap (action_prefix ''Rollback'' service) no_previous_digest))
               else if CurrentDigest snapshot = target then
                 ret (Inr \<lparr>ar_CurrentDigest = CurrentDigest snapshot, ar_PreviousDigest = target,
                           ar_NoOp = True\<rparr>)
               else do {
                 bad \<leftarrow> newer_or_same E snapshot target;
                 if bad then ret (Inl (wrap (action_prefix ''Rollback'' service) not_a_downgrade))
                 else rollback_action E oc service snapshot target } } }) }"

section \<open>ForcePull\<close>

definition ForcePull :: "'w Env \<Rightarrow> actionOrchestrator \<Rightarrow> string \<Rightarrow> bool \<Rightarrow> ('w, ActionResult result) io" where
  "ForcePull E oc service recreate =
     (if recreate then Update E oc service
      else with_lock E service (action_prefix ''ForcePull'' service) (do {
        s \<leftarrow> snapshot_of E service;
        case s of
          None \<Rightarrow>
            ret (Inl (errors_New (''actions.ForcePull: container '' @ quote service @ '' not in state'')))
        | Some snapshot \<Rightarrow> do {
            send E (action_start_msg service ''force_pulling'');
            p \<leftarrow> pullAndVerifyDigest E (ImageRepo snapshot) (Tag snapshot);
            case p of
              Inl err \<Rightarrow> do {
                sendFailureResult E service ''pull'' err;
                ret (Inl (wrap (action_prefix ''ForcePull'' service) err)) }
            | Inr pulledDigest \<Rightarrow> do {
                send E (force_pull_msg service pulledDigest);
                ret (Inr \<lparr>ar_CurrentDigest = CurrentDigest snapshot,
                          ar_PreviousDigest = PreviousDigest snapshot, ar_NoOp = False\<rparr>) } } }))"

section \<open>Effects of the parts\<close>

text \<open>
  Effects that reach neither the registry nor the channel nor the locks: what all
  the parts but the pull, the sends and the lock itself are made of.
\<close>

definition quiet :: "effect \<Rightarrow> bool" where
  "quiet e \<longleftrightarrow>
     (case e of EImagePull _ \<Rightarrow> False | EDigest _ \<Rightarrow> False | EManifest _ \<Rightarrow> False | ESend _ \<Rightarrow> False
      | ELock _ \<Rightarrow> False | EUnlock _ \<Rightarrow> False | _ \<Rightarrow> True)"

lemma quiet_simps [simp]:
  "quiet (EContainerList b l)" "quiet (EContainerInspect i)" "quiet (EImageInspect r)"
  "quiet (EImageTag x y)" "quiet (EImageList r)" "quiet (EContainerCreate opts)"
  "quiet (EContainerRemove i)" "quiet (EContainerStart i)" "quiet (EContainerStop i t)"
  "quiet (ENetworkConnect n i eps)" "quiet (ESleep t)"
  "\<not> quiet (EImagePull r)" "\<not> quiet (EDigest r)" "\<not> quiet (ESend u)" "\<not> quiet (ELock s)" "\<not> quiet (EUnlock s)"
  by (simp_all add: quiet_def)

lemma quiet_sends: "\<forall>e \<in> set es. quiet e \<Longrightarrow> sends es = []"
  by (induction es rule: sends.induct) auto

text \<open>Quiet effects that tag no image either.\<close>

definition calm :: "effect \<Rightarrow> bool" where
  "calm e \<longleftrightarrow> quiet e \<and> (\<forall>src dst. e \<noteq> EImageTag src dst)"

lemma calm_simps [simp]:
  "calm (EContainerList b l)" "calm (EContainerInspect i)" "calm (EImageInspect r)" "calm (EContainerCreate opts)"
  "calm (EContainerRemove i)" "calm (EContainerStart i)" "calm (EContainerStop i t)"
  "calm (ENetworkConnect n i eps)" "calm (ESleep t)"
  by (simp_all add: calm_def)

lemma calm_quiet: "calm e \<Longrightarrow> quiet e"
  by (simp add: calm_def)

lemma only_calm_connect [allows]: "only calm (connect_extras E cid ns)"
  by (induction ns) (auto intro!: allows)

lemma only_calm_recreate [allows]: "only calm (recreate_Service E svc)"
  unfolding recreate_Service_def refreshed_config_def replace_container_def Let_def
  by (intro allows) simp_all

lemma only_case_verdict [allows]:
  "(\<And>e. only P (f e)) \<Longrightarrow> only P s \<Longrightarrow> (v = GoodTick \<Longrightarrow> only P g) \<Longrightarrow>
   only P (case v of Fail e \<Rightarrow> f e | Succeed \<Rightarrow> s | GoodTick \<Rightarrow> g)"
  by (cases v) auto

lemma only_calm_loop [allows]: "only calm (verify_loop E snap win dl target n saw first)"
proof (induction E snap win dl target n saw first rule: verify_loop.induct)
  case (1 E snap win dl target n saw first)
  have IH: "only calm (verify_loop E snap win dl target (n + 1) saw False)"
    if "\<not> \<not> go" "\<not> After now dl" "judge snap win r = GoodTick" "\<not> target \<le> n + 1" for go now r
    using 1 that by blast
  show ?case
    by (subst verify_loop.simps) (unfold await_tick_def, intro allows, (rule IH, assumption+ | simp)+)
qed

lemma only_calm_verify [allows]: "only calm (inspectAndVerify E oc svc snap)"
  unfolding inspectAndVerify_def lookupContainerIDByService_def verifyAfterRecreate_def Let_def
  by (intro allows) simp_all

lemma only_quiet_recreate [allows]: "only quiet (recreate_Service E svc)"
  and only_quiet_verify [allows]: "only quiet (inspectAndVerify E oc svc snap)"
  using only_mono [OF only_calm_recreate] only_mono [OF only_calm_verify] calm_quiet by blast+

lemma only_quiet_rollback_parts [allows]:
  "only quiet (rollback_target E snap)"
  "only quiet (newer_or_same E snap target)"
  "only quiet (retag E snap target)"
  "only P (drift_check E oc)"
  "only P (snapshot_of E svc)"
  unfolding rollback_target_def present_previous_def fallback_target_def findFallbackRollbackTarget_def
    newer_or_same_def inspectImageCreated_def retag_def drift_check_def snapshot_of_def Let_def
  by (intro allows; simp)+

text \<open>A quiet part contributes no message.\<close>

lemma quiet_emits:
  assumes "only quiet m" and "\<And>a es. \<forall>e \<in> set es. quiet e \<Longrightarrow> Q a es"
  shows "ensures m Q"
  using assms unfolding only_def by (elim ensures_weaken) blast

section \<open>What an action sends\<close>

definition swap_outcome ::
  "string \<Rightarrow> string \<Rightarrow> (Time \<Rightarrow> StateUpdate) \<Rightarrow> ActionResult \<Rightarrow> ActionResult result \<Rightarrow> StateUpdate list \<Rightarrow> bool" where
  "swap_outcome prefix service swap res r us \<longleftrightarrow>
     (\<exists>err. r = Inl (wrap prefix (wrap2 compose_failed err)) \<and>
        us = [failure_msg service ''compose'' (wrap2 compose_failed err)])
   \<or> (\<exists>t err. r = Inl (wrap prefix err) \<and> us = [swap t, failure_msg service ''verify'' err])
   \<or> (\<exists>t. r = Inr res \<and> us = [swap t, action_done_msg service])"

lemma recreate_swap_verify_outcome:
  assumes "ctx_live E"
  shows "ensures (recreate_swap_verify E oc prefix service snapshot swap res)
    (\<lambda>r es. swap_outcome prefix service swap res r (sends es))"
  unfolding recreate_swap_verify_def sendFailureResult_def Let_def
  apply (rule ensures_bind, rule quiet_emits [OF only_quiet_recreate])
  apply (rule ensures_case_sum)
  subgoal by (intro ensures_bind send_live [OF assms] ensures_return) (auto simp: swap_outcome_def quiet_sends)
  subgoal
    apply (intro ensures_bind ensures_observe send_live [OF assms] quiet_emits [OF only_quiet_verify])
    apply (rule ensures_case_option)
    subgoal by (intro ensures_bind send_live [OF assms] ensures_return) (auto simp: swap_outcome_def quiet_sends)
    subgoal by (intro ensures_bind send_live [OF assms] ensures_return) (auto simp: swap_outcome_def quiet_sends)
    done
  done

definition update_outcome ::
  "string \<Rightarrow> Container \<Rightarrow> ActionResult result \<Rightarrow> StateUpdate list \<Rightarrow> bool" where
  "update_outcome service snapshot r us \<longleftrightarrow>
     (\<exists>err. r = Inl (wrap (action_prefix ''Update'' service) err) \<and>
        us = [action_start_msg service ''updating'', failure_msg service ''pull'' err])
   \<or> (\<exists>d us'. us = [action_start_msg service ''updating'', progress_msg service] @ us' \<and>
        swap_outcome (action_prefix ''Update'' service) service (update_swap_msg service snapshot d)
          \<lparr>ar_CurrentDigest = d, ar_PreviousDigest = CurrentDigest snapshot, ar_NoOp = False\<rparr> r us')"

lemma pull_emits:
  assumes "\<And>r es. sends es = [] \<Longrightarrow> set es \<subseteq> {EImagePull (image_ref repo tag), EDigest (image_ref repo tag)} \<Longrightarrow> Q r es"
  shows "ensures (pullAndVerifyDigest E repo tag) Q"
  unfolding pullAndVerifyDigest_def Digest_def Let_def by (intro emits) (auto intro: assms)

lemma update_action_outcome:
  assumes "ctx_live E"
  shows "ensures (update_action E oc service snapshot) (\<lambda>r es. update_outcome service snapshot r (sends es))"
  unfolding update_action_def Let_def
  apply (rule ensures_bind, rule send_live [OF assms])
  apply (rule ensures_bind, rule pull_emits)
  apply (rule ensures_case_sum)
  subgoal unfolding sendFailureResult_def
    by (intro ensures_bind send_live [OF assms] ensures_return) (auto simp: update_outcome_def)
  subgoal for r es d
    apply (rule ensures_bind, rule send_live [OF assms])
    apply (rule ensures_weaken [OF recreate_swap_verify_outcome [OF assms]])
    apply (auto simp: update_outcome_def)
    done
  done

definition rollback_outcome ::
  "string \<Rightarrow> Container \<Rightarrow> string \<Rightarrow> ActionResult result \<Rightarrow> StateUpdate list \<Rightarrow> bool" where
  "rollback_outcome service snapshot target r us \<longleftrightarrow>
     (\<exists>err. r = Inl (wrap (action_prefix ''Rollback'' service) (wrap2 pull_failed err)) \<and>
        us = [action_start_msg service ''rolling_back'', failure_msg service ''pull'' (wrap2 pull_failed err)])
   \<or> (\<exists>us'. us = [action_start_msg service ''rolling_back'', progress_msg service] @ us' \<and>
        swap_outcome (action_prefix ''Rollback'' service) service (rollback_swap_msg service snapshot target)
          \<lparr>ar_CurrentDigest = target, ar_PreviousDigest = CurrentDigest snapshot, ar_NoOp = False\<rparr> r us')"

lemma rollback_action_outcome:
  assumes "ctx_live E"
  shows "ensures (rollback_action E oc service snapshot target)
    (\<lambda>r es. rollback_outcome service snapshot target r (sends es))"
  unfolding rollback_action_def Let_def
  apply (rule ensures_bind, rule send_live [OF assms])
  apply (rule ensures_bind, rule quiet_emits [OF only_quiet_rollback_parts(3)])
  apply (rule ensures_case_option)
  subgoal
    apply (rule ensures_bind, rule send_live [OF assms])
    apply (rule ensures_weaken [OF recreate_swap_verify_outcome [OF assms]])
    apply (auto simp: rollback_outcome_def quiet_sends)
    done
  subgoal unfolding sendFailureResult_def
    by (intro ensures_bind send_live [OF assms] ensures_return) (auto simp: rollback_outcome_def quiet_sends)
  done

section \<open>The handlers\<close>

text \<open>
  What every handler leaves in the trace: nothing, when the service is busy or the
  compose file has moved, or a body between lock and unlock.
\<close>

definition turned_away :: "'a result \<Rightarrow> bool" where
  "turned_away r \<longleftrightarrow> (\<exists>e. r = Inl e \<and> (errors_Is e ErrServiceBusy \<or> errors_Is e ErrComposeFileMoved))"

lemma turned_away_isl: "turned_away r \<Longrightarrow> isl r"
  by (auto simp: turned_away_def)

definition bracketed :: "string \<Rightarrow> ('a result \<Rightarrow> effect list \<Rightarrow> bool) \<Rightarrow> 'a result \<Rightarrow> effect list \<Rightarrow> bool" where
  "bracketed service Q r es \<longleftrightarrow>
     es = [] \<and> turned_away r \<or> (\<exists>mid. es = [ELock service] @ mid @ [EUnlock service] \<and> Q r mid)"

lemma with_lock_bracketed:
  assumes "ensures body Q"
  shows "ensures (with_lock E service prefix body) (bracketed service Q)"
  unfolding with_lock_def
  by (intro emits ensures_weaken [OF assms]) (auto simp: bracketed_def turned_away_def service_busy_def)

lemma drift_check_emits [emits]: "(\<And>e. Q e []) \<Longrightarrow> ensures (drift_check E oc) Q"
  unfolding drift_check_def by (intro emits) simp_all

lemma drift_check_moved:
  "(\<And>e. errors_Is e ErrComposeFileMoved \<Longrightarrow> Q (Some e) []) \<Longrightarrow> Q None [] \<Longrightarrow> ensures (drift_check E oc) Q"
  unfolding drift_check_def by (intro ensures_case_option CheckUnchanged_moved ensures_return)

lemma guarded_bracketed:
  assumes "ensures body Q"
  shows "ensures (drift_check E oc \<bind> (\<lambda>d. case d of Some err \<Rightarrow> ret (Inl (wrap p err))
     | None \<Rightarrow> with_lock E service prefix body)) (bracketed service Q)"
  apply (rule ensures_bind, rule drift_check_moved)
  subgoal by (simp only: option.case, rule ensures_return) (auto simp: bracketed_def turned_away_def)
  subgoal using with_lock_bracketed [OF assms] by simp
  done

lemma snapshot_of_emits [emits]: "(\<And>s. Q s []) \<Longrightarrow> ensures (snapshot_of E service) Q"
  unfolding snapshot_of_def by (intro emits) simp

text \<open>The effects allowed between lock and unlock.\<close>

definition unlocked :: "effect \<Rightarrow> bool" where
  "unlocked e \<longleftrightarrow> (\<forall>s. e \<noteq> ELock s \<and> e \<noteq> EUnlock s)"

definition offline :: "effect \<Rightarrow> bool" where
  "offline e \<longleftrightarrow> (\<forall>r. e \<noteq> EImagePull r \<and> e \<noteq> EDigest r \<and> e \<noteq> EManifest r)"

lemma quiet_unlocked: "quiet e \<Longrightarrow> unlocked e" and quiet_offline: "quiet e \<Longrightarrow> offline e"
  by (auto simp: unlocked_def offline_def quiet_def)

lemma unlocked_simps [simp]:
  "unlocked (EImagePull r)" "unlocked (EDigest r)" "unlocked (ESend u)" "\<not> unlocked (ELock s)" "\<not> unlocked (EUnlock s)"
  "offline (ESend u)" "offline (ELock s)" "offline (EUnlock s)"
  by (auto simp: unlocked_def offline_def)

lemma only_swap:
  assumes "\<And>e. quiet e \<Longrightarrow> P e" and "\<And>u. P (ESend u)"
  shows "only P (recreate_swap_verify E oc prefix service snapshot swap res)"
  unfolding recreate_swap_verify_def sendFailureResult_def Let_def
  by (intro allows only_mono [OF only_quiet_recreate] only_mono [OF only_quiet_verify]) (auto intro: assms)

lemma only_update_action: "only unlocked (update_action E oc service snapshot)"
  unfolding update_action_def pullAndVerifyDigest_def Digest_def sendFailureResult_def Let_def
  by (intro allows only_swap) (auto simp: quiet_unlocked)

lemma only_rollback_action:
  assumes "\<And>e. quiet e \<Longrightarrow> P e" and "\<And>u. P (ESend u)"
  shows "only P (rollback_action E oc service snapshot target)"
  unfolding rollback_action_def sendFailureResult_def Let_def
  by (intro allows only_swap only_mono [OF only_quiet_rollback_parts(3)]) (auto intro: assms)

definition update_body :: "'w Env \<Rightarrow> actionOrchestrator \<Rightarrow> string \<Rightarrow> ('w, ActionResult result) io" where
  "update_body E oc service = do {
     s \<leftarrow> snapshot_of E service;
     case s of
       None \<Rightarrow> ret (Inl (errors_New (''actions.Update: container '' @ quote service @ '' not in state'')))
     | Some snapshot \<Rightarrow>
         if AvailableDigest snapshot \<noteq> '''' \<and> CurrentDigest snapshot = AvailableDigest snapshot then
           ret (Inr \<lparr>ar_CurrentDigest = CurrentDigest snapshot,
                     ar_PreviousDigest = PreviousDigest snapshot, ar_NoOp = True\<rparr>)
         else update_action E oc service snapshot }"

lemma Update_bracketed:
  assumes "ensures (update_body E oc service) Q"
  shows "ensures (Update E oc service) (bracketed service Q)"
  unfolding Update_def by (rule guarded_bracketed [OF assms [unfolded update_body_def]])

definition rollback_body :: "'w Env \<Rightarrow> actionOrchestrator \<Rightarrow> string \<Rightarrow> ('w, ActionResult result) io" where
  "rollback_body E oc service = do {
     s \<leftarrow> snapshot_of E service;
     case s of
       None \<Rightarrow> ret (Inl (errors_New (''actions.Rollback: container '' @ quote service @ '' not in state'')))
     | Some snapshot \<Rightarrow> do {
         target \<leftarrow> rollback_target E snapshot;
         if target = '''' then
           ret (Inl (wrap (action_prefix ''Rollback'' service) no_previous_digest))
         else if CurrentDigest snapshot = target then
           ret (Inr \<lparr>ar_CurrentDigest = CurrentDigest snapshot, ar_PreviousDigest = target, ar_NoOp = True\<rparr>)
         else do {
           bad \<leftarrow> newer_or_same E snapshot target;
           if bad then ret (Inl (wrap (action_prefix ''Rollback'' service) not_a_downgrade))
           else rollback_action E oc service snapshot target } } }"

lemma Rollback_bracketed:
  assumes "ensures (rollback_body E oc service) Q"
  shows "ensures (Rollback E oc service) (bracketed service Q)"
  unfolding Rollback_def by (rule guarded_bracketed [OF assms [unfolded rollback_body_def]])

definition pull_body :: "'w Env \<Rightarrow> string \<Rightarrow> ('w, ActionResult result) io" where
  "pull_body E service = do {
     s \<leftarrow> snapshot_of E service;
     case s of
       None \<Rightarrow> ret (Inl (errors_New (''actions.ForcePull: container '' @ quote service @ '' not in state'')))
     | Some snapshot \<Rightarrow> do {
         send E (action_start_msg service ''force_pulling'');
         p \<leftarrow> pullAndVerifyDigest E (ImageRepo snapshot) (Tag snapshot);
         case p of
           Inl err \<Rightarrow> do {
             sendFailureResult E service ''pull'' err;
             ret (Inl (wrap (action_prefix ''ForcePull'' service) err)) }
         | Inr pulledDigest \<Rightarrow> do {
             send E (force_pull_msg service pulledDigest);
             ret (Inr \<lparr>ar_CurrentDigest = CurrentDigest snapshot,
                       ar_PreviousDigest = PreviousDigest snapshot, ar_NoOp = False\<rparr>) } } }"

lemma ForcePull_bracketed:
  assumes "ensures (pull_body E service) Q"
  shows "ensures (ForcePull E oc service False) (bracketed service Q)"
  unfolding ForcePull_def using with_lock_bracketed [OF assms [unfolded pull_body_def]] by simp

lemma only_bodies:
  "only unlocked (update_body E oc service)"
  "only unlocked (rollback_body E oc service)"
  "only offline (rollback_body E oc service)"
  "only unlocked (pull_body E service)"
  unfolding update_body_def rollback_body_def pull_body_def pullAndVerifyDigest_def Digest_def
    sendFailureResult_def Let_def
  by (intro allows only_update_action only_rollback_action only_mono [OF only_quiet_rollback_parts(1)]
      only_mono [OF only_quiet_rollback_parts(2)]; simp add: quiet_unlocked quiet_offline)+

section \<open>Properties\<close>

text \<open>
  C12. Every action is bracketed by its service lock: on every path, errors included,
  a handler either has no effect at all (a moved compose file, a busy service) or
  takes the lock first, releases it last, and touches no lock in between; no daemon
  call, registry call or message happens outside the lock.
\<close>

theorem actions_hold_lock:
  assumes "m = Update E oc service \<or> m = Rollback E oc service \<or> m = ForcePull E oc service b"
    and "run_state m w = (r, w')"
  shows "trace w' = trace w \<or>
    (\<exists>mid. trace w' = trace w @ [ELock service] @ mid @ [EUnlock service] \<and>
       (\<forall>e \<in> set mid. \<forall>s. e \<noteq> ELock s \<and> e \<noteq> EUnlock s))"
proof -
  let ?Q = "bracketed service (\<lambda>_ es. \<forall>e \<in> set es. unlocked e)"
  note bodies = only_bodies [unfolded only_def]
  have u: "ensures (Update E oc service) ?Q" by (rule Update_bracketed [OF bodies(1)])
  moreover have "ensures (Rollback E oc service) ?Q" by (rule Rollback_bracketed [OF bodies(2)])
  moreover have "ensures (ForcePull E oc service b) ?Q"
    using u ForcePull_bracketed [OF bodies(4)] by (cases b) (simp_all add: ForcePull_def)
  ultimately have "ensures m ?Q" using assms(1) by blast
  from ensuresD [OF this assms(2)] show ?thesis by (fastforce simp: bracketed_def unlocked_def)
qed

definition demo_oc :: actionOrchestrator where
  "demo_oc = \<lparr>oc_composeReader = None, oc_fmt = (\<lambda>_. ''''), oc_selfService = ''docker-update'',
     oc_verifyWindow = 2 * Second, oc_healthcheckWindow = 60 * Second\<rparr>"

theorem actions_hold_lock_witness:
  "\<exists>mid. trace (snd (run_state (Rollback demo_env demo_oc ''web'') world0)) =
     [ELock ''web''] @ mid @ [EUnlock ''web'']"
proof -
  let ?r = "run_state (Rollback demo_env demo_oc ''web'') world0"
  have "trace (snd ?r) \<noteq> trace world0"
    by (simp add: Rollback_def drift_check_def demo_oc_def with_lock_def snapshot_of_def demo_env_def
        world0_def empty_state_def)
  with actions_hold_lock [of "Rollback demo_env demo_oc ''web''" demo_env demo_oc "''web''" False,
      OF _ prod.collapse [symmetric], of world0]
  show ?thesis by (auto simp: world0_def)
qed

text \<open>
  C31. Rollback works offline: whatever the daemon and the clock answer, it never
  pulls an image and never asks the registry.
\<close>

theorem rollback_offline:
  assumes "run_state (Rollback E oc service) w = (r, w')"
  shows "\<exists>es. trace w' = trace w @ es \<and>
    (\<forall>e \<in> set es. \<forall>ref. e \<noteq> EImagePull ref \<and> e \<noteq> EDigest ref \<and> e \<noteq> EManifest ref)"
proof -
  have "ensures (Rollback E oc service) (bracketed service (\<lambda>_ es. \<forall>e \<in> set es. offline e))"
    by (rule Rollback_bracketed [OF only_bodies(3) [unfolded only_def]])
  from ensuresD [OF this assms] show ?thesis by (fastforce simp: bracketed_def offline_def)
qed

theorem rollback_offline_witness:
  "\<exists>es. trace (snd (run_state (Rollback demo_env demo_oc ''web'') world0)) = es \<and>
    (\<forall>e \<in> set es. \<forall>ref. e \<noteq> EImagePull ref)"
  using rollback_offline [OF prod.collapse [symmetric], of demo_env demo_oc "''web''" world0]
  by (auto simp: world0_def)

text \<open>The net effect of a list of messages on the row of a service.\<close>

definition row_effect :: "string \<Rightarrow> StateUpdate list \<Rightarrow> (Container \<Rightarrow> Container) \<Rightarrow> bool" where
  "row_effect service us f \<longleftrightarrow>
     (\<forall>st c. Containers st service = Some c \<longrightarrow> Containers (fold Apply us st) service = Some (f c))"

lemma row_effect_Nil: "row_effect service [] id"
  by (simp add: row_effect_def)

definition failure_text :: "string \<Rightarrow> go_error \<Rightarrow> string" where
  "failure_text phase err = phase @ ''_failed: '' @ err_text err"

definition idle_with :: "string \<Rightarrow> Container \<Rightarrow> Container" where
  "idle_with err c = c\<lparr>ActionInFlight := '''', ActionError := err\<rparr>"

text \<open>The row after the swap of an update, and of a rollback, to digest \<open>d\<close> at time \<open>t\<close>.\<close>

definition updated_row :: "Container \<Rightarrow> string \<Rightarrow> Time \<Rightarrow> Container \<Rightarrow> Container" where
  "updated_row snapshot d t c =
     (let prev = (if CurrentDigest snapshot = '''' then ImageRepo snapshot else CurrentDigest snapshot)
      in (if prev \<noteq> '''' \<and> prev \<noteq> d
          then c\<lparr>PreviousDigest := prev, PreviousDigestAt := t, PreviousDigestBuiltAt := CurrentDigestAt snapshot\<rparr>
          else c)\<lparr>CurrentDigest := d, UpdateAvailable := False\<rparr>)"

definition rolled_back_row :: "Container \<Rightarrow> string \<Rightarrow> Time \<Rightarrow> Container \<Rightarrow> Container" where
  "rolled_back_row snapshot d t c =
     (if CurrentDigest snapshot \<noteq> '''' \<and> CurrentDigest snapshot \<noteq> d
      then c\<lparr>PreviousDigest := CurrentDigest snapshot, PreviousDigestAt := t,
             PreviousDigestBuiltAt := CurrentDigestAt snapshot\<rparr> else c)
     \<lparr>CurrentDigest := d,
      UpdateAvailable := (if AvailableDigest c \<noteq> '''' then d \<noteq> AvailableDigest c else UpdateAvailable c)\<rparr>"

lemma swap_rows:
  "Containers st service = Some c \<Longrightarrow>
     Containers (Apply (update_swap_msg service snapshot d t) st) service = Some (updated_row snapshot d t c)"
  "Containers st service = Some c \<Longrightarrow>
     Containers (Apply (rollback_swap_msg service snapshot d t) st) service = Some (rolled_back_row snapshot d t c)"
  by (simp_all add: update_swap_msg_def rollback_swap_msg_def updated_row_def rolled_back_row_def Let_def)

lemma updated_row_frame [simp]:
  "ActionInFlight (updated_row s d t c) = ActionInFlight c" "ActionError (updated_row s d t c) = ActionError c"
  "updated_row s d t (c\<lparr>ActionInFlight := a, ActionError := e\<rparr>) =
     (updated_row s d t c)\<lparr>ActionInFlight := a, ActionError := e\<rparr>"
  by (simp_all add: updated_row_def Let_def)

lemma rolled_back_row_frame [simp]:
  "ActionInFlight (rolled_back_row s d t c) = ActionInFlight c"
  "ActionError (rolled_back_row s d t c) = ActionError c"
  "rolled_back_row s d t (c\<lparr>ActionInFlight := a, ActionError := e\<rparr>) =
     (rolled_back_row s d t c)\<lparr>ActionInFlight := a, ActionError := e\<rparr>"
  by (simp_all add: rolled_back_row_def)

lemma start_row:
  "Containers st service = Some c \<Longrightarrow> Containers (Apply (action_start_msg service what) st) service =
     Some (c\<lparr>ActionInFlight := what, ActionError := ''''\<rparr>)"
  by (simp add: action_start_msg_def)

lemma result_rows:
  "Containers st service = Some c \<Longrightarrow>
     Containers (Apply (failure_msg service phase err) st) service =
       Some (idle_with (failure_text phase err) c)"
  "Containers st service = Some c \<Longrightarrow>
     Containers (Apply (action_done_msg service) st) service = Some (idle_with '''' c)"
  "Apply (progress_msg service) st = st"
  by (simp_all add: failure_msg_def action_done_msg_def progress_msg_def idle_with_def failure_text_def)

text \<open>The effect of the whole sequences of messages.\<close>

lemma swap_effect:
  assumes swap: "\<And>st c t. Containers st service = Some c \<Longrightarrow>
      Containers (Apply (swap t) st) service = Some (f t c)"
    and frame: "\<And>t c a e. f t (c\<lparr>ActionInFlight := a, ActionError := e\<rparr>) =
      (f t c)\<lparr>ActionInFlight := a, ActionError := e\<rparr>"
    and "swap_outcome prefix service swap res r us"
  shows "(\<exists>err. r = Inl (wrap prefix (wrap2 compose_failed err)) \<and>
        row_effect service (action_start_msg service what # progress_msg service # us)
          (idle_with (failure_text ''compose'' (wrap2 compose_failed err))))
    \<or> (\<exists>t err. r = Inl (wrap prefix err) \<and>
        row_effect service (action_start_msg service what # progress_msg service # us)
          (\<lambda>c. idle_with (failure_text ''verify'' err) (f t c)))
    \<or> (\<exists>t. r = Inr res \<and>
        row_effect service (action_start_msg service what # progress_msg service # us)
          (\<lambda>c. idle_with '''' (f t c)))"
proof -
  have eff: "row_effect service [action_start_msg service what, progress_msg service, failure_msg service ph err]
      (idle_with (failure_text ph err))" for ph err
    unfolding row_effect_def by (auto simp: start_row result_rows idle_with_def)
  have effv: "row_effect service [action_start_msg service what, progress_msg service, swap t,
      failure_msg service ph err] (\<lambda>c. idle_with (failure_text ph err) (f t c))" for t ph err
    unfolding row_effect_def by (auto simp: start_row swap result_rows frame idle_with_def)
  have effd: "row_effect service [action_start_msg service what, progress_msg service, swap t,
      action_done_msg service] (\<lambda>c. idle_with '''' (f t c))" for t
    unfolding row_effect_def by (auto simp: start_row swap result_rows frame idle_with_def)
  from assms(3) show ?thesis
    unfolding swap_outcome_def
  proof (elim disjE exE conjE)
    fix err
    assume "r = Inl (wrap prefix (wrap2 compose_failed err))"
      and "us = [failure_msg service ''compose'' (wrap2 compose_failed err)]"
    with eff [of "''compose''" "wrap2 compose_failed err"] show ?thesis by blast
  next
    fix t err
    assume "r = Inl (wrap prefix err)" and "us = [swap t, failure_msg service ''verify'' err]"
    with effv [of t "''verify''" err] show ?thesis by blast
  next
    fix t
    assume "r = Inr res" and "us = [swap t, action_done_msg service]"
    with effd [of t] show ?thesis by blast
  qed
qed

lemma snapshot_of_known:
  "answers (env_store E) st0 \<Longrightarrow> Q (Containers st0 service) [] \<Longrightarrow> ensures (snapshot_of E service) Q"
  unfolding snapshot_of_def by (rule ensures_bind, erule observe_answers, rule ensures_return) simp

text \<open>The five ways an update can end, as effects on the row.\<close>

definition update_effects :: "string \<Rightarrow> Container \<Rightarrow> ActionResult result \<Rightarrow> StateUpdate list \<Rightarrow> bool" where
  "update_effects service snapshot r us \<longleftrightarrow>
     us = [] \<and> CurrentDigest snapshot = AvailableDigest snapshot \<and> AvailableDigest snapshot \<noteq> '''' \<and>
       r = Inr \<lparr>ar_CurrentDigest = CurrentDigest snapshot, ar_PreviousDigest = PreviousDigest snapshot,
                ar_NoOp = True\<rparr>
   \<or> (\<exists>err. r = Inl (wrap (action_prefix ''Update'' service) err) \<and>
        row_effect service us (idle_with (failure_text ''pull'' err)))
   \<or> (\<exists>err. r = Inl (wrap (action_prefix ''Update'' service) (wrap2 compose_failed err)) \<and>
        row_effect service us (idle_with (failure_text ''compose'' (wrap2 compose_failed err))))
   \<or> (\<exists>d t err. r = Inl (wrap (action_prefix ''Update'' service) err) \<and>
        row_effect service us (\<lambda>c. idle_with (failure_text ''verify'' err) (updated_row snapshot d t c)))
   \<or> (\<exists>d t. r = Inr \<lparr>ar_CurrentDigest = d, ar_PreviousDigest = CurrentDigest snapshot, ar_NoOp = False\<rparr> \<and>
        row_effect service us (\<lambda>c. idle_with '''' (updated_row snapshot d t c)))"

lemma pull_failure_effect:
  "row_effect service [action_start_msg service what, failure_msg service ph err]
     (idle_with (failure_text ph err))"
  unfolding row_effect_def by (auto simp: start_row result_rows idle_with_def)

lemma update_outcome_effects: "update_outcome service snapshot r us \<Longrightarrow> update_effects service snapshot r us"
  unfolding update_outcome_def
proof (elim disjE exE conjE)
  fix err
  assume "r = Inl (wrap (action_prefix ''Update'' service) err)"
    and "us = [action_start_msg service ''updating'', failure_msg service ''pull'' err]"
  then show ?thesis using pull_failure_effect unfolding update_effects_def by blast
next
  fix d us'
  assume us: "us = [action_start_msg service ''updating'', progress_msg service] @ us'"
    and "swap_outcome (action_prefix ''Update'' service) service (update_swap_msg service snapshot d)
      \<lparr>ar_CurrentDigest = d, ar_PreviousDigest = CurrentDigest snapshot, ar_NoOp = False\<rparr> r us'"
  from swap_effect [OF _ _ this(2), of "updated_row snapshot d" "''updating''"] show ?thesis
    unfolding us append.simps update_effects_def by (auto simp: swap_rows)
qed

lemma update_body_effects:
  assumes "ctx_live E" and "answers (env_store E) st0" and "Containers st0 service = Some snapshot"
  shows "ensures (update_body E oc service) (\<lambda>r es. update_effects service snapshot r (sends es))"
  unfolding update_body_def
  apply (rule ensures_bind, rule snapshot_of_known [OF assms(2)])
  apply (simp only: assms(3) option.case)
  apply (rule ensures_if)
  subgoal by (intro emits) (simp add: update_effects_def)
  subgoal by (rule ensures_weaken [OF update_action_outcome [OF assms(1)]]) (simp add: update_outcome_effects)
  done

text \<open>
  C2. What an update does to the row, for every end it can have, while the request
  context lives: nothing when the row is up to date or the action was refused; an
  action error and unchanged digests when the pull or the recreate failed; the new
  digest with the old one recorded as previous, and the verify error, when the new
  container did not verify; the same without an error on success. In all of them the
  in-flight mark is cleared.
\<close>

theorem update_effect:
  assumes "ctx_live E" and "answers (env_store E) st0" and "Containers st0 service = Some snapshot"
    and "run_state (Update E oc service) w = (r, w')"
  shows "\<exists>es. trace w' = trace w @ es \<and>
    (sends es = [] \<and> isl r \<or> update_effects service snapshot r (sends es))"
  using ensuresD [OF Update_bracketed [OF update_body_effects [OF assms(1-3)]] assms(4)]
  by (auto simp: bracketed_def turned_away_isl)

definition web_row :: Container where
  "web_row = zero_container\<lparr>Service := ''web'', ImageRepo := ''ghcr.io/web'', Tag := ''v1'',
     CurrentDigest := ''sha256:old'', AvailableDigest := ''sha256:d1''\<rparr>"

definition web_state :: AppState where
  "web_state = empty_state\<lparr>Containers := [''web'' \<mapsto> web_row]\<rparr>"

definition web_env :: "unit Env" where
  "web_env = demo_env\<lparr>env_store := (\<lambda>x. (web_state, x)),
     sdk_ImagePull := (\<lambda>_ x. (Inl (errors_New ''connection refused''), x))\<rparr>"

lemma web_facts: "ctx_live web_env" "answers (env_store web_env) web_state"
  "Containers web_state ''web'' = Some web_row"
  by (simp_all add: ctx_live_def answers_def web_env_def web_state_def demo_env_def)

theorem update_effect_witness:
  "\<exists>es. trace (snd (run_state (Update web_env demo_oc ''web'') world0)) = es \<and>
    (sends es = [] \<and> isl (fst (run_state (Update web_env demo_oc ''web'') world0)) \<or>
     update_effects ''web'' web_row (fst (run_state (Update web_env demo_oc ''web'') world0)) (sends es))"
  using update_effect [OF web_facts prod.collapse [symmetric], of demo_oc world0] by (simp add: world0_def)

text \<open>The ways a rollback can end, as effects on the row.\<close>

definition rollback_effects :: "string \<Rightarrow> Container \<Rightarrow> ActionResult result \<Rightarrow> StateUpdate list \<Rightarrow> bool" where
  "rollback_effects service snapshot r us \<longleftrightarrow>
     us = [] \<and> (r = Inl (wrap (action_prefix ''Rollback'' service) no_previous_digest) \<or>
       r = Inl (wrap (action_prefix ''Rollback'' service) not_a_downgrade) \<or>
       r = Inr \<lparr>ar_CurrentDigest = CurrentDigest snapshot, ar_PreviousDigest = CurrentDigest snapshot,
                ar_NoOp = True\<rparr>)
   \<or> (\<exists>err. r = Inl (wrap (action_prefix ''Rollback'' service) (wrap2 pull_failed err)) \<and>
        row_effect service us (idle_with (failure_text ''pull'' (wrap2 pull_failed err))))
   \<or> (\<exists>err. r = Inl (wrap (action_prefix ''Rollback'' service) (wrap2 compose_failed err)) \<and>
        row_effect service us (idle_with (failure_text ''compose'' (wrap2 compose_failed err))))
   \<or> (\<exists>d t err. d \<noteq> CurrentDigest snapshot \<and> r = Inl (wrap (action_prefix ''Rollback'' service) err) \<and>
        row_effect service us (\<lambda>c. idle_with (failure_text ''verify'' err) (rolled_back_row snapshot d t c)))
   \<or> (\<exists>d t. d \<noteq> CurrentDigest snapshot \<and>
        r = Inr \<lparr>ar_CurrentDigest = d, ar_PreviousDigest = CurrentDigest snapshot, ar_NoOp = False\<rparr> \<and>
        row_effect service us (\<lambda>c. idle_with '''' (rolled_back_row snapshot d t c)))"

lemma rollback_outcome_effects:
  assumes "rollback_outcome service snapshot target r us" and "target \<noteq> CurrentDigest snapshot"
  shows "rollback_effects service snapshot r us"
  using assms(1) unfolding rollback_outcome_def
proof (elim disjE exE conjE)
  fix err
  assume "r = Inl (wrap (action_prefix ''Rollback'' service) (wrap2 pull_failed err))"
    and "us = [action_start_msg service ''rolling_back'', failure_msg service ''pull'' (wrap2 pull_failed err)]"
  then show ?thesis
    unfolding rollback_effects_def
    by (intro disjI2 [OF disjI1] exI [of _ err]) (simp add: pull_failure_effect)
next
  fix us'
  assume us: "us = [action_start_msg service ''rolling_back'', progress_msg service] @ us'"
    and "swap_outcome (action_prefix ''Rollback'' service) service (rollback_swap_msg service snapshot target)
      \<lparr>ar_CurrentDigest = target, ar_PreviousDigest = CurrentDigest snapshot, ar_NoOp = False\<rparr> r us'"
  have swap: "Containers (Apply (rollback_swap_msg service snapshot target t) st) service =
      Some (rolled_back_row snapshot target t c)" if "Containers st service = Some c" for st c t
    using that by (rule swap_rows)
  note eff = swap_effect [OF swap rolled_back_row_frame(3)
      \<open>swap_outcome (action_prefix ''Rollback'' service) service _ _ r us'\<close>, of "''rolling_back''"]
  show ?thesis
    unfolding us append_Cons append_Nil rollback_effects_def
    by (rule disjI2, rule disjI2, use eff assms(2) in blast)
qed

lemma rollback_body_effects:
  assumes "ctx_live E" and "answers (env_store E) st0" and "Containers st0 service = Some snapshot"
  shows "ensures (rollback_body E oc service) (\<lambda>r es. rollback_effects service snapshot r (sends es))"
  unfolding rollback_body_def
  apply (rule ensures_bind, rule snapshot_of_known [OF assms(2)])
  apply (simp only: assms(3) option.case)
  apply (rule ensures_bind, rule quiet_emits [OF only_quiet_rollback_parts(1)])
  apply (rule ensures_if)
  subgoal by (intro emits) (simp add: rollback_effects_def quiet_sends)
  subgoal
    apply (rule ensures_if)
    subgoal by (intro emits) (simp add: rollback_effects_def quiet_sends)
    subgoal
      apply (rule ensures_bind, rule quiet_emits [OF only_quiet_rollback_parts(2)])
      apply (rule ensures_if)
      subgoal by (intro emits) (simp add: rollback_effects_def quiet_sends)
      subgoal by (rule ensures_weaken [OF rollback_action_outcome [OF assms(1)]])
         (simp add: rollback_outcome_effects quiet_sends)
      done
    done
  done

text \<open>
  C3. What a rollback does to the row, for every end it can have, while the request
  context lives: nothing when it is refused or the target is what already runs; an
  action error and unchanged digests when the retag or the recreate failed; the
  target digest with the old current one as previous, and the update flag computed
  anew, when the container was replaced, with the verify error if it did not verify.
\<close>

theorem rollback_effect:
  assumes "ctx_live E" and "answers (env_store E) st0" and "Containers st0 service = Some snapshot"
    and "run_state (Rollback E oc service) w = (r, w')"
  shows "\<exists>es. trace w' = trace w @ es \<and>
    (sends es = [] \<and> isl r \<or> rollback_effects service snapshot r (sends es))"
  using ensuresD [OF Rollback_bracketed [OF rollback_body_effects [OF assms(1-3)]] assms(4)]
  by (auto simp: bracketed_def turned_away_isl)

theorem rollback_effect_witness:
  "\<exists>es. trace (snd (run_state (Rollback web_env demo_oc ''web'') world0)) = es \<and>
    (sends es = [] \<and> isl (fst (run_state (Rollback web_env demo_oc ''web'') world0)) \<or>
     rollback_effects ''web'' web_row (fst (run_state (Rollback web_env demo_oc ''web'') world0)) (sends es))"
  using rollback_effect [OF web_facts prod.collapse [symmetric], of demo_oc world0] by (simp add: world0_def)

text \<open>
  Convergence: no action leaves its mark on the row. An action that sends nothing ended
  before it announced itself: nothing was to be done, or it was refused.
\<close>

definition unannounced :: "string \<Rightarrow> ActionResult result \<Rightarrow> bool" where
  "unannounced service r \<longleftrightarrow>
     (case r of
        Inr res \<Rightarrow> ar_NoOp res
      | Inl e \<Rightarrow> errors_Is e ErrServiceBusy \<or> errors_Is e ErrComposeFileMoved \<or>
          errors_Is e ErrNoPreviousDigest \<or> errors_Is e ErrNotADowngrade \<or>
          (\<exists>action. e = errors_New (action @ '': container '' @ quote service @ '' not in state'')))"

lemma unannounced_simps [simp]:
  "turned_away r \<Longrightarrow> unannounced service r"
  "unannounced service (Inr \<lparr>ar_CurrentDigest = c, ar_PreviousDigest = p, ar_NoOp = b\<rparr>) \<longleftrightarrow> b"
  "unannounced service (Inl (wrap p no_previous_digest))" "unannounced service (Inl (wrap p not_a_downgrade))"
  by (auto simp: unannounced_def turned_away_def no_previous_digest_def not_a_downgrade_def)

lemma unannounced_unknown:
  "unannounced service (Inl (errors_New (''actions.Update: container '' @ quote service @ '' not in state'')))"
  "unannounced service (Inl (errors_New (''actions.Rollback: container '' @ quote service @ '' not in state'')))"
  "unannounced service (Inl (errors_New (''actions.ForcePull: container '' @ quote service @ '' not in state'')))"
proof -
  have "unannounced service (Inl (errors_New (a @ '': container '' @ quote service @ '' not in state'')))" for a
    unfolding unannounced_def sum.case by blast
  from this [of "''actions.Update''"] this [of "''actions.Rollback''"] this [of "''actions.ForcePull''"]
  show "unannounced service (Inl (errors_New (''actions.Update: container '' @ quote service @ '' not in state'')))"
    "unannounced service (Inl (errors_New (''actions.Rollback: container '' @ quote service @ '' not in state'')))"
    "unannounced service (Inl (errors_New (''actions.ForcePull: container '' @ quote service @ '' not in state'')))"
    by simp_all
qed

definition converges :: "string \<Rightarrow> ActionResult result \<Rightarrow> StateUpdate list \<Rightarrow> bool" where
  "converges service r us \<longleftrightarrow> us = [] \<and> unannounced service r \<or>
     (\<exists>f. row_effect service us f \<and> (\<forall>c. ActionInFlight (f c) = '''') \<and>
        (\<forall>c. ActionError (f c) = '''' \<longleftrightarrow> \<not> isl r))"

lemma idle_with_fields [simp]: "ActionInFlight (idle_with e c) = ''''" "ActionError (idle_with e c) = e"
  by (simp_all add: idle_with_def)

lemma failure_text_neq [simp]: "failure_text ph err \<noteq> ''''"
  by (simp add: failure_text_def)

lemma converges_effect:
  "row_effect service us (\<lambda>c. idle_with (failure_text ph err) (f c)) \<Longrightarrow> converges service (Inl e) us"
  "row_effect service us (\<lambda>c. idle_with '''' (f c)) \<Longrightarrow> converges service (Inr x) us"
  "row_effect service us (idle_with (failure_text ph err)) \<Longrightarrow> converges service (Inl e) us"
  unfolding converges_def
  by (intro disjI2 exI [of _ "\<lambda>c. idle_with (failure_text ph err) (f c)"]
      exI [of _ "\<lambda>c. idle_with '''' (f c)"] exI [of _ "idle_with (failure_text ph err)"]; simp)+

lemma update_converges: "update_effects service snapshot r us \<Longrightarrow> converges service r us"
  unfolding update_effects_def by (elim disjE exE conjE; simp add: converges_effect) (simp add: converges_def)

lemma rollback_converges: "rollback_effects service snapshot r us \<Longrightarrow> converges service r us"
  unfolding rollback_effects_def by (elim disjE exE conjE; simp add: converges_effect) (simp_all add: converges_def)

lemma force_pull_effect:
  "row_effect service [action_start_msg service what, force_pull_msg service d]
     (\<lambda>c. idle_with '''' (c\<lparr>AvailableDigest := d,
        UpdateAvailable := (if CurrentDigest c \<noteq> '''' then CurrentDigest c \<noteq> d else UpdateAvailable c)\<rparr>))"
  unfolding row_effect_def by (auto simp: start_row force_pull_msg_def idle_with_def Let_def)

lemma converges_silent: "unannounced service r \<Longrightarrow> converges service r []"
  by (simp add: converges_def)

lemma bodies_converge:
  assumes "ctx_live E"
  shows "ensures (update_body E oc service) (\<lambda>r es. converges service r (sends es))"
    and "ensures (rollback_body E oc service) (\<lambda>r es. converges service r (sends es))"
    and "ensures (pull_body E service) (\<lambda>r es. converges service r (sends es))"
proof -
  show "ensures (update_body E oc service) (\<lambda>r es. converges service r (sends es))"
    unfolding update_body_def
    apply (intro emits ensures_weaken [OF update_action_outcome [OF assms]])
    subgoal by (simp only: append_Nil sends.simps, rule converges_silent, rule unannounced_unknown)
    subgoal by (simp add: converges_silent)
    subgoal by (simp, rule update_converges, rule update_outcome_effects)
    done
  show "ensures (rollback_body E oc service) (\<lambda>r es. converges service r (sends es))"
    unfolding rollback_body_def
    apply (intro emits quiet_emits [OF only_quiet_rollback_parts(1)] quiet_emits [OF only_quiet_rollback_parts(2)]
        ensures_weaken [OF rollback_action_outcome [OF assms]])
    subgoal by (simp only: append_Nil sends.simps, rule converges_silent, rule unannounced_unknown)
    subgoal by (simp add: converges_silent quiet_sends)
    subgoal by (simp add: converges_silent quiet_sends)
    subgoal by (simp add: converges_silent quiet_sends)
    subgoal by (simp add: quiet_sends, rule rollback_converges, rule rollback_outcome_effects, assumption, simp)
    done
  show "ensures (pull_body E service) (\<lambda>r es. converges service r (sends es))"
    unfolding pull_body_def sendFailureResult_def
    apply (rule ensures_bind, rule snapshot_of_emits)
    apply (rule ensures_case_option)
    subgoal by (intro emits) (simp only: append_Nil sends.simps, rule converges_silent, rule unannounced_unknown)
    subgoal
      apply (rule ensures_bind, rule send_live [OF assms])
      apply (rule ensures_bind, rule pull_emits)
      apply (rule ensures_case_sum)
      subgoal by (intro ensures_bind send_live [OF assms] ensures_return)
         (simp, rule converges_effect(3) [OF pull_failure_effect])
      subgoal by (intro ensures_bind send_live [OF assms] ensures_return)
         (simp, rule converges_effect(2) [OF force_pull_effect])
      done
    done
qed

text \<open>
  C4. The spinner converges: while the request context lives, the messages of an action
  leave the row idle, with an action error exactly when the action returned an error;
  or the action sent nothing and so left the row, an earlier action error included, as
  it was. It sends nothing only when it succeeded with nothing to do or was refused: a
  busy service, a moved compose file, no previous digest, a target that is no downgrade,
  a service without a row.
\<close>

theorem spinner_converges:
  assumes "ctx_live E"
    and "m = Update E oc service \<or> m = Rollback E oc service \<or> m = ForcePull E oc service b"
    and "run_state m w = (r, w')"
  shows "\<exists>es. trace w' = trace w @ es \<and> (sends es = [] \<and> unannounced service r \<or>
    (\<exists>f. (\<forall>st c. Containers st service = Some c \<longrightarrow>
            Containers (fold Apply (sends es) st) service = Some (f c)) \<and>
         (\<forall>c. ActionInFlight (f c) = '''' \<and> (ActionError (f c) = '''' \<longleftrightarrow> \<not> isl r))))"
proof -
  let ?Q = "bracketed service (\<lambda>r es. converges service r (sends es))"
  note bodies = bodies_converge [OF assms(1)]
  have u: "ensures (Update E oc service) ?Q" by (rule Update_bracketed [OF bodies(1)])
  moreover have "ensures (Rollback E oc service) ?Q" by (rule Rollback_bracketed [OF bodies(2)])
  moreover have "ensures (ForcePull E oc service b) ?Q"
    using u ForcePull_bracketed [OF bodies(3)] by (cases b) (simp_all add: ForcePull_def)
  ultimately have "ensures m ?Q" using assms(2) by blast
  from ensuresD [OF this assms(3)] obtain es where es: "trace w' = trace w @ es"
    and "sends es = [] \<and> unannounced service r \<or> converges service r (sends es)" by (auto simp: bracketed_def)
  then show ?thesis unfolding converges_def row_effect_def by blast
qed

theorem spinner_converges_witness:
  "\<exists>es. trace (snd (run_state (ForcePull web_env demo_oc ''web'' False) world0)) = es \<and> sends es \<noteq> [] \<and>
     map_option ActionInFlight (Containers (fold Apply (sends es) web_state) ''web'') = Some ''''"
proof -
  let ?r = "run_state (ForcePull web_env demo_oc ''web'' False) world0"
  have "sends (trace (snd ?r)) \<noteq> []"
    by (simp add: ForcePull_def with_lock_def snapshot_of_def send_def sendFailureResult_def
        pullAndVerifyDigest_def facade_defs web_env_def demo_env_def web_state_def world0_def Let_def)
  with spinner_converges [OF web_facts(1), of "ForcePull web_env demo_oc ''web'' False" demo_oc "''web''" False,
      OF _ prod.collapse [symmetric], of world0] web_facts(3)
  show ?thesis by (auto simp: world0_def)
qed

definition cancelled_env :: "nat Env" where
  "cancelled_env =
     \<lparr>sdk_Ping = (\<lambda>x. (None, x)), sdk_ContainerList = (\<lambda>_ _ x. (Inr [], x)),
      sdk_ContainerInspect = (\<lambda>_ x. (Inr demo_inspect, x)),
      sdk_ImagePull = (\<lambda>_ x. (Inl (sentinel_error CtxCanceled ''context canceled''), x)),
      sdk_ImageInspect = (\<lambda>_ x. (Inl (errors_New ''gone''), x)), sdk_ImageTag = (\<lambda>_ _ x. (None, x)),
      sdk_ImageList = (\<lambda>_ x. (Inr [], x)), sdk_ContainerCreate = (\<lambda>_ x. (Inr ''c'', x)),
      sdk_ContainerRemove = (\<lambda>_ x. (None, x)), sdk_ContainerStart = (\<lambda>_ x. (None, x)),
      sdk_ContainerStop = (\<lambda>_ _ x. (None, x)), sdk_NetworkConnect = (\<lambda>_ _ _ x. (None, x)),
      reg_Digest = (\<lambda>_ x. (Inr ''d'', x)),
      reg_Manifest = (\<lambda>_ x. (Inr \<lparr>mf_Digest = ''d'', mf_CreatedAt = 0\<rparr>, x)),
      http_Healthz = (\<lambda>_ x. (True, x)),
      os_Stat = (\<lambda>_ x. (Inr \<lparr>fi_ModTime = 0, fi_Size = 0, fi_Inode = None\<rparr>, x)),
      env_store = (\<lambda>x. (web_state, x)), env_trylock = (\<lambda>_ x. (True, x)),
      ctx_done = (\<lambda>x. (0 < x, x + 1)), sel_pick = (\<lambda>x. (False, x)), range_nets = (\<lambda>ns x. (ns, x)),
      range_rows = (\<lambda>st x. ([], x)), sort_newest = (\<lambda>cs x. (cs, x)), time_Now = (\<lambda>x. (0, x)), env_zone = (\<lambda>t. 0)\<rparr>"

text \<open>
  A cancelled request can leave the row in flight for good: in this run the
  context is cancelled after the start message, the pull fails, the select of the
  failure message takes the cancelled context, and the row keeps \<open>updating\<close>.
\<close>

theorem cancelled_update_stays_in_flight:
  "isl (fst (run_state (Update cancelled_env demo_oc ''web'') \<lparr>ext = 0, trace = []\<rparr>)) \<and>
   map_option ActionInFlight (Containers (fold Apply
     (sends (trace (snd (run_state (Update cancelled_env demo_oc ''web'') \<lparr>ext = 0, trace = []\<rparr>)))) web_state)
     ''web'') = Some ''updating''"
  by (simp add: Update_def drift_check_def demo_oc_def with_lock_def snapshot_of_def send_def
      sendFailureResult_def update_action_def pullAndVerifyDigest_def facade_defs cancelled_env_def
      web_state_def web_row_def zero_container_def action_start_msg_def Let_def)

section \<open>Pulls\<close>

text \<open>The digest a pull stream names, read off its messages without the loop.\<close>

definition aux_digests :: "pullJSONMessage list \<Rightarrow> string list" where
  "aux_digests ms = concat (map (\<lambda>m. case pm_Aux m of
     Aux i d \<Rightarrow> (if d \<noteq> '''' then [d] else if i \<noteq> '''' then [i] else []) | _ \<Rightarrow> []) ms)"

definition status_digests :: "pullJSONMessage list \<Rightarrow> string list" where
  "status_digests ms = concat (map (\<lambda>m.
     if HasPrefix (pm_Status m) ''Digest: sha256:'' then [TrimPrefix (pm_Status m) ''Digest: ''] else []) ms)"

definition clean_message :: "pullJSONMessage \<Rightarrow> bool" where
  "clean_message m \<longleftrightarrow> pm_Error m = '''' \<and> (\<forall>e. pm_Aux m \<noteq> BadAux e)"

lemma status_digest_neq: "HasPrefix s ''Digest: sha256:'' \<Longrightarrow> TrimPrefix s ''Digest: '' \<noteq> ''''"
  by (auto simp: HasPrefix_iff TrimPrefix_def)

lemma drain_clean:
  "list_all clean_message ms \<Longrightarrow>
     drain_messages ms None acc =
       (if aux_digests ms \<noteq> [] then Inr (last (aux_digests ms))
        else if acc \<noteq> '''' then Inr acc
        else if status_digests ms \<noteq> [] then Inr (hd (status_digests ms))
        else Inl (errors_New ''docker pull stream ended without aux digest''))"
proof (induction ms arbitrary: acc)
  case Nil
  then show ?case by (simp add: aux_digests_def status_digests_def)
next
  case (Cons m ms)
  have step: "aux_digests (m # ms) = (case pm_Aux m of
      Aux i d \<Rightarrow> (if d \<noteq> '''' then [d] else if i \<noteq> '''' then [i] else []) | _ \<Rightarrow> []) @ aux_digests ms"
    "status_digests (m # ms) = (if HasPrefix (pm_Status m) ''Digest: sha256:''
      then [TrimPrefix (pm_Status m) ''Digest: ''] else []) @ status_digests ms"
    by (simp_all add: aux_digests_def status_digests_def)
  from Cons.prems have clean: "pm_Error m = ''''" "\<forall>e. pm_Aux m \<noteq> BadAux e" "list_all clean_message ms"
    by (simp_all add: clean_message_def [of m])
  show ?case
    unfolding step using clean Cons.IH [OF clean(3)] status_digest_neq [of "pm_Status m"]
    by (auto simp: Let_def split: pull_aux.splits)
qed

text \<open>
  C30. The digest of a pull stream: on a stream without error messages that ends
  properly, it is the last aux digest if any aux message carries one, else the first
  \<open>Digest: sha256:\<close> status line (the only trace of a pull that had nothing to do);
  a stream with neither is an error.
\<close>

theorem drain_digest:
  assumes "list_all clean_message (ps_messages rc)" and "ps_decode_end rc = None"
  shows "drainPullStream rc =
    (if aux_digests (ps_messages rc) \<noteq> [] then Inr (last (aux_digests (ps_messages rc)))
     else if status_digests (ps_messages rc) \<noteq> [] then Inr (hd (status_digests (ps_messages rc)))
     else Inl (errors_New ''docker pull stream ended without aux digest''))"
  unfolding drainPullStream_def assms(2) drain_clean [OF assms(1)] by simp

definition noop_stream :: PullStream where
  "noop_stream =
     \<lparr>ps_messages =
        [\<lparr>pm_Status = ''Pulling from web'', pm_Error = '''', pm_Aux = NoAux\<rparr>,
         \<lparr>pm_Status = ''Digest: sha256:d1'', pm_Error = '''', pm_Aux = NoAux\<rparr>],
      ps_decode_end = None, ps_copy_end = None\<rparr>"

theorem drain_digest_witness: "drainPullStream noop_stream = Inr ''sha256:d1''"
  using drain_digest [of noop_stream]
  by (simp add: noop_stream_def clean_message_def aux_digests_def status_digests_def TrimPrefix_def)

text \<open>
  C29. A pull is accepted only when the digest its stream names is the digest the
  registry reports for the same reference; every failure is \<open>ErrPullFailed\<close>.
\<close>

theorem pull_agrees_with_registry:
  assumes "answers (sdk_ImagePull E (image_ref repo tag)) (Inr rc)"
    and "answers (reg_Digest E (image_ref repo tag)) dig"
    and "run_state (pullAndVerifyDigest E repo tag) w = (r, w')"
  shows "(\<forall>d. r = Inr d \<longleftrightarrow> drainPullStream rc = Inr d \<and> dig = Inr d) \<and>
    (\<forall>e. r = Inl e \<longrightarrow> errors_Is e ErrPullFailed)"
proof -
  have pull: "ensures (ImagePull E (image_ref repo tag)) Q"
    if "Q (Inr rc) [EImagePull (image_ref repo tag)]" for Q
    unfolding ImagePull_def
    by (rule ensures_bind, rule extcall_answers [OF assms(1)], rule ensures_return) (simp add: that)
  have "ensures (pullAndVerifyDigest E repo tag) (\<lambda>r es.
      (\<forall>d. r = Inr d \<longleftrightarrow> drainPullStream rc = Inr d \<and> dig = Inr d) \<and>
      (\<forall>e. r = Inl e \<longrightarrow> errors_Is e ErrPullFailed))"
    unfolding pullAndVerifyDigest_def Let_def Digest_def
    apply (rule ensures_bind, rule pull)
    apply (simp only: sum.case)
    apply (rule ensures_case_sum)
    subgoal by (intro emits) (simp add: pull_failed_def)
    subgoal
      apply (rule ensures_bind, rule extcall_answers [OF assms(2)])
      apply (intro emits)
      apply (auto simp: pull_failed_def)
      done
    done
  from ensuresD [OF this assms(3)] show ?thesis by blast
qed

theorem pull_agrees_with_registry_witness:
  "fst (run_state (pullAndVerifyDigest (demo_env\<lparr>sdk_ImagePull := (\<lambda>_ x. (Inr noop_stream, x))\<rparr>) ''web'' '''')
     world0) = Inr ''sha256:d1''"
proof -
  let ?E = "demo_env\<lparr>sdk_ImagePull := (\<lambda>_ x. (Inr noop_stream, x))\<rparr>"
  have "answers (sdk_ImagePull ?E (image_ref ''web'' '''')) (Inr noop_stream)"
    and "answers (reg_Digest ?E (image_ref ''web'' '''')) (Inr ''sha256:d1'')"
    by (simp_all add: answers_def demo_env_def)
  from pull_agrees_with_registry [OF this prod.collapse [symmetric], of world0]
  show ?thesis
    by (simp add: drainPullStream_def noop_stream_def TrimPrefix_def Let_def)
qed

section \<open>Rollback targets\<close>

lemma scan_digests_picked:
  "scan_digests cur p rds = (b, d) \<Longrightarrow>
     (d = p \<or> (\<exists>rd \<in> set rds. \<exists>at. Index rd ''@sha256:'' = Some at \<and> d = drop (at + 1) rd)) \<and>
     (\<not> b \<and> cur \<noteq> '''' \<and> p \<noteq> cur \<longrightarrow> d \<noteq> cur)"
proof (induction rds arbitrary: p)
  case (Cons rd rds)
  show ?case
  proof (cases "Index rd ''@sha256:''")
    case None
    with Cons show ?thesis by auto
  next
    case (Some at)
    let ?d = "drop (at + 1) rd"
    show ?thesis
    proof (cases "cur \<noteq> '''' \<and> ?d = cur")
      case True
      with Some Cons.prems show ?thesis by (auto simp: Let_def)
    next
      case False
      with Some Cons.prems have "scan_digests cur (if p = '''' then ?d else p) rds = (b, d)"
        by (auto simp: Let_def split: if_splits)
      from Cons.IH [OF this] False Some show ?thesis by (auto split: if_splits)
    qed
  qed
qed simp

lemma rollback_candidate:
  assumes "(d, created) \<in> set (rollback_candidates cur at imgs)"
  shows "d \<noteq> '''' \<and> (cur \<noteq> '''' \<longrightarrow> d \<noteq> cur) \<and>
    (\<not> IsZero at \<and> 0 < Unix at \<longrightarrow> created < Unix at) \<and>
    (\<exists>img \<in> set imgs. created = im_Created img \<and>
       (\<exists>rd \<in> set (im_RepoDigests img). \<exists>i. Index rd ''@sha256:'' = Some i \<and> d = drop (i + 1) rd))"
proof -
  from assms obtain img b where img: "img \<in> set imgs" "created = im_Created img" "d \<noteq> ''''"
    and scan: "scan_digests cur '''' (im_RepoDigests img) = (b, d)" and "\<not> b"
    and "\<not> ((if IsZero at then 0 else Unix at) > 0 \<and> im_Created img \<ge> (if IsZero at then 0 else Unix at))"
    by (auto simp: rollback_candidates_def Let_def split: prod.splits if_splits)
  with scan_digests_picked [OF scan] show ?thesis by (auto simp: not_le)
qed

lemma fallback_emits:
  assumes "sorts E" and "answers (sdk_ImageList E repo) (Inr imgs)" and "repo \<noteq> ''''"
  shows "ensures (findFallbackRollbackTarget E repo cur at) (\<lambda>r es. \<exists>d. r = Inr d \<and>
    (d = '''' \<longleftrightarrow> rollback_candidates cur at imgs = []) \<and>
    (d \<noteq> '''' \<longrightarrow> (\<exists>created. (d, created) \<in> set (rollback_candidates cur at imgs) \<and>
       (\<forall>(d', c') \<in> set (rollback_candidates cur at imgs). c' \<le> created))))"
proof -
  have list: "ensures (ImageList E repo) Q" if "Q (Inr imgs) [EImageList repo]" for Q
    unfolding ImageList_def
    by (rule ensures_bind, rule extcall_answers [OF assms(2)], rule ensures_return) (simp add: that)
  have srt: "ensures (observe (sort_newest E cs)) Q"
    if "\<And>ds. mset ds = mset cs \<Longrightarrow> sorted_wrt (\<lambda>a b. snd a \<ge> snd b) ds \<Longrightarrow> Q ds []" for Q cs
    using assms(1) that by (auto simp: sorts_def ensures_def split: prod.splits) (metis fst_conv)
  have hd_max: "hd ds \<in> set cs \<and> (\<forall>(d', c') \<in> set cs. c' \<le> snd (hd ds))"
    if "mset ds = mset cs" "sorted_wrt (\<lambda>a b. snd a \<ge> snd b) ds" "cs \<noteq> []" for ds cs :: "(string \<times> int) list"
  proof -
    from that obtain x xs where "ds = x # xs" by (cases ds) auto
    moreover from that(1) have "set ds = set cs" by (rule mset_eq_setD)
    ultimately show ?thesis using that(2) by (auto simp: ball_Un) (metis insert_iff snd_conv order_refl)+
  qed
  show ?thesis
    unfolding findFallbackRollbackTarget_def
    apply (rule ensures_if)
    subgoal using assms(3) by simp
    apply (rule ensures_bind, rule list)
    apply (simp only: sum.case)
    apply (cases "rollback_candidates cur at imgs")
    subgoal by (simp, intro emits) simp
    subgoal for c cs
      apply (simp only: list.case)
      apply (rule ensures_bind, rule srt)
      apply (rule ensures_return)
      subgoal premises prems for ds
      proof -
        from hd_max [OF prems(3,4)] have m: "hd ds \<in> set (c # cs)"
          and mx: "\<forall>(d', c') \<in> set (c # cs). c' \<le> snd (hd ds)" by auto
        with rollback_candidate [of "fst (hd ds)" "snd (hd ds)" cur at imgs] prems(2)
        have "fst (hd ds) \<noteq> ''''" by simp
        with m mx show ?thesis unfolding prems(2)
          by (intro exI [of _ "fst (hd ds)"] conjI impI exI [of _ "snd (hd ds)"]) auto
      qed
      done
    done
qed

text \<open>
  The images a rollback may fall back to, without reference to the scan: the digests that
  an image's repository references name, and the images that name one, do not name the
  current digest and, when the build date of the current image is known, were built
  strictly before it.
\<close>

definition named_digests :: "ImageSummary \<Rightarrow> string list" where
  "named_digests img =
     map (\<lambda>rd. drop (the (Index rd ''@sha256:'') + 1) rd)
       (filter (\<lambda>rd. Contains rd ''@sha256:'') (im_RepoDigests img))"

definition older_image :: "string \<Rightarrow> Time \<Rightarrow> ImageSummary \<Rightarrow> bool" where
  "older_image cur at img \<longleftrightarrow>
     named_digests img \<noteq> [] \<and> (cur \<noteq> '''' \<longrightarrow> cur \<notin> set (named_digests img)) \<and>
     (at \<noteq> 0 \<and> 0 < Unix at \<longrightarrow> im_Created img < Unix at)"

lemma named_digest_neq: "d \<in> set (named_digests img) \<Longrightarrow> d \<noteq> ''''"
proof -
  assume "d \<in> set (named_digests img)"
  then obtain rd i where "Index rd ''@sha256:'' = Some i" and d: "d = drop (i + 1) rd"
    by (auto simp: named_digests_def Contains_def)
  from Index_Some [OF this(1)] have "i + 1 < length rd" by simp
  then show ?thesis unfolding d by simp
qed

lemma scan_digests_named:
  "(\<And>d. d \<in> set (named_digests \<lparr>im_RepoDigests = rds, im_Created = t\<rparr>) \<Longrightarrow> d \<noteq> '''') \<Longrightarrow>
   scan_digests cur p rds =
     (let ds = named_digests \<lparr>im_RepoDigests = rds, im_Created = t\<rparr>
      in if cur \<noteq> '''' \<and> cur \<in> set ds
         then (True, if p = '''' then hd (takeWhile (\<lambda>d. d \<noteq> cur) ds @ ['''']) else p)
         else (False, if p = '''' then hd (ds @ ['''']) else p))"
proof (induction rds arbitrary: p)
  case Nil
  show ?case by (simp add: named_digests_def)
next
  case (Cons rd rds)
  show ?case
  proof (cases "Index rd ''@sha256:''")
    case None
    then have "named_digests \<lparr>im_RepoDigests = rd # rds, im_Created = t\<rparr> =
        named_digests \<lparr>im_RepoDigests = rds, im_Created = t\<rparr>"
      by (simp add: named_digests_def Contains_def)
    with None Cons show ?thesis by simp
  next
    case (Some i)
    let ?d = "drop (i + 1) rd"
    have ds: "named_digests \<lparr>im_RepoDigests = rd # rds, im_Created = t\<rparr> =
        ?d # named_digests \<lparr>im_RepoDigests = rds, im_Created = t\<rparr>"
      using Some by (simp add: named_digests_def Contains_def)
    have "?d \<noteq> ''''" using Cons.prems [of ?d] unfolding ds by simp
    moreover have IH: "scan_digests cur q rds =
     (let ds = named_digests \<lparr>im_RepoDigests = rds, im_Created = t\<rparr>
      in if cur \<noteq> '''' \<and> cur \<in> set ds
         then (True, if q = '''' then hd (takeWhile (\<lambda>d. d \<noteq> cur) ds @ ['''']) else q)
         else (False, if q = '''' then hd (ds @ ['''']) else q))" for q
      by (rule Cons.IH) (use Cons.prems in \<open>simp add: ds\<close>)
    ultimately show ?thesis
      unfolding ds scan_digests.simps Some option.case Let_def
      by (cases "?d = cur") (auto simp: IH Let_def)
  qed
qed

lemma candidates_exact:
  "rollback_candidates cur at imgs =
     map (\<lambda>img. (hd (named_digests img), im_Created img)) (filter (older_image cur at) imgs)"
proof (induction imgs)
  case (Cons img imgs)
  have rest: "rollback_candidates cur at (img # imgs) =
      rollback_candidates cur at [img] @ rollback_candidates cur at imgs"
    by (simp add: rollback_candidates_def Let_def)
  have img: "\<lparr>im_RepoDigests = im_RepoDigests img, im_Created = im_Created img\<rparr> = img" by simp
  note scan = scan_digests_named [of "im_RepoDigests img" "im_Created img" cur "''''", unfolded img,
      OF named_digest_neq, simplified]
  have neq: "named_digests img \<noteq> [] \<Longrightarrow> hd (named_digests img) \<noteq> ''''"
    by (rule named_digest_neq) (rule hd_in_set)
  have "rollback_candidates cur at [img] =
      (if older_image cur at img then [(hd (named_digests img), im_Created img)] else [])"
    using neq
    by (cases "named_digests img = []")
       (auto simp: rollback_candidates_def scan older_image_def IsZero_def Let_def)
  then show ?case unfolding rest by (simp add: Cons.IH)
qed (simp add: rollback_candidates_def)

text \<open>
  C28. The fallback of a rollback is the newest real downgrade among all the images the
  daemon lists for the repository: nothing is found exactly when none of them is an
  older image than the current one that names a digest; otherwise the result is the
  first digest that such an image names, and no image of this kind is newer.
\<close>

theorem fallback_is_newest_downgrade:
  assumes "sorts E" and "answers (sdk_ImageList E repo) (Inr imgs)" and "repo \<noteq> ''''"
    and "run_state (findFallbackRollbackTarget E repo cur at) w = (r, w')"
  shows "\<exists>d. r = Inr d \<and> (d = '''' \<longleftrightarrow> (\<forall>img \<in> set imgs. \<not> older_image cur at img)) \<and>
    (d \<noteq> '''' \<longrightarrow> (cur \<noteq> '''' \<longrightarrow> d \<noteq> cur) \<and>
       (\<exists>img \<in> set imgs. older_image cur at img \<and> d = hd (named_digests img) \<and>
          (\<forall>img' \<in> set imgs. older_image cur at img' \<longrightarrow> im_Created img' \<le> im_Created img)))"
proof -
  from ensuresD [OF fallback_emits [OF assms(1-3)] assms(4)] obtain d where r: "r = Inr d"
    and none: "d = '''' \<longleftrightarrow> rollback_candidates cur at imgs = []"
    and some: "d \<noteq> '''' \<Longrightarrow> \<exists>created. (d, created) \<in> set (rollback_candidates cur at imgs) \<and>
       (\<forall>(d', c') \<in> set (rollback_candidates cur at imgs). c' \<le> created)" by blast
  have empty: "d = '''' \<longleftrightarrow> (\<forall>img \<in> set imgs. \<not> older_image cur at img)"
    unfolding none candidates_exact by (simp add: filter_empty_conv)
  have best: "\<exists>img \<in> set imgs. older_image cur at img \<and> d = hd (named_digests img) \<and>
      (\<forall>img' \<in> set imgs. older_image cur at img' \<longrightarrow> im_Created img' \<le> im_Created img)" if "d \<noteq> ''''"
    using some [OF that] unfolding candidates_exact by fastforce
  have "d \<noteq> cur" if "d \<noteq> ''''" "cur \<noteq> ''''"
    using best [OF that(1)] that(2) unfolding older_image_def by (metis hd_in_set)
  with r empty best show ?thesis by blast
qed

definition cached_images :: "ImageSummary list" where
  "cached_images =
     [\<lparr>im_RepoDigests = [''web@sha256:a''], im_Created = 10\<rparr>,
      \<lparr>im_RepoDigests = [''web@sha256:b''], im_Created = 20\<rparr>,
      \<lparr>im_RepoDigests = [''web@sha256:cur''], im_Created = 30\<rparr>]"

theorem fallback_is_newest_downgrade_witness:
  "fst (run_state (findFallbackRollbackTarget (demo_env\<lparr>sdk_ImageList := (\<lambda>_ x. (Inr cached_images, x))\<rparr>)
        ''web'' ''sha256:cur'' 0) world0) = Inr ''sha256:b''"
proof -
  let ?E = "demo_env\<lparr>sdk_ImageList := (\<lambda>_ x. (Inr cached_images, x))\<rparr>"
  have "sorted_wrt (\<lambda>a b. snd b \<le> snd a) (sort_key (\<lambda>c. - snd c) xs)" for xs :: "(string \<times> int) list"
    using sorted_sort_key [of "\<lambda>c. - snd c" xs] by (simp add: sorted_map)
  then have "sorts ?E" by (simp add: sorts_def demo_env_def)
  moreover have "answers (sdk_ImageList ?E ''web'') (Inr cached_images)" by (simp add: answers_def)
  moreover have older: "map (older_image ''sha256:cur'' 0) cached_images = [True, True, False]"
    by (simp add: cached_images_def older_image_def named_digests_def Contains_def)
  moreover have "map (\<lambda>img. hd (named_digests img)) cached_images = [''sha256:a'', ''sha256:b'', ''sha256:cur'']"
    by (simp add: cached_images_def named_digests_def Contains_def)
  ultimately show ?thesis
    using fallback_is_newest_downgrade [OF _ _ _ prod.collapse [symmetric], of ?E "''web''" cached_images
        "''sha256:cur''" 0 world0] by (auto simp: cached_images_def)
qed

text \<open>
  What the daemon knows of a digest, \<open>insp\<close> being its answers: the build date of the image,
  found under the repository or else by the digest alone; and whether the recorded
  previous digest is still there and is another one than the current.
\<close>

definition build_date :: "(string \<Rightarrow> ImageInspectResponse result) \<Rightarrow> string \<Rightarrow> string \<Rightarrow> Time option" where
  "build_date insp repo digest =
     (case insp (if repo = '''' then digest else repo @ ''@'' @ digest) of
        Inr img \<Rightarrow> parse_RFC3339 (ii_Created img)
      | Inl _ \<Rightarrow> (case insp digest of Inr img \<Rightarrow> parse_RFC3339 (ii_Created img) | Inl _ \<Rightarrow> None))"

definition recorded_previous :: "(string \<Rightarrow> ImageInspectResponse result) \<Rightarrow> Container \<Rightarrow> bool" where
  "recorded_previous insp c \<longleftrightarrow>
     PreviousDigest c \<noteq> '''' \<and> PreviousDigest c \<noteq> CurrentDigest c \<and>
     (\<not> isl (insp (ImageRepo c @ ''@'' @ PreviousDigest c)) \<or> \<not> isl (insp (PreviousDigest c)))"

definition reads_images :: "effect \<Rightarrow> bool" where
  "reads_images e \<longleftrightarrow> e \<in> range EImageInspect \<union> range EImageList"

lemma reads_images_simps [simp]: "reads_images (EImageInspect r)" "reads_images (EImageList r)"
  by (simp_all add: reads_images_def)

lemma parse_RFC3339_empty: "parse_RFC3339 '''' = None"
  by code_simp

lemma ImageInspect_answers:
  "answers (sdk_ImageInspect E ref) ir \<Longrightarrow>
   Q (map_sum (wrap (''docker.ImageInspect '' @ ref @ '': '')) id ir) [EImageInspect ref] \<Longrightarrow>
     ensures (ImageInspect E ref) Q"
  unfolding ImageInspect_def by (rule ensures_bind, erule extcall_answers, rule ensures_return) simp

lemma only_reads_fallback [allows]: "only reads_images (fallback_target E snapshot)"
  unfolding fallback_target_def findFallbackRollbackTarget_def by (intro allows) simp_all

lemma rollback_target_known:
  assumes "\<And>ref. answers (sdk_ImageInspect E ref) (insp ref)"
  shows "ensures (rollback_target E snapshot) (\<lambda>target es.
    (\<forall>e \<in> set es. reads_images e) \<and> (recorded_previous insp snapshot \<longrightarrow> target = PreviousDigest snapshot))"
proof -
  have "only reads_images (rollback_target E snapshot)"
    unfolding rollback_target_def present_previous_def by (intro allows) simp_all
  moreover have "ensures (rollback_target E snapshot) (\<lambda>target es. target = PreviousDigest snapshot)"
    if "recorded_previous insp snapshot"
    unfolding rollback_target_def present_previous_def
    using that unfolding recorded_previous_def
    by (cases "insp (ImageRepo snapshot @ ''@'' @ PreviousDigest snapshot)"; cases "insp (PreviousDigest snapshot)")
       (auto intro!: ensures_bind ImageInspect_answers [OF assms] ensures_return)
  moreover have "ensures (rollback_target E snapshot) (\<lambda>target es. True)"
    using \<open>only reads_images _\<close> unfolding only_def by (rule ensures_weaken) simp
  ultimately show ?thesis unfolding only_def by (intro ensures_conj) (cases "recorded_previous insp snapshot"; simp)+
qed

lemma newer_or_same_known:
  assumes "\<And>ref. answers (sdk_ImageInspect E ref) (insp ref)" and "CurrentDigestAt snapshot \<noteq> 0" and "target \<noteq> ''''"
  shows "ensures (newer_or_same E snapshot target) (\<lambda>bad es. (\<forall>e \<in> set es. reads_images e) \<and>
    (bad \<longleftrightarrow> (\<exists>t. build_date insp (ImageRepo snapshot) target = Some t \<and> CurrentDigestAt snapshot \<le> t)))"
proof -
  let ?ref = "if ImageRepo snapshot \<noteq> '''' then ImageRepo snapshot @ ''@'' @ target else target"
  have ref: "?ref = (if ImageRepo snapshot = '''' then target else ImageRepo snapshot @ ''@'' @ target)" by simp
  have created: "(if ii_Created img = '''' then None else parse_RFC3339 (ii_Created img)) = parse_RFC3339 (ii_Created img)"
    for img by (simp add: parse_RFC3339_empty)
  show ?thesis
    unfolding newer_or_same_def inspectImageCreated_def created
    using assms(2,3) unfolding IsZero_def
    apply (simp only: if_False)
    apply (intro ensures_bind ImageInspect_answers [OF assms(1)])
    apply (cases "insp ?ref"; cases "insp target")
    apply (simp_all only: map_sum.simps sum.case)
    apply (intro ensures_bind ImageInspect_answers [OF assms(1)] ensures_return;
        simp add: build_date_def Before_def not_less split: option.splits if_splits)+
    done
qed

text \<open>After the gate: the target is what is tagged, and what a success returns.\<close>

lemma rollback_action_target:
  "ensures (rollback_action E oc service snapshot target) (\<lambda>r es.
     (\<forall>src dst. EImageTag src dst \<in> set es \<longrightarrow> src = ImageRepo snapshot @ ''@'' @ target \<or> src = target) \<and>
     (\<forall>res. r = Inr res \<longrightarrow> ar_CurrentDigest res = target))"
proof (rule ensures_conj)
  let ?P = "\<lambda>e. \<forall>src dst. e = EImageTag src dst \<longrightarrow> src = ImageRepo snapshot @ ''@'' @ target \<or> src = target"
  have "only ?P (rollback_action E oc service snapshot target)"
    unfolding rollback_action_def retag_def recreate_swap_verify_def sendFailureResult_def Let_def
    by (intro allows only_mono [OF only_calm_recreate] only_mono [OF only_calm_verify]) (auto simp: calm_def)
  then show "ensures (rollback_action E oc service snapshot target) (\<lambda>r es.
     \<forall>src dst. EImageTag src dst \<in> set es \<longrightarrow> src = ImageRepo snapshot @ ''@'' @ target \<or> src = target)"
    unfolding only_def by (rule ensures_weaken) blast
  show "ensures (rollback_action E oc service snapshot target) (\<lambda>r es. \<forall>res. r = Inr res \<longrightarrow> ar_CurrentDigest res = target)"
    unfolding rollback_action_def recreate_swap_verify_def sendFailureResult_def Let_def
    by (intro ensures_bind ensures_case_option ensures_case_sum ensures_return ensures_observe send_emits
        quiet_emits [OF only_quiet_rollback_parts(3)] quiet_emits [OF only_quiet_recreate]
        quiet_emits [OF only_quiet_verify]) auto
qed

definition gated :: "(string \<Rightarrow> ImageInspectResponse result) \<Rightarrow> Container \<Rightarrow> ActionResult result \<Rightarrow> effect list \<Rightarrow> bool" where
  "gated insp c r es \<longleftrightarrow>
     ((\<forall>e \<in> set es. reads_images e) \<and> (\<forall>res. r = Inr res \<longrightarrow> ar_NoOp res) \<or>
      (\<exists>target. target \<noteq> CurrentDigest c \<and>
         (\<forall>t. build_date insp (ImageRepo c) target = Some t \<longrightarrow> t < CurrentDigestAt c) \<and>
         (\<forall>src dst. EImageTag src dst \<in> set es \<longrightarrow> src = ImageRepo c @ ''@'' @ target \<or> src = target) \<and>
         (\<forall>res. r = Inr res \<longrightarrow> ar_CurrentDigest res = target))) \<and>
     (recorded_previous insp c \<and>
        (\<exists>t. build_date insp (ImageRepo c) (PreviousDigest c) = Some t \<and> CurrentDigestAt c \<le> t) \<longrightarrow>
      (\<forall>e \<in> set es. reads_images e) \<and> (\<exists>e. r = Inl e \<and> errors_Is e ErrNotADowngrade))"

lemma gated_action:
  assumes "\<forall>e \<in> set pre. reads_images e" and "target \<noteq> CurrentDigest c"
    and "recorded_previous insp c \<longrightarrow> target = PreviousDigest c"
    and "\<not> (\<exists>t. build_date insp (ImageRepo c) target = Some t \<and> CurrentDigestAt c \<le> t)"
    and "(\<forall>src dst. EImageTag src dst \<in> set es \<longrightarrow> src = ImageRepo c @ ''@'' @ target \<or> src = target) \<and>
     (\<forall>res. r = Inr res \<longrightarrow> ar_CurrentDigest res = target)"
  shows "gated insp c r (pre @ es)"
proof -
  have "EImageTag src dst \<notin> set pre" for src dst using assms(1) by (auto simp: reads_images_def)
  then have "\<exists>target. target \<noteq> CurrentDigest c \<and>
         (\<forall>t. build_date insp (ImageRepo c) target = Some t \<longrightarrow> t < CurrentDigestAt c) \<and>
         (\<forall>src dst. EImageTag src dst \<in> set (pre @ es) \<longrightarrow> src = ImageRepo c @ ''@'' @ target \<or> src = target) \<and>
         (\<forall>res. r = Inr res \<longrightarrow> ar_CurrentDigest res = target)"
    using assms(2,4,5) by (intro exI [of _ target]) (metis Un_iff not_le set_append)
  moreover have "\<not> (recorded_previous insp c \<and>
        (\<exists>t. build_date insp (ImageRepo c) (PreviousDigest c) = Some t \<and> CurrentDigestAt c \<le> t))"
    using assms(3,4) by metis
  ultimately show ?thesis unfolding gated_def by blast
qed

lemma rollback_body_gated:
  assumes insp: "\<And>ref. answers (sdk_ImageInspect E ref) (insp ref)" and "CurrentDigestAt snapshot \<noteq> 0"
    and store: "answers (env_store E) st0" "Containers st0 service = Some snapshot"
  shows "ensures (rollback_body E oc service) (gated insp snapshot)"
  unfolding rollback_body_def
  apply (rule ensures_bind, rule snapshot_of_known [OF store(1)])
  apply (simp only: store(2) option.case)
  apply (rule ensures_bind, rule ensures_weaken [OF rollback_target_known [OF insp, of snapshot]])
  subgoal for target es
    apply (rule ensures_if)
    subgoal by (rule ensures_return) (auto simp: gated_def recorded_previous_def)
    apply (rule ensures_if)
    subgoal by (rule ensures_return) (auto simp: gated_def recorded_previous_def)
    apply (rule ensures_bind, rule ensures_weaken [OF newer_or_same_known [OF insp assms(2)]], assumption)
    subgoal for bad es'
      apply (rule ensures_if)
      subgoal by (rule ensures_return) (auto simp: gated_def not_a_downgrade_def)
      subgoal by (rule ensures_weaken [OF rollback_action_target [of E oc service snapshot target]],
          simp only: append_Nil append.assoc [symmetric], rule gated_action [of _ target]) auto
      done
    done
  done

text \<open>
  C27. Rollback never goes forward. When the build date of the current image is known, a
  rollback that does more than inspect and list images, inside the lock of the service,
  works on a target that is not the current digest and, if its own build date is known,
  was built strictly before the current image: this is the only image it tags, and the
  digest a success returns. In particular, a recorded previous digest that is present and
  was built no earlier is refused with \<open>ErrNotADowngrade\<close>, unless the action did not
  start at all; so a second rollback does not return to the newer image.
\<close>

theorem rollback_refuses_non_downgrade:
  assumes insp: "\<And>ref. answers (sdk_ImageInspect E ref) (insp ref)"
    and "CurrentDigestAt snapshot \<noteq> 0"
    and store: "answers (env_store E) st0" "Containers st0 service = Some snapshot"
    and run: "run_state (Rollback E oc service) w = (r, w')"
  shows "\<exists>es. trace w' = trace w @ es \<and>
    ((\<forall>e \<in> set es. e \<in> {ELock service, EUnlock service} \<union> range EImageInspect \<union> range EImageList) \<and>
       (\<forall>res. r = Inr res \<longrightarrow> ar_NoOp res) \<or>
     (\<exists>target. target \<noteq> CurrentDigest snapshot \<and>
        (\<forall>t. build_date insp (ImageRepo snapshot) target = Some t \<longrightarrow> t < CurrentDigestAt snapshot) \<and>
        (\<forall>src dst. EImageTag src dst \<in> set es \<longrightarrow> src = ImageRepo snapshot @ ''@'' @ target \<or> src = target) \<and>
        (\<forall>res. r = Inr res \<longrightarrow> ar_CurrentDigest res = target))) \<and>
    (recorded_previous insp snapshot \<and>
       (\<exists>t. build_date insp (ImageRepo snapshot) (PreviousDigest snapshot) = Some t \<and> CurrentDigestAt snapshot \<le> t) \<longrightarrow>
     es = [] \<and> isl r \<or>
     (\<forall>e \<in> set es. e \<in> {ELock service, EUnlock service} \<union> range EImageInspect \<union> range EImageList) \<and>
       (\<exists>e. r = Inl e \<and> errors_Is e ErrNotADowngrade))"
proof -
  from ensuresD [OF Rollback_bracketed [OF rollback_body_gated [OF assms(1-4)]] run] obtain es where
    es: "trace w' = trace w @ es" and "bracketed service (gated insp snapshot) r es" by blast
  then consider "es = []" "turned_away r"
    | mid where "es = [ELock service] @ mid @ [EUnlock service]" "gated insp snapshot r mid"
    unfolding bracketed_def by blast
  then show ?thesis
  proof cases
    case 1
    with es turned_away_isl [of r] show ?thesis by (intro exI [of _ es]) (auto simp: isl_def)
  next
    case 2
    have tags: "EImageTag src dst \<in> set es \<longleftrightarrow> EImageTag src dst \<in> set mid" for src dst unfolding 2(1) by simp
    have reads: "(\<forall>e \<in> set es. e \<in> {ELock service, EUnlock service} \<union> range EImageInspect \<union> range EImageList)"
      if "\<forall>e \<in> set mid. reads_images e" using that unfolding 2(1) reads_images_def by auto
    from 2(2) reads es show ?thesis unfolding gated_def tags [symmetric] by (intro exI [of _ es]) blast
  qed
qed

definition poisoned_row :: Container where
  "poisoned_row = web_row\<lparr>PreviousDigest := ''sha256:newer'', CurrentDigestAt := 1\<rparr>"

definition poisoned_env :: "unit Env" where
  "poisoned_env = demo_env\<lparr>env_store := (\<lambda>x. (empty_state\<lparr>Containers := [''web'' \<mapsto> poisoned_row]\<rparr>, x)),
     sdk_ImageInspect := (\<lambda>_ x. (Inr \<lparr>ii_RepoDigests = [], ii_Created = ''2026-05-17T08:30:00Z'',
       ii_ConfigLabels = None\<rparr>, x))\<rparr>"

lemma poisoned_time: "map_option (\<lambda>t. 1 \<le> t) (parse_RFC3339 ''2026-05-17T08:30:00Z'') = Some True"
  by code_simp

theorem rollback_refuses_non_downgrade_witness:
  "\<exists>e. fst (run_state (Rollback poisoned_env demo_oc ''web'') world0) = Inl e \<and> errors_Is e ErrNotADowngrade"
proof -
  let ?img = "Inr \<lparr>ii_RepoDigests = [], ii_Created = ''2026-05-17T08:30:00Z'', ii_ConfigLabels = None\<rparr>"
  let ?st = "empty_state\<lparr>Containers := [''web'' \<mapsto> poisoned_row]\<rparr>"
  let ?r = "run_state (Rollback poisoned_env demo_oc ''web'') world0"
  have insp: "answers (sdk_ImageInspect poisoned_env ref) ((\<lambda>_. ?img) ref)" for ref
    by (simp add: answers_def poisoned_env_def)
  have store: "answers (env_store poisoned_env) ?st" "Containers ?st ''web'' = Some poisoned_row"
    by (simp_all add: answers_def poisoned_env_def)
  have dated: "CurrentDigestAt poisoned_row \<noteq> 0" by (simp add: poisoned_row_def)
  obtain t where "parse_RFC3339 ''2026-05-17T08:30:00Z'' = Some t" and "1 \<le> t" using poisoned_time by auto
  then have "\<exists>t. build_date (\<lambda>_. ?img) (ImageRepo poisoned_row) (PreviousDigest poisoned_row) = Some t \<and>
      CurrentDigestAt poisoned_row \<le> t" by (simp add: build_date_def poisoned_row_def)
  moreover have "recorded_previous (\<lambda>_. ?img) poisoned_row"
    by (simp add: recorded_previous_def poisoned_row_def web_row_def)
  moreover have "trace (snd ?r) \<noteq> trace world0"
    by (simp add: Rollback_def drift_check_def demo_oc_def with_lock_def snapshot_of_def poisoned_env_def demo_env_def
        world0_def empty_state_def split: prod.split)
  moreover from rollback_refuses_non_downgrade [OF insp dated store prod.collapse [symmetric], of demo_oc world0]
  obtain es where "trace (snd ?r) = trace world0 @ es"
    and "recorded_previous (\<lambda>_. ?img) poisoned_row \<and>
       (\<exists>t. build_date (\<lambda>_. ?img) (ImageRepo poisoned_row) (PreviousDigest poisoned_row) = Some t \<and>
          CurrentDigestAt poisoned_row \<le> t) \<longrightarrow>
     es = [] \<and> isl (fst ?r) \<or>
     (\<forall>e \<in> set es. e \<in> {ELock ''web'', EUnlock ''web''} \<union> range EImageInspect \<union> range EImageList) \<and>
       (\<exists>e. fst ?r = Inl e \<and> errors_Is e ErrNotADowngrade)" by (elim exE conjE)
  ultimately show ?thesis by (simp only: simp_thms append_Nil2) auto
qed

text \<open>
  An update of a container without a recorded digest records the name of its
  repository, not an image id, as the digest to roll back to.
\<close>

theorem sideloaded_previous_is_repo_name:
  assumes "CurrentDigest snapshot = ''''" and "ImageRepo snapshot \<noteq> ''''" and "ImageRepo snapshot \<noteq> d"
    and "Containers st service = Some c"
  shows "map_option PreviousDigest (Containers (Apply (update_swap_msg service snapshot d t) st) service) =
    Some (ImageRepo snapshot)"
  using assms by (simp add: update_swap_msg_def Let_def)

theorem sideloaded_previous_is_repo_name_witness:
  "map_option PreviousDigest (Containers (Apply (update_swap_msg ''web'' (web_row\<lparr>CurrentDigest := ''''\<rparr>)
     ''sha256:d1'' 5) web_state) ''web'') = Some ''ghcr.io/web''"
  using sideloaded_previous_is_repo_name [of "web_row\<lparr>CurrentDigest := ''''\<rparr>" "''sha256:d1''" web_state "''web''"
      web_row 5] by (simp add: web_row_def web_state_def)

section \<open>The orchestrator as a producer\<close>

definition action_sends :: "AppState \<Rightarrow> StateUpdate \<Rightarrow> bool" where
  "action_sends snap u \<longleftrightarrow>
     (\<exists>s what. what \<in> action_states \<and> u = action_start_msg s what) \<or> (\<exists>s. u = progress_msg s) \<or>
     (\<exists>s c d t. u = update_swap_msg s c d t) \<or> (\<exists>s c d t. u = rollback_swap_msg s c d t) \<or>
     (\<exists>s. u = action_done_msg s) \<or> (\<exists>s d. u = force_pull_msg s d) \<or> (\<exists>s ph e. u = failure_msg s ph e)"

lemma safe_action_msgs:
  "what \<in> action_states \<Longrightarrow> safe D (action_start_msg s what)"
  "safe D (progress_msg s)" "safe D (update_swap_msg s c d t)" "safe D (rollback_swap_msg s c d t)"
  "safe D (action_done_msg s)" "safe D (force_pull_msg s d)" "safe D (failure_msg s ph e)"
  unfolding action_msg_defs Let_def
  by (intro safe_with_row safe_scalar; simp add: row_ok_def action_states_def)+

interpretation actions: producer action_sends
  by unfold_locales (auto simp: action_sends_def safe_action_msgs)

lemma only_actions_send:
  assumes "\<And>e. P e \<longleftrightarrow> (\<forall>u. e = ESend u \<longrightarrow> (\<forall>snap. action_sends snap u))"
  shows "only P (update_body E oc service)" and "only P (rollback_body E oc service)"
    and "only P (pull_body E service)"
proof -
  have q: "quiet e \<Longrightarrow> P e" for e by (auto simp: assms)
  have states: "''updating'' \<in> action_states" "''rolling_back'' \<in> action_states" "''force_pulling'' \<in> action_states"
    by (auto simp: action_states_def)
  have s: "P (ESend (action_start_msg s what))" if "what \<in> action_states" for s what
    using that by (auto simp: assms action_sends_def)
  have s': "P (ESend (progress_msg s))" "P (ESend (update_swap_msg s c d t))" "P (ESend (rollback_swap_msg s c d t))"
    "P (ESend (action_done_msg s))" "P (ESend (force_pull_msg s d))" "P (ESend (failure_msg s ph e))" for s c d t ph e
    unfolding assms action_sends_def by blast+
  have o: "P (EImagePull ref)" "P (EDigest ref)" for ref by (auto simp: assms)
  have swp: "only P (recreate_swap_verify E oc prefix service snapshot swap res)"
    if "\<And>t. P (ESend (swap t))" for prefix snapshot swap res
    unfolding recreate_swap_verify_def sendFailureResult_def Let_def
    by (intro allows only_mono [OF only_quiet_recreate q] only_mono [OF only_quiet_verify q] that s')
  show "only P (update_body E oc service)"
    unfolding update_body_def update_action_def pullAndVerifyDigest_def Digest_def sendFailureResult_def Let_def
    by (intro allows swp s s' states o)
  show "only P (rollback_body E oc service)"
    unfolding rollback_body_def rollback_action_def sendFailureResult_def Let_def
    by (intro allows swp s s' states only_mono [OF only_quiet_rollback_parts(1) q]
        only_mono [OF only_quiet_rollback_parts(2) q] only_mono [OF only_quiet_rollback_parts(3) q])
  show "only P (pull_body E service)"
    unfolding pull_body_def pullAndVerifyDigest_def Digest_def sendFailureResult_def Let_def
    by (intro allows s s' states o)
qed

lemma actions_send:
  assumes "m = Update E oc service \<or> m = Rollback E oc service \<or> m = ForcePull E oc service b"
    and "run_state m w = (r, w')"
  shows "\<exists>es. trace w' = trace w @ es \<and> (\<forall>u. ESend u \<in> set es \<longrightarrow> action_sends snap u)"
proof -
  let ?P = "\<lambda>e. \<forall>u. e = ESend u \<longrightarrow> (\<forall>snap. action_sends snap u)"
  let ?Q = "bracketed service (\<lambda>_ es. \<forall>e \<in> set es. ?P e)"
  note bodies = only_actions_send [of ?P, unfolded only_def, OF refl]
  have u: "ensures (Update E oc service) ?Q" by (rule Update_bracketed [OF bodies(1)])
  moreover have "ensures (Rollback E oc service) ?Q" by (rule Rollback_bracketed [OF bodies(2)])
  moreover have "ensures (ForcePull E oc service b) ?Q"
    using u ForcePull_bracketed [OF bodies(3)] by (cases b) (simp_all add: ForcePull_def)
  ultimately have "ensures m ?Q" using assms(1) by blast
  from ensuresD [OF this assms(2)] show ?thesis by (fastforce simp: bracketed_def)
qed

end
