(* ===== verification/Mutex.thy ===== *)
theory Mutex
  imports Prelude
begin

text \<open>
  \<open>internal/actions/mutex.go\<close>: \<open>lockService\<close> as the atomic steps its goroutines
  take, interleaved in any order. The map of mutexes is read and written only under
  \<open>o.mu\<close>, so each of those critical sections is one step; \<open>TryLock\<close>, \<open>Unlock\<close> and the
  two operations on the atomic counter are one step each.
\<close>

text \<open>Where a goroutine is, for the service it was called with and the mutex it found.\<close>

datatype pc =
    Idle
  | Reading string          \<comment> \<open>before the fast-path read\<close>
  | Missed string           \<comment> \<open>the fast path found no entry\<close>
  | Found string nat        \<comment> \<open>has the mutex, before \<open>TryLock\<close>\<close>
  | Locked string nat       \<comment> \<open>\<open>TryLock\<close> succeeded, counter not yet incremented\<close>
  | Holding string nat      \<comment> \<open>\<open>lockService\<close> has returned the unlock closure\<close>
  | Releasing string        \<comment> \<open>unlocked, counter not yet decremented\<close>

record lock_sys =
  ls_locks :: "string \<rightharpoonup> nat"
  ls_next :: nat
  ls_held :: "nat set"
  ls_inFlight :: int
  ls_pc :: "nat \<Rightarrow> pc"

definition lock_init :: lock_sys where
  "lock_init =
     \<lparr>ls_locks = Map.empty, ls_next = 0, ls_held = {}, ls_inFlight = 0, ls_pc = (\<lambda>_. Idle)\<rparr>"

definition goto :: "nat \<Rightarrow> pc \<Rightarrow> lock_sys \<Rightarrow> lock_sys" where
  "goto p c s = s\<lparr>ls_pc := (ls_pc s)(p := c)\<rparr>"

inductive lock_step :: "nat \<Rightarrow> lock_sys \<Rightarrow> lock_sys \<Rightarrow> bool" for p where
  call: "ls_pc s p = Idle \<Longrightarrow> lock_step p s (goto p (Reading svc) s)"
| fast_hit: "ls_pc s p = Reading svc \<Longrightarrow> ls_locks s svc = Some m \<Longrightarrow>
    lock_step p s (goto p (Found svc m) s)"
| fast_miss: "ls_pc s p = Reading svc \<Longrightarrow> ls_locks s svc = None \<Longrightarrow>
    lock_step p s (goto p (Missed svc) s)"
| slow_found: "ls_pc s p = Missed svc \<Longrightarrow> ls_locks s svc = Some m \<Longrightarrow>
    lock_step p s (goto p (Found svc m) s)"
| slow_create: "ls_pc s p = Missed svc \<Longrightarrow> ls_locks s svc = None \<Longrightarrow>
    lock_step p s (goto p (Found svc (ls_next s))
      (s\<lparr>ls_locks := (ls_locks s)(svc \<mapsto> ls_next s), ls_next := Suc (ls_next s)\<rparr>))"
| try_ok: "ls_pc s p = Found svc m \<Longrightarrow> m \<notin> ls_held s \<Longrightarrow>
    lock_step p s (goto p (Locked svc m) (s\<lparr>ls_held := insert m (ls_held s)\<rparr>))"
| busy: "ls_pc s p = Found svc m \<Longrightarrow> m \<in> ls_held s \<Longrightarrow> lock_step p s (goto p Idle s)"
| count: "ls_pc s p = Locked svc m \<Longrightarrow>
    lock_step p s (goto p (Holding svc m) (s\<lparr>ls_inFlight := ls_inFlight s + 1\<rparr>))"
| unlock: "ls_pc s p = Holding svc m \<Longrightarrow>
    lock_step p s (goto p (Releasing svc) (s\<lparr>ls_held := ls_held s - {m}\<rparr>))"
| uncount: "ls_pc s p = Releasing svc \<Longrightarrow>
    lock_step p s (goto p Idle (s\<lparr>ls_inFlight := ls_inFlight s - 1\<rparr>))"

inductive lock_reach :: "lock_sys \<Rightarrow> bool" where
  init: "lock_reach lock_init"
| step: "lock_reach s \<Longrightarrow> lock_step p s s' \<Longrightarrow> lock_reach s'"

definition ActionsInFlight :: "lock_sys \<Rightarrow> int" where
  "ActionsInFlight s = ls_inFlight s"

section \<open>Invariant\<close>

fun mutex_of :: "pc \<Rightarrow> (string \<times> nat) option" where
  "mutex_of (Found svc m) = Some (svc, m)"
| "mutex_of (Locked svc m) = Some (svc, m)"
| "mutex_of (Holding svc m) = Some (svc, m)"
| "mutex_of _ = None"

fun owns :: "pc \<Rightarrow> nat option" where
  "owns (Locked svc m) = Some m"
| "owns (Holding svc m) = Some m"
| "owns _ = None"

fun counted :: "pc \<Rightarrow> bool" where
  "counted (Holding svc m) = True"
| "counted (Releasing svc) = True"
| "counted _ = False"

lemma counted_iff: "counted c \<longleftrightarrow> (\<exists>svc m. c = Holding svc m) \<or> (\<exists>svc. c = Releasing svc)"
  by (cases c) simp_all

definition map_inv :: "lock_sys \<Rightarrow> bool" where
  "map_inv s \<longleftrightarrow>
     (\<forall>p svc m. mutex_of (ls_pc s p) = Some (svc, m) \<longrightarrow> ls_locks s svc = Some m) \<and>
     (\<forall>svc m. ls_locks s svc = Some m \<longrightarrow> m < ls_next s) \<and>
     (\<forall>a b m. ls_locks s a = Some m \<longrightarrow> ls_locks s b = Some m \<longrightarrow> a = b)"

definition held_inv :: "lock_sys \<Rightarrow> bool" where
  "held_inv s \<longleftrightarrow>
     (\<forall>m. m \<in> ls_held s \<longleftrightarrow> (\<exists>p. owns (ls_pc s p) = Some m)) \<and>
     (\<forall>p q m. owns (ls_pc s p) = Some m \<longrightarrow> owns (ls_pc s q) = Some m \<longrightarrow> p = q)"

definition count_inv :: "lock_sys \<Rightarrow> bool" where
  "count_inv s \<longleftrightarrow>
     finite {p. counted (ls_pc s p)} \<and> ls_inFlight s = int (card {p. counted (ls_pc s p)})"

lemma goto_simps [simp]:
  "ls_locks (goto p c s) = ls_locks s" "ls_next (goto p c s) = ls_next s"
  "ls_held (goto p c s) = ls_held s" "ls_inFlight (goto p c s) = ls_inFlight s"
  "ls_pc (goto p c s) = (ls_pc s)(p := c)"
  by (simp_all add: goto_def)

lemma map_invD: "map_inv s \<Longrightarrow> ls_pc s p = c \<Longrightarrow> mutex_of c = Some (svc, m) \<Longrightarrow> ls_locks s svc = Some m"
  unfolding map_inv_def by blast

text \<open>How the invariants follow a change of one program counter.\<close>

lemma map_inv_goto:
  "map_inv s \<Longrightarrow> (\<And>svc m. mutex_of c = Some (svc, m) \<Longrightarrow> ls_locks s svc = Some m) \<Longrightarrow> map_inv (goto p c s)"
  by (auto simp: map_inv_def)

lemma held_inv_goto: "held_inv s \<Longrightarrow> owns c = owns (ls_pc s p) \<Longrightarrow> held_inv (goto p c s)"
  by (auto simp: held_inv_def split: if_splits)

lemma count_inv_goto: "count_inv s \<Longrightarrow> counted c = counted (ls_pc s p) \<Longrightarrow> count_inv (goto p c s)"
proof -
  assume "count_inv s" and "counted c = counted (ls_pc s p)"
  moreover from this have "{q. counted (((ls_pc s)(p := c)) q)} = {q. counted (ls_pc s q)}" by auto
  ultimately show "count_inv (goto p c s)" by (simp add: count_inv_def del: fun_upd_apply)
qed

lemma map_inv_step: "lock_step p s s' \<Longrightarrow> map_inv s \<Longrightarrow> map_inv s'"
proof (induction rule: lock_step.induct)
  case (slow_create s svc)
  then show ?case by (fastforce simp: map_inv_def less_Suc_eq)
next
  case (try_ok s svc m)
  then have "map_inv (s\<lparr>ls_held := insert m (ls_held s)\<rparr>)" by (auto simp: map_inv_def)
  moreover from try_ok have "ls_locks s svc = Some m" by (auto dest: map_invD)
  ultimately show ?case by (auto intro: map_inv_goto)
next
  case (count s svc m)
  then have "map_inv (s\<lparr>ls_inFlight := ls_inFlight s + 1\<rparr>)" by (auto simp: map_inv_def)
  moreover from count have "ls_locks s svc = Some m" by (auto dest: map_invD)
  ultimately show ?case by (auto intro: map_inv_goto)
next
  case (unlock s svc m)
  then have "map_inv (s\<lparr>ls_held := ls_held s - {m}\<rparr>)" by (auto simp: map_inv_def)
  then show ?case by (auto intro: map_inv_goto)
next
  case (uncount s svc)
  then have "map_inv (s\<lparr>ls_inFlight := ls_inFlight s - 1\<rparr>)" by (auto simp: map_inv_def)
  then show ?case by (auto intro: map_inv_goto)
qed (auto intro: map_inv_goto)

lemma held_inv_step: "lock_step p s s' \<Longrightarrow> held_inv s \<Longrightarrow> held_inv s'"
proof (induction rule: lock_step.induct)
  case (slow_create s svc)
  then have "held_inv (s\<lparr>ls_locks := (ls_locks s)(svc \<mapsto> ls_next s), ls_next := Suc (ls_next s)\<rparr>)"
    by (auto simp: held_inv_def)
  with slow_create show ?case by (auto intro: held_inv_goto)
next
  case (try_ok s svc m)
  then have "\<And>q. owns (ls_pc s q) \<noteq> Some m" by (auto simp: held_inv_def)
  with try_ok show ?case by (auto simp: held_inv_def) (metis option.distinct(1) owns.simps(6))+
next
  case (count s svc m)
  then have "held_inv (s\<lparr>ls_inFlight := ls_inFlight s + 1\<rparr>)" by (auto simp: held_inv_def)
  with count show ?case by (auto intro: held_inv_goto)
next
  case (unlock s svc m)
  then have "\<And>q. owns (ls_pc s q) = Some m \<longleftrightarrow> q = p" by (auto simp: held_inv_def)
  with unlock show ?case by (auto simp: held_inv_def) (metis option.inject owns.simps(2))+
next
  case (uncount s svc)
  then have "held_inv (s\<lparr>ls_inFlight := ls_inFlight s - 1\<rparr>)" by (auto simp: held_inv_def)
  with uncount show ?case by (auto intro: held_inv_goto)
qed (auto intro: held_inv_goto)

lemma count_inv_step: "lock_step p s s' \<Longrightarrow> count_inv s \<Longrightarrow> count_inv s'"
proof (induction rule: lock_step.induct)
  case (slow_create s svc)
  then have "count_inv (s\<lparr>ls_locks := (ls_locks s)(svc \<mapsto> ls_next s), ls_next := Suc (ls_next s)\<rparr>)"
    by (auto simp: count_inv_def)
  with slow_create show ?case by (auto intro: count_inv_goto)
next
  case (try_ok s svc m)
  then have "count_inv (s\<lparr>ls_held := insert m (ls_held s)\<rparr>)" by (auto simp: count_inv_def)
  with try_ok show ?case by (auto intro: count_inv_goto)
next
  case (count s svc m)
  then have "{q. counted (((ls_pc s)(p := Holding svc m)) q)} = insert p {q. counted (ls_pc s q)}"
    and "p \<notin> {q. counted (ls_pc s q)}" by auto
  with count show ?case by (simp add: count_inv_def del: fun_upd_apply)
next
  case (unlock s svc m)
  then have "count_inv (s\<lparr>ls_held := ls_held s - {m}\<rparr>)" by (auto simp: count_inv_def)
  with unlock show ?case by (auto intro: count_inv_goto)
next
  case (uncount s svc)
  then have "{q. counted (((ls_pc s)(p := Idle)) q)} = {q. counted (ls_pc s q)} - {p}"
    and "p \<in> {q. counted (ls_pc s q)}" by auto
  moreover from this uncount have "card {q. counted (ls_pc s q)} > 0"
    unfolding count_inv_def card_gt_0_iff by (metis empty_iff)
  ultimately show ?case using uncount
    by (simp add: count_inv_def card_Diff_singleton of_nat_diff Suc_leI del: fun_upd_apply)
qed (auto intro: count_inv_goto)

lemma lock_reach_inv: "lock_reach s \<Longrightarrow> map_inv s \<and> held_inv s \<and> count_inv s"
proof (induction rule: lock_reach.induct)
  case init
  show ?case by (simp add: lock_init_def map_inv_def held_inv_def count_inv_def)
next
  case (step s p s')
  then show ?case using map_inv_step held_inv_step count_inv_step by blast
qed

lemma busy_held:
  assumes "lock_step p s s'" and "ls_pc s p = Found svc m" and "ls_pc s' p = Idle"
  shows "m \<in> ls_held s"
  using assms by cases auto

section \<open>Properties\<close>

text \<open>
  C13. Mutual exclusion per service: in every interleaving of goroutines inside
  \<open>lockService\<close> and the unlock closure, at most one has the action lock of a given
  service, even when several raced to create its mutex.
\<close>

theorem one_action_per_service:
  assumes "lock_reach s" and "ls_pc s p = Holding svc m" and "ls_pc s q = Holding svc n"
  shows "p = q"
proof -
  note reach_inv = lock_reach_inv [OF assms(1)]
  then have "ls_locks s svc = Some m" and "ls_locks s svc = Some n"
    using assms(2,3) by (auto dest: map_invD)
  then have "owns (ls_pc s p) = Some m" and "owns (ls_pc s q) = Some m" using assms(2,3) by auto
  with reach_inv show ?thesis unfolding held_inv_def by blast
qed

text \<open>Two goroutines that race on a new service: both miss, one creates, both find the same mutex.\<close>

definition raced :: lock_sys where
  "raced =
     \<lparr>ls_locks = [''web'' \<mapsto> 0], ls_next = 1, ls_held = {0}, ls_inFlight = 1,
      ls_pc = (\<lambda>_. Idle)(0 := Holding ''web'' 0, 1 := Found ''web'' 0)\<rparr>"

lemma raced_reach: "lock_reach raced"
proof -
  let ?s1 = "goto 0 (Reading ''web'') lock_init"
  let ?s2 = "goto 1 (Reading ''web'') ?s1"
  let ?s3 = "goto 0 (Missed ''web'') ?s2"
  let ?s4 = "goto 1 (Missed ''web'') ?s3"
  let ?s5 = "goto 0 (Found ''web'' 0) (?s4\<lparr>ls_locks := [''web'' \<mapsto> 0], ls_next := 1\<rparr>)"
  let ?s6 = "goto 1 (Found ''web'' 0) ?s5"
  let ?s7 = "goto 0 (Locked ''web'' 0) (?s6\<lparr>ls_held := {0}\<rparr>)"
  let ?s8 = "goto 0 (Holding ''web'' 0) (?s7\<lparr>ls_inFlight := 1\<rparr>)"
  have "lock_step 0 lock_init ?s1" by (rule lock_step.call) (simp add: lock_init_def)
  moreover have "lock_step 1 ?s1 ?s2" by (rule lock_step.call) (simp add: lock_init_def)
  moreover have "lock_step 0 ?s2 ?s3" by (rule lock_step.fast_miss) (simp_all add: lock_init_def)
  moreover have "lock_step 1 ?s3 ?s4" by (rule lock_step.fast_miss) (simp_all add: lock_init_def)
  moreover have "lock_step 0 ?s4 ?s5"
    using lock_step.slow_create [of ?s4 0 "''web''"] by (simp add: lock_init_def)
  moreover have "lock_step 1 ?s5 ?s6" by (rule lock_step.slow_found) (simp_all add: lock_init_def)
  moreover have "lock_step 0 ?s6 ?s7"
    using lock_step.try_ok [of ?s6 0 "''web''" 0] by (simp add: lock_init_def)
  moreover have "lock_step 0 ?s7 ?s8"
    using lock_step.count [of ?s7 0 "''web''" 0] by (simp add: lock_init_def)
  ultimately have "lock_reach ?s8" by (meson lock_reach.intros)
  moreover have "?s8 = raced" by (auto simp: raced_def goto_def lock_init_def)
  ultimately show ?thesis by simp
qed

theorem one_action_per_service_witness:
  "{q. \<exists>n. ls_pc raced q = Holding ''web'' n} = {0}"
proof -
  have "ls_pc raced 0 = Holding ''web'' 0" by (simp add: raced_def)
  with one_action_per_service [OF raced_reach this] show ?thesis by blast
qed

text \<open>
  C14. A request is refused as busy only while another goroutine really has the lock
  of the same service; the in-flight counter is exactly the number of goroutines between
  the return of \<open>lockService\<close> and the end of the unlock closure, which are finitely
  many: those that hold a lock and those that have unlocked and not yet counted down.
\<close>

theorem busy_and_counter_exact:
  assumes "lock_reach s"
  shows "(ls_pc s p = Found svc m \<and> lock_step p s (goto p Idle s) \<longrightarrow>
       (\<exists>q. q \<noteq> p \<and> (ls_pc s q = Locked svc m \<or> ls_pc s q = Holding svc m)))
    \<and> finite {q. (\<exists>svc m. ls_pc s q = Holding svc m) \<or> (\<exists>svc. ls_pc s q = Releasing svc)}
    \<and> ActionsInFlight s = int (card {q. (\<exists>svc m. ls_pc s q = Holding svc m) \<or> (\<exists>svc. ls_pc s q = Releasing svc)})"
proof (intro conjI impI)
  note reach_inv = lock_reach_inv [OF assms]
  assume "ls_pc s p = Found svc m \<and> lock_step p s (goto p Idle s)"
  then have at: "ls_pc s p = Found svc m" and st: "lock_step p s (goto p Idle s)" by auto
  have "m \<in> ls_held s" by (rule busy_held [OF st at]) simp
  with reach_inv obtain q where q: "owns (ls_pc s q) = Some m" unfolding held_inv_def by blast
  then obtain svc' where "ls_pc s q = Locked svc' m \<or> ls_pc s q = Holding svc' m"
    by (cases "ls_pc s q") auto
  moreover from this have "ls_locks s svc' = Some m" using reach_inv by (auto dest: map_invD)
  moreover have "ls_locks s svc = Some m" using reach_inv at by (auto dest: map_invD)
  ultimately have "ls_pc s q = Locked svc m \<or> ls_pc s q = Holding svc m"
    using reach_inv unfolding map_inv_def by blast
  moreover from this at have "q \<noteq> p" by auto
  ultimately show "\<exists>q. q \<noteq> p \<and> (ls_pc s q = Locked svc m \<or> ls_pc s q = Holding svc m)" by blast
next
  have "count_inv s" using lock_reach_inv [OF assms] by blast
  then show "finite {q. (\<exists>svc m. ls_pc s q = Holding svc m) \<or> (\<exists>svc. ls_pc s q = Releasing svc)}"
    and "ActionsInFlight s = int (card {q. (\<exists>svc m. ls_pc s q = Holding svc m) \<or> (\<exists>svc. ls_pc s q = Releasing svc)})"
    by (simp_all add: count_inv_def counted_iff ActionsInFlight_def)
qed

theorem busy_and_counter_exact_witness:
  "(\<exists>q. q \<noteq> 1 \<and> (ls_pc raced q = Locked ''web'' 0 \<or> ls_pc raced q = Holding ''web'' 0))
   \<and> ActionsInFlight raced =
       int (card {q. (\<exists>svc m. ls_pc raced q = Holding svc m) \<or> (\<exists>svc. ls_pc raced q = Releasing svc)})"
proof -
  have "ls_pc raced 1 = Found ''web'' 0" and "0 \<in> ls_held raced" by (simp_all add: raced_def)
  with lock_step.busy [OF this] busy_and_counter_exact [OF raced_reach, of 1 "''web''" 0]
  show ?thesis by blast
qed

end
