(* ===== verification/Base64.thy ===== *)
theory Base64
  imports Prelude
begin

text \<open>
  \<open>base64.StdEncoding\<close> of the Go library, as far as the program uses it: the padded
  encoding, and \<open>DecodeString\<close>, which skips line ends, wants whole quanta and ignores
  the unused bits of the last one. It decides what the log redaction hides and which
  credentials a request carries.
\<close>

section \<open>The alphabet\<close>

definition b64_alphabet :: string where
  "b64_alphabet = ''ABCDEFGHIJKLMNOPQRSTUVWXYZabcdefghijklmnopqrstuvwxyz0123456789+/''"

definition b64_char :: "nat \<Rightarrow> char" where
  "b64_char n = b64_alphabet ! n"

fun position :: "char \<Rightarrow> string \<Rightarrow> nat option" where
  "position c [] = None"
| "position c (d # ds) = (if c = d then Some 0 else map_option Suc (position c ds))"

definition b64_value :: "char \<Rightarrow> nat option" where
  "b64_value c = position c b64_alphabet"

section \<open>Encoding and decoding\<close>

fun EncodeToString :: "string \<Rightarrow> string" where
  "EncodeToString [] = []"
| "EncodeToString [a] =
     [b64_char (of_char a div 4), b64_char (of_char a mod 4 * 16), CHR ''='', CHR ''='']"
| "EncodeToString [a, b] =
     [b64_char (of_char a div 4), b64_char (of_char a mod 4 * 16 + of_char b div 16),
      b64_char (of_char b mod 16 * 4), CHR ''='']"
| "EncodeToString (a # b # c # s) =
     [b64_char (of_char a div 4), b64_char (of_char a mod 4 * 16 + of_char b div 16),
      b64_char (of_char b mod 16 * 4 + of_char c div 64), b64_char (of_char c mod 64)] @ EncodeToString s"

definition byte1 :: "nat \<Rightarrow> nat \<Rightarrow> char" where
  "byte1 v1 v2 = char_of (v1 * 4 + v2 div 16)"

definition byte2 :: "nat \<Rightarrow> nat \<Rightarrow> char" where
  "byte2 v2 v3 = char_of (v2 mod 16 * 16 + v3 div 4)"

definition byte3 :: "nat \<Rightarrow> nat \<Rightarrow> char" where
  "byte3 v3 v4 = char_of (v3 mod 4 * 64 + v4)"

fun decode_quanta :: "string \<Rightarrow> string option" where
  "decode_quanta [] = Some []"
| "decode_quanta (c1 # c2 # c3 # c4 # s) =
     do { v1 \<leftarrow> b64_value c1;
          v2 \<leftarrow> b64_value c2;
          if c3 = CHR ''='' then (if c4 = CHR ''='' \<and> s = [] then Some [byte1 v1 v2] else None)
          else do {
            v3 \<leftarrow> b64_value c3;
            if c4 = CHR ''='' then (if s = [] then Some [byte1 v1 v2, byte2 v2 v3] else None)
            else do {
              v4 \<leftarrow> b64_value c4;
              r \<leftarrow> decode_quanta s;
              Some (byte1 v1 v2 # byte2 v2 v3 # byte3 v3 v4 # r) } } }"
| "decode_quanta _ = None"

definition is_line_end :: "char \<Rightarrow> bool" where
  "is_line_end c \<longleftrightarrow> c = CHR 0x0A \<or> c = CHR 0x0D"

definition DecodeString :: "string \<Rightarrow> string option" where
  "DecodeString s = decode_quanta (filter (\<lambda>c. \<not> is_line_end c) s)"

section \<open>The round trip\<close>

lemma alphabet_values: "list_all (\<lambda>n. b64_value (b64_char n) = Some n) [0..<64]"
  by code_simp

lemma alphabet_clean: "list_all (\<lambda>n. b64_char n \<noteq> CHR ''='' \<and> \<not> is_line_end (b64_char n)) [0..<64]"
  by code_simp

lemma b64_value_char [simp]: "n < 64 \<Longrightarrow> b64_value (b64_char n) = Some n"
  using alphabet_values by (simp add: list_all_iff)

lemma b64_char_clean [simp]:
  "n < 64 \<Longrightarrow> b64_char n \<noteq> CHR ''=''" "n < 64 \<Longrightarrow> \<not> is_line_end (b64_char n)"
  using alphabet_clean by (simp_all add: list_all_iff)

lemma of_char_bound [simp]: "(of_char c :: nat) < 256"
  using mod_less_divisor [of 256 "of_char c :: nat"] by simp

lemma sextets [simp]:
  fixes a b c :: char
  shows "(of_char a :: nat) div 4 < 64" "(of_char a :: nat) mod 4 * 16 < 64"
    "(of_char a :: nat) mod 4 * 16 + of_char b div 16 < 64" "(of_char b :: nat) mod 16 * 4 < 64"
    "(of_char b :: nat) mod 16 * 4 + of_char c div 64 < 64" "(of_char c :: nat) mod 64 < 64"
proof -
  have "(of_char a :: nat) div 4 < 64" "(of_char b :: nat) div 16 < 16" "(of_char c :: nat) div 64 < 4"
    by (simp_all add: less_mult_imp_div_less)
  moreover have "(of_char a :: nat) mod 4 < 4" "(of_char b :: nat) mod 16 < 16" "(of_char c :: nat) mod 64 < 64"
    by simp_all
  ultimately show "(of_char a :: nat) div 4 < 64" "(of_char a :: nat) mod 4 * 16 < 64"
    "(of_char a :: nat) mod 4 * 16 + of_char b div 16 < 64" "(of_char b :: nat) mod 16 * 4 < 64"
    "(of_char b :: nat) mod 16 * 4 + of_char c div 64 < 64" "(of_char c :: nat) mod 64 < 64"
    by linarith+
qed

lemma bytes_back [simp]:
  fixes a b c :: char
  shows "byte1 (of_char a div 4) (of_char a mod 4 * 16) = a"
    "byte1 (of_char a div 4) (of_char a mod 4 * 16 + of_char b div 16) = a"
    "byte2 (of_char a mod 4 * 16 + of_char b div 16) (of_char b mod 16 * 4) = b"
    "byte2 (of_char a mod 4 * 16 + of_char b div 16) (of_char b mod 16 * 4 + of_char c div 64) = b"
    "byte3 (of_char b mod 16 * 4 + of_char c div 64) (of_char c mod 64) = c"
proof -
  have b: "of_char b div 16 < (16::nat)" using of_char_bound [of b] by linarith
  have c: "of_char c div 64 < (4::nat)" using of_char_bound [of c] by linarith
  have 1: "of_char a div 4 * 4 + (of_char a mod 4 * 16 + x) div 16 = (of_char a :: nat)" if "x < 16" for x
    using that by simp
  have 2: "(of_char a mod 4 * 16 + of_char b div 16) mod 16 * 16 + (of_char b mod 16 * 4 + y) div 4 = (of_char b :: nat)"
    if "y < 4" for y
    using that b by simp
  have 3: "(of_char b mod 16 * 4 + of_char c div 64) mod 4 * 64 + of_char c mod 64 = (of_char c :: nat)"
    using c by simp
  show "byte1 (of_char a div 4) (of_char a mod 4 * 16) = a"
    using 1 [of 0] by (simp add: byte1_def)
  show "byte1 (of_char a div 4) (of_char a mod 4 * 16 + of_char b div 16) = a"
    using 1 [OF b] by (simp add: byte1_def)
  show "byte2 (of_char a mod 4 * 16 + of_char b div 16) (of_char b mod 16 * 4) = b"
    using 2 [of 0] by (simp add: byte2_def)
  show "byte2 (of_char a mod 4 * 16 + of_char b div 16) (of_char b mod 16 * 4 + of_char c div 64) = b"
    using 2 [OF c] by (simp add: byte2_def)
  show "byte3 (of_char b mod 16 * 4 + of_char c div 64) (of_char c mod 64) = c"
    using 3 by (simp add: byte3_def)
qed

lemma decode_encode: "decode_quanta (EncodeToString s) = Some s"
  by (induction s rule: EncodeToString.induct) simp_all

lemma encode_clean: "filter (\<lambda>c. \<not> is_line_end c) (EncodeToString s) = EncodeToString s"
  by (induction s rule: EncodeToString.induct) (simp_all add: is_line_end_def [of "CHR ''=''"])

lemma DecodeString_Encode [simp]: "DecodeString (EncodeToString s) = Some s"
  by (simp add: DecodeString_def encode_clean decode_encode)

lemma length_Encode: "length (EncodeToString s) = (length s + 2) div 3 * 4"
proof (induction s rule: EncodeToString.induct)
  case (4 a b c s)
  have "(length (a # b # c # s) + 2) div 3 = (length s + 2) div 3 + 1" by simp
  with 4 show ?case by simp
qed simp_all

lemma Encode_padded_iff: "HasSuffix (EncodeToString s) ''='' \<longleftrightarrow> length s mod 3 \<noteq> 0"
proof (induction s rule: EncodeToString.induct)
  case (4 a b c s)
  moreover have "length (a # b # c # s) mod 3 = length s mod 3" by simp
  ultimately show ?case
    by (cases "EncodeToString s" rule: rev_cases) (simp_all add: HasSuffix_def HasPrefix_def del: length_Cons)
qed (simp_all add: HasSuffix_def HasPrefix_def)

end
