(* ===== verification/Selfupdate.thy ===== *)
theory Selfupdate
  imports Recreate
begin

text \<open>
  \<open>internal/selfupdate\<close>: the parent's \<open>Spawn\<close> (spawn.go), which starts a helper
  container of the program's own image, and the helper's \<open>Orchestrate\<close>
  (orchestrate.go), which pulls, recreates the parent and polls its health. The
  atomic flag of the spawner is a state the calls pass on; the poll loop of the
  helper, which ends only when the clock passes the deadline, has fuel.
\<close>

section \<open>Spawn (spawn.go)\<close>

definition self_update_in_flight :: go_error where
  "self_update_in_flight =
     sentinel_error ErrSelfUpdateInFlight ''selfupdate: a self-update is already in flight''"

definition actions_in_flight :: go_error where
  "actions_in_flight =
     sentinel_error ErrActionsInFlight ''selfupdate: per-service actions in flight; wait for them to drain''"

definition HelperLabel :: string where
  "HelperLabel = ''centroid.docker-update.helper''"

definition HelperCmdFlag :: string where
  "HelperCmdFlag = ''--self-update-orchestrator''"

record spawner =
  sp_selfImage :: string
  sp_selfContainer :: string
  sp_helperKeepAlive :: bool

definition NewSpawner :: "string \<Rightarrow> string \<Rightarrow> bool \<Rightarrow> spawner" where
  "NewSpawner selfImage selfContainer keepHelper =
     \<lparr>sp_selfImage = selfImage, sp_selfContainer = selfContainer, sp_helperKeepAlive = keepHelper\<rparr>"

definition helper_user :: "InspectResponse \<Rightarrow> string" where
  "helper_user parent = (case in_Config parent of None \<Rightarrow> '''' | Some c \<Rightarrow> cfg_User c)"

text \<open>
  The first network that is not \<open>bridge\<close>, in the order in which the range loop visits the
  map: the list of an inspect response is that order, which the daemon's answer leaves open.
\<close>

definition helper_net_mode :: "InspectResponse \<Rightarrow> string" where
  "helper_net_mode parent =
     (let mode = (case in_HostConfig parent of
                    None \<Rightarrow> ''''
                  | Some hc \<Rightarrow> if hc_NetworkMode hc \<noteq> '''' \<and> hc_NetworkMode hc \<noteq> ''default''
                               then hc_NetworkMode hc else '''')
      in if mode = '''' then
           (case in_Networks parent of
              None \<Rightarrow> ''''
            | Some ns \<Rightarrow> (case find (\<lambda>n. fst n \<noteq> ''bridge'') ns of None \<Rightarrow> '''' | Some (name, _) \<Rightarrow> name))
         else mode)"

definition helper_options :: "spawner \<Rightarrow> InspectResponse \<Rightarrow> ContainerCreateOptions" where
  "helper_options sp parent =
     \<lparr>cc_Config = \<lparr>cfg_Image = sp_selfImage sp, cfg_User = helper_user parent,
        cfg_Cmd = [HelperCmdFlag, ''--target='' @ sp_selfContainer sp],
        cfg_Labels = [HelperLabel \<mapsto> ''true''], cfg_rest = ''''\<rparr>,
      cc_HostConfig = \<lparr>hc_RestartPolicyName = '''', hc_NetworkMode = helper_net_mode parent,
        hc_Binds = [''/var/run/docker.sock:/var/run/docker.sock''],
        hc_AutoRemove = (\<not> sp_helperKeepAlive sp), hc_rest = ''''\<rparr>,
      cc_Endpoints = [], cc_Name = ''''\<rparr>"

text \<open>The count of running actions is a closure that may be nil; the flag comes back with the result.\<close>

definition Spawn ::
  "'w Env \<Rightarrow> ('w \<Rightarrow> int \<times> 'w) option \<Rightarrow> spawner \<Rightarrow> bool \<Rightarrow> ('w, string result \<times> bool) io" where
  "Spawn E actionsInFlightFn sp inFlight = do {
     n \<leftarrow> (case actionsInFlightFn of None \<Rightarrow> ret 0 | Some fn \<Rightarrow> observe fn);
     if n > 0 then ret (Inl actions_in_flight, inFlight)
     else if inFlight then ret (Inl self_update_in_flight, inFlight)
     else do {
       r1 \<leftarrow> ContainerInspect E (sp_selfContainer sp);
       case r1 of
         Inl err \<Rightarrow>
           ret (Inl (wrap (''selfupdate.Spawn: inspect parent '' @ quote (sp_selfContainer sp) @ '': '') err), False)
       | Inr parent \<Rightarrow> do {
           r2 \<leftarrow> ContainerCreate E (helper_options sp parent);
           case r2 of
             Inl err \<Rightarrow> ret (Inl (wrap ''selfupdate.Spawn: create helper: '' err), False)
           | Inr hid \<Rightarrow> do {
               r3 \<leftarrow> ContainerStart E hid;
               case r3 of
                 Some err \<Rightarrow> do {
                   _ \<leftarrow> ContainerRemove E hid;
                   ret (Inl (wrap (''selfupdate.Spawn: start helper '' @ hid @ '': '') err), False) }
               | None \<Rightarrow> ret (Inr hid, True) } } } }"

section \<open>Orchestrate (orchestrate.go)\<close>

definition healthzPollTick :: Duration where
  "healthzPollTick = 2 * Second"

definition ctx_err :: go_error where
  "ctx_err = sentinel_error CtxCanceled ''context canceled''"

definition pollHealthzOnce :: "'w Env \<Rightarrow> string \<Rightarrow> ('w, bool) io" where
  "pollHealthzOnce E url = extcall (EHealthz url) (http_Healthz E url)"

fun healthz_loop ::
  "nat \<Rightarrow> 'w Env \<Rightarrow> string \<Rightarrow> Time \<Rightarrow> Duration \<Rightarrow> nat \<Rightarrow> ('w, go_error option option) io" where
  "healthz_loop 0 E url deadline verifyTimeout attempt = ret None"
| "healthz_loop (Suc fuel) E url deadline verifyTimeout attempt = do {
     now \<leftarrow> observe (time_Now E);
     if \<not> Before now deadline then
       ret (Some (Some (errors_New (''selfupdate.Orchestrate: verify timeout after '' @ show_duration verifyTimeout
         @ '' ('' @ show_nat attempt @ '' attempts to '' @ url @ '')''))))
     else do {
       done \<leftarrow> observe (ctx_done E);
       pick \<leftarrow> observe (sel_pick E);
       if done \<and> \<not> pick then ret (Some (Some ctx_err))
       else do {
         emit (ESleep healthzPollTick);
         ok \<leftarrow> pollHealthzOnce E url;
         if ok then ret (Some None)
         else healthz_loop fuel E url deadline verifyTimeout (attempt + 1) } } }"

definition verify_parent :: "nat \<Rightarrow> 'w Env \<Rightarrow> string \<Rightarrow> Duration \<Rightarrow> ('w, go_error option option) io" where
  "verify_parent fuel E url verifyTimeout = do {
     now \<leftarrow> observe (time_Now E);
     ok \<leftarrow> pollHealthzOnce E url;
     if ok then ret (Some None) else healthz_loop fuel E url (now + verifyTimeout) verifyTimeout 1 }"

text \<open>The pull of the parent's image reference; the stream is only copied.\<close>

definition pull_parent_image :: "'w Env \<Rightarrow> string \<Rightarrow> ('w, go_error option) io" where
  "pull_parent_image E target = do {
     r1 \<leftarrow> ContainerInspect E target;
     case r1 of
       Inl err \<Rightarrow> ret (Some (wrap (''selfupdate.Orchestrate: pre-recreate inspect '' @ target @ '': '') err))
     | Inr pre \<Rightarrow>
         (let imageRef = (case in_Config pre of None \<Rightarrow> '''' | Some c \<Rightarrow> cfg_Image c) in
          if imageRef = '''' then
            ret (Some (errors_New (''selfupdate.Orchestrate: parent '' @ target @ '' has no Config.Image'')))
          else do {
            r2 \<leftarrow> ImagePull E imageRef;
            case r2 of
              Inl err \<Rightarrow> ret (Some (wrap (''selfupdate.Orchestrate: pull '' @ imageRef @ '': '') err))
            | Inr pullResp \<Rightarrow>
                (case ps_copy_end pullResp of
                   Some err \<Rightarrow> ret (Some (wrap (''selfupdate.Orchestrate: drain pull '' @ imageRef @ '': '') err))
                 | None \<Rightarrow> ret None) }) }"

definition Orchestrate ::
  "nat \<Rightarrow> 'w Env \<Rightarrow> string \<Rightarrow> string \<Rightarrow> Duration \<Rightarrow> Duration \<Rightarrow> ('w, go_error option option) io" where
  "Orchestrate fuel E target healthzURL delay verifyTimeout = do {
     done \<leftarrow> observe (ctx_done E);
     pick \<leftarrow> observe (sel_pick E);
     if done \<and> \<not> pick then ret (Some (Some ctx_err))
     else do {
       emit (ESleep delay);
       p \<leftarrow> pull_parent_image E target;
       case p of
         Some err \<Rightarrow> ret (Some (Some err))
       | None \<Rightarrow> do {
           r \<leftarrow> recreate_Service E target;
           case r of
             Inl err \<Rightarrow> ret (Some (Some (wrap (''selfupdate.Orchestrate: recreate '' @ target @ '': '') err)))
           | Inr _ \<Rightarrow> verify_parent fuel E healthzURL verifyTimeout } } }"

section \<open>Lemmas on the spawner\<close>

definition spawn_outcome ::
  "spawner \<Rightarrow> bool \<Rightarrow> string result \<times> bool \<Rightarrow> effect list \<Rightarrow> bool" where
  "spawn_outcome sp inFlight = (\<lambda>(r, flag) es.
     es = [] \<and> r = Inl actions_in_flight \<and> flag = inFlight \<or>
     es = [] \<and> r = Inl self_update_in_flight \<and> inFlight \<and> flag \<or>
     \<not> inFlight \<and> \<not> flag \<and> isl r \<and>
       (es = [EContainerInspect (sp_selfContainer sp)] \<or>
        (\<exists>parent. es = [EContainerInspect (sp_selfContainer sp), EContainerCreate (helper_options sp parent)]) \<or>
        (\<exists>parent hid. es = [EContainerInspect (sp_selfContainer sp), EContainerCreate (helper_options sp parent),
           EContainerStart hid, EContainerRemove hid])) \<or>
     \<not> inFlight \<and> flag \<and>
       (\<exists>parent hid. r = Inr hid \<and> es = [EContainerInspect (sp_selfContainer sp),
          EContainerCreate (helper_options sp parent), EContainerStart hid]))"

lemma Spawn_emits: "ensures (Spawn E fn sp inFlight) (spawn_outcome sp inFlight)"
  unfolding Spawn_def by (intro emits) (auto simp: spawn_outcome_def)

section \<open>Lemmas on the helper\<close>

text \<open>\<open>k\<close> rounds of the poll loop: a tick and a request each.\<close>

definition rounds :: "string \<Rightarrow> nat \<Rightarrow> effect list" where
  "rounds url k = concat (replicate k [ESleep healthzPollTick, EHealthz url])"

lemma rounds_simps [simp]:
  "rounds url 0 = []" "rounds url (Suc k) = ESleep healthzPollTick # EHealthz url # rounds url k"
  by (simp_all add: rounds_def)

lemma pollHealthzOnce_emits [emits]: "(\<And>b. Q b [EHealthz url]) \<Longrightarrow> ensures (pollHealthzOnce E url) Q"
  unfolding pollHealthzOnce_def by (rule ensures_extcall)

lemma healthz_loop_emits:
  "ensures (healthz_loop fuel E url dl to a) (\<lambda>_ es. \<exists>k \<le> fuel. es = rounds url k)"
proof (induction fuel arbitrary: a)
  case 0
  show ?case by (simp add: emits)
next
  case (Suc fuel)
  have zero: "\<exists>k \<le> Suc fuel. ([] :: effect list) = rounds url k" by (rule exI [of _ 0]) simp
  have one: "\<exists>k \<le> Suc fuel. [ESleep healthzPollTick] @ [EHealthz url] = rounds url k" by (rule exI [of _ 1]) simp
  have more: "ensures (healthz_loop fuel E url dl to (a + 1))
      (\<lambda>_ es. \<exists>k \<le> Suc fuel. [ESleep healthzPollTick] @ [EHealthz url] @ es = rounds url k)"
  proof (rule ensures_weaken [OF Suc.IH])
    fix es :: "effect list"
    assume "\<exists>k \<le> fuel. es = rounds url k"
    then obtain k where "k \<le> fuel" and "es = rounds url k" by blast
    then show "\<exists>k \<le> Suc fuel. [ESleep healthzPollTick] @ [EHealthz url] @ es = rounds url k"
      by (intro exI [of _ "Suc k"]) simp
  qed
  show ?case
    unfolding healthz_loop.simps
    by (intro emits; (simp only: append_Nil append_Nil2 append.assoc)?) (rule zero one more)+
qed

lemma verify_parent_emits:
  "ensures (verify_parent fuel E url to) (\<lambda>_ es. \<exists>k \<le> fuel. es = EHealthz url # rounds url k)"
proof -
  have "ensures (healthz_loop fuel E url dl to a) (\<lambda>_ es. \<exists>k \<le> fuel. [EHealthz url] @ es = EHealthz url # rounds url k)"
    for dl a by (rule ensures_weaken [OF healthz_loop_emits]) auto
  then show ?thesis
    unfolding verify_parent_def
    by (intro emits; (simp only: append_Nil append_Nil2)?) (auto intro: exI [of _ 0])
qed

definition before_recreate :: "string \<Rightarrow> Duration \<Rightarrow> effect list \<Rightarrow> bool" where
  "before_recreate target delay es \<longleftrightarrow>
     es = [] \<or> es = [ESleep delay, EContainerInspect target] \<or>
     (\<exists>ref. es = [ESleep delay, EContainerInspect target, EImagePull ref])"

text \<open>
  The reference the helper pulled: the one in the configuration the daemon reported for
  the parent, accepted by a pull whose stream was read to its end.
\<close>

definition pulled_parent :: "'w Env \<Rightarrow> string \<Rightarrow> string \<Rightarrow> bool" where
  "pulled_parent E target ref \<longleftrightarrow>
     ref \<noteq> '''' \<and>
     (\<exists>x y parent cfg. sdk_ContainerInspect E target x = (Inr parent, y) \<and>
        in_Config parent = Some cfg \<and> ref = cfg_Image cfg) \<and>
     (\<exists>x y stream. sdk_ImagePull E ref x = (Inr stream, y) \<and> ps_copy_end stream = None)"

lemma ContainerInspect_reported:
  assumes "\<And>e. Q (Inl e) [EContainerInspect i]"
    and "\<And>x y insp. sdk_ContainerInspect E i x = (Inr insp, y) \<Longrightarrow> Q (Inr insp) [EContainerInspect i]"
  shows "ensures (ContainerInspect E i) Q"
  using assms unfolding ContainerInspect_def
  by (intro ensures_bind extcall_reported ensures_return) (auto split: sum.split simp: map_sum_def)

lemma ImagePull_reported:
  assumes "\<And>e. Q (Inl e) [EImagePull ref]"
    and "\<And>x y stream. sdk_ImagePull E ref x = (Inr stream, y) \<Longrightarrow> Q (Inr stream) [EImagePull ref]"
  shows "ensures (ImagePull E ref) Q"
  using assms unfolding ImagePull_def
  by (intro ensures_bind extcall_reported ensures_return) (auto split: sum.split simp: map_sum_def)

lemma pull_parent_image_emits:
  assumes bad: "\<And>e es. es = [EContainerInspect target] \<or> (\<exists>ref. es = [EContainerInspect target, EImagePull ref]) \<Longrightarrow>
      Q (Some e) es"
    and ok: "\<And>ref. pulled_parent E target ref \<Longrightarrow> Q None [EContainerInspect target, EImagePull ref]"
  shows "ensures (pull_parent_image E target) Q"
  unfolding pull_parent_image_def Let_def
  apply (rule ensures_bind, rule ContainerInspect_reported)
  subgoal by (simp only: sum.case, rule ensures_return, rule bad) simp
  subgoal for x y parent
    apply (simp only: sum.case)
    apply (rule ensures_if)
    subgoal by (rule ensures_return, rule bad) simp
    apply (rule ensures_bind, rule ImagePull_reported)
    subgoal by (simp only: sum.case, rule ensures_return, rule bad) simp
    subgoal for x' y' stream
      apply (cases "ps_copy_end stream"; simp only: sum.case option.case; rule ensures_return)
      subgoal unfolding append.simps
        by (rule ok) (auto simp: pulled_parent_def split: option.splits)
      subgoal by (rule bad) simp
      done
    done
  done

text \<open>A verified parent answered the last request: nothing is asked of the outside after it.\<close>

definition answered_healthy :: "'w Env \<Rightarrow> string \<Rightarrow> 'w World \<Rightarrow> bool" where
  "answered_healthy E url w \<longleftrightarrow> (\<exists>x. http_Healthz E url x = (True, ext w))"

lemma healthz_loop_healthy:
  "run_state (healthz_loop fuel E url dl to a) w = (Some None, w') \<Longrightarrow> answered_healthy E url w'"
proof (induction fuel arbitrary: a w)
  case (Suc fuel)
  then show ?case
    by (auto simp: pollHealthzOnce_def answered_healthy_def split: prod.splits if_splits)
qed simp

lemma verify_parent_healthy:
  "run_state (verify_parent fuel E url to) w = (Some None, w') \<Longrightarrow> answered_healthy E url w'"
  unfolding verify_parent_def
  by (auto simp: pollHealthzOnce_def answered_healthy_def split: prod.splits if_splits dest!: healthz_loop_healthy)

lemma Orchestrate_healthy:
  "run_state (Orchestrate fuel E target url delay to) w = (Some None, w') \<Longrightarrow> answered_healthy E url w'"
  unfolding Orchestrate_def
  by (auto split: prod.splits if_splits option.splits sum.splits dest!: verify_parent_healthy)

text \<open>What the helper did, by its result; \<open>None\<close> is a loop that was still polling when the fuel ended.\<close>

definition helper_outcome ::
  "'w Env \<Rightarrow> nat \<Rightarrow> string \<Rightarrow> string \<Rightarrow> Duration \<Rightarrow> go_error option option \<Rightarrow> effect list \<Rightarrow> bool" where
  "helper_outcome E fuel target url delay r es \<longleftrightarrow>
     (\<exists>e. r = Some (Some e) \<and> before_recreate target delay es) \<or>
     (\<exists>ref rec. pulled_parent E target ref \<and> es = [ESleep delay, EContainerInspect target, EImagePull ref] @ rec \<and>
        ((\<exists>e. r = Some (Some e)) \<and>
           (set rec \<subseteq> range EContainerInspect \<union> {EContainerList True (service_filter target)} \<or>
            (\<exists>old pre opts e es'. rec = pre @ es' \<and> recreate_prefix target old pre \<and> replace_failed old opts e es')) \<or>
         (\<exists>old pre opts extras new es' k. k \<le> fuel \<and> rec = pre @ es' @ EHealthz url # rounds url k \<and>
            recreate_prefix target old pre \<and> replaced old opts extras new es')))"

lemma Orchestrate_emits:
  assumes "fair_range E"
  shows "ensures (Orchestrate fuel E target url delay to) (helper_outcome E fuel target url delay)"
proof -
  have rec: "ensures (recreate_Service E target \<bind> (\<lambda>r. case r of
        Inl err \<Rightarrow> ret (Some (Some (wrap p err)))
      | Inr _ \<Rightarrow> verify_parent fuel E url to))
      (\<lambda>r es. helper_outcome E fuel target url delay r ([ESleep delay, EContainerInspect target, EImagePull ref] @ es))"
    if "pulled_parent E target ref" for p ref
  proof (rule ensures_bind, rule recreate_emits [OF assms], goal_cases)
    case (1 e es)
    with that show ?case by (simp only: sum.case, intro emits) (auto simp: helper_outcome_def)
  next
    case (2 e old opts pre es)
    with that show ?case by (simp only: sum.case, intro emits) (auto simp: helper_outcome_def)
  next
    case (3 old opts extras new pre es)
    show ?case
      unfolding sum.case by (rule ensures_weaken [OF verify_parent_emits]) (use 3 that in \<open>auto simp: helper_outcome_def\<close>)
  qed
  show ?thesis
    unfolding Orchestrate_def
    apply (intro ensures_bind ensures_observe ensures_if)
    subgoal by (intro emits) (simp add: helper_outcome_def before_recreate_def)
    subgoal
      apply (intro ensures_bind ensures_emit pull_parent_image_emits)
      subgoal by (simp only: option.case, intro emits) (auto simp: helper_outcome_def before_recreate_def)
      subgoal using rec by (simp only: option.case) simp
      done
    done
qed

text \<open>
  A clock the loop can rely on: no call turns it back, and each wait of the select
  takes at least \<open>d\<close>.
\<close>

definition clock_advances :: "'w Env \<Rightarrow> ('w \<Rightarrow> Time) \<Rightarrow> Duration \<Rightarrow> bool" where
  "clock_advances E clock d \<longleftrightarrow> (\<forall>x.
     fst (time_Now E x) = clock x \<and> clock x \<le> clock (snd (time_Now E x)) \<and>
     clock x \<le> clock (snd (ctx_done E x)) \<and> clock x + d \<le> clock (snd (sel_pick E x)) \<and>
     (\<forall>url. clock x \<le> clock (snd (http_Healthz E url x))))"

lemma clock_advancesD:
  assumes "clock_advances E clock d"
  shows "time_Now E x = (t, y) \<Longrightarrow> t = clock x \<and> clock x \<le> clock y"
    and "ctx_done E x = (b, y) \<Longrightarrow> clock x \<le> clock y"
    and "sel_pick E x = (b, y) \<Longrightarrow> clock x + d \<le> clock y"
    and "http_Healthz E url x = (b, y) \<Longrightarrow> clock x \<le> clock y"
  using assms unfolding clock_advances_def by (metis fst_conv snd_conv)+

lemma healthz_loop_returns:
  assumes "clock_advances E clock d" and "0 < d"
  shows "dl \<le> clock (ext w) + d * int n \<Longrightarrow> fst (run_state (healthz_loop (Suc n) E url dl to a) w) \<noteq> None"
proof (induction n arbitrary: w a)
  case 0
  obtain t x where "time_Now E (ext w) = (t, x)" by (cases "time_Now E (ext w)")
  with 0 clock_advancesD(1) [OF assms(1) this] show ?case by (simp add: Before_def)
next
  case (Suc n)
  note step = clock_advancesD [OF assms(1)]
  obtain t x where 1: "time_Now E (ext w) = (t, x)" by (cases "time_Now E (ext w)")
  obtain dn y where 2: "ctx_done E x = (dn, y)" by (cases "ctx_done E x")
  obtain p z where 3: "sel_pick E y = (p, z)" by (cases "sel_pick E y")
  obtain ok v where 4: "http_Healthz E url z = (ok, v)" by (cases "http_Healthz E url z")
  let ?w = "w\<lparr>trace := trace w @ [ESleep healthzPollTick, EHealthz url], ext := v\<rparr>"
  have "clock (ext w) + d \<le> clock v" using step(1) [OF 1] step(2) [OF 2] step(3) [OF 3] step(4) [OF 4] by linarith
  then have "dl \<le> clock (ext ?w) + d * int n" using Suc.prems by (simp add: algebra_simps)
  from Suc.IH [OF this, of "Suc a"] show ?case
    using 1 2 3 4 by (simp add: pollHealthzOnce_def del: healthz_loop.simps add: healthz_loop.simps(2) [of "Suc n"])
qed

section \<open>Properties\<close>

text \<open>
  One helper at a time, and none left behind: a self-update that is already
  marked in flight is refused without touching the daemon; a spawn marks the flag
  exactly when it succeeds, after inspecting the parent, creating the helper with the
  parent's user, network, image and target and starting it; a helper that was created
  but could not be started is removed by the last call.
\<close>

theorem spawn_outcomes:
  assumes "run_state (Spawn E fn sp inFlight) w = ((r, flag), w')"
  shows "(flag \<longleftrightarrow> inFlight \<or> (\<exists>hid. r = Inr hid)) \<and> (inFlight \<longrightarrow> isl r \<and> trace w' = trace w) \<and>
    (\<exists>es. trace w' = trace w @ es \<and>
      (\<forall>hid. r = Inr hid \<longrightarrow> (\<exists>parent. es = [EContainerInspect (sp_selfContainer sp),
         EContainerCreate (helper_options sp parent), EContainerStart hid])) \<and>
      (\<forall>hid. isl r \<and> EContainerStart hid \<in> set es \<longrightarrow> last es = EContainerRemove hid))"
proof -
  from ensuresD [OF Spawn_emits assms] obtain es where "trace w' = trace w @ es"
    and "spawn_outcome sp inFlight (r, flag) es" by blast
  then show ?thesis unfolding spawn_outcome_def prod.case by (elim disjE conjE exE) (auto simp: isl_def)
qed

definition demo_spawner :: spawner where
  "demo_spawner = NewSpawner ''ghcr.io/centroid-is/docker-update:latest'' ''docker-update'' False"

lemma demo_spawn:
  "\<exists>w'. run_state (Spawn demo_env None demo_spawner False) world0 = ((Inr ''created'', True), w')"
  by (simp add: Spawn_def facade_defs demo_env_def world0_def)

theorem spawn_outcomes_witness:
  "\<exists>parent. trace (snd (run_state (Spawn demo_env None demo_spawner False) world0)) =
     [EContainerInspect ''docker-update'', EContainerCreate (helper_options demo_spawner parent),
      EContainerStart ''created'']"
proof -
  obtain w' where run: "run_state (Spawn demo_env None demo_spawner False) world0 = ((Inr ''created'', True), w')"
    using demo_spawn by blast
  from spawn_outcomes [OF run] show ?thesis
    unfolding run by (auto simp: world0_def demo_spawner_def NewSpawner_def)
qed

text \<open>
  C16. The helper stops a container only after it has waited, inspected the parent and
  pulled the image reference of the parent's own configuration with a stream that was
  read to its end, in that order. It reports success only when, after that, the
  replacement ran through completely and the last thing that happened was a request to
  the health endpoint that was answered healthy; the requests before it were one at
  once and one per tick.
\<close>

theorem helper_order:
  assumes "fair_range E" and "run_state (Orchestrate fuel E target url delay to) w = (r, w')"
  shows "\<exists>es. trace w' = trace w @ es \<and>
    (r = Some None \<longrightarrow> (\<exists>ref old pre opts extras new es' k.
       es = [ESleep delay, EContainerInspect target, EImagePull ref] @ pre @ es' @ EHealthz url # rounds url k \<and>
       pulled_parent E target ref \<and> recreate_prefix target old pre \<and> replaced old opts extras new es') \<and>
       (\<exists>x. http_Healthz E url x = (True, ext w'))) \<and>
    (\<forall>old t. EContainerStop old t \<in> set es \<longrightarrow>
       (\<exists>ref rest. es = [ESleep delay, EContainerInspect target, EImagePull ref] @ rest \<and> pulled_parent E target ref))"
proof -
  from ensuresD [OF Orchestrate_emits [OF assms(1)] assms(2)] obtain es where es: "trace w' = trace w @ es"
    and out: "helper_outcome E fuel target url delay r es" by blast
  have "r = Some None \<longrightarrow> (\<exists>ref old pre opts extras new es' k.
       es = [ESleep delay, EContainerInspect target, EImagePull ref] @ pre @ es' @ EHealthz url # rounds url k \<and>
       pulled_parent E target ref \<and> recreate_prefix target old pre \<and> replaced old opts extras new es')"
    using out unfolding helper_outcome_def by fastforce
  moreover have "r = Some None \<longrightarrow> (\<exists>x. http_Healthz E url x = (True, ext w'))"
    using assms(2) Orchestrate_healthy [of fuel E target url delay to w w'] by (auto simp: answered_healthy_def)
  moreover have "EContainerStop old t \<in> set es \<longrightarrow>
       (\<exists>ref rest. es = [ESleep delay, EContainerInspect target, EImagePull ref] @ rest \<and> pulled_parent E target ref)" for old t
    using out unfolding helper_outcome_def before_recreate_def by auto
  ultimately show ?thesis using es by blast
qed

theorem helper_order_witness:
  "(\<exists>ref old pre opts extras new es' k.
     trace (snd (run_state (Orchestrate 30 demo_env ''docker-update'' ''url'' 1 60) world0)) =
       [ESleep 1, EContainerInspect ''docker-update'', EImagePull ref] @ pre @ es' @ EHealthz ''url'' # rounds ''url'' k \<and>
     ref = ''ghcr.io/centroid-is/web:1'' \<and> recreate_prefix ''docker-update'' old pre \<and> replaced old opts extras new es') \<and>
   http_Healthz demo_env ''url'' () = (True, ())"
proof -
  let ?r = "run_state (Orchestrate 30 demo_env ''docker-update'' ''url'' 1 60) world0"
  have "fst ?r = Some None"
    by (simp add: Orchestrate_def pull_parent_image_def verify_parent_def pollHealthzOnce_def demo_run Let_def)
  then have run: "?r = (Some None, snd ?r)" by (metis prod.collapse)
  have ref: "ref = ''ghcr.io/centroid-is/web:1''" if "pulled_parent demo_env ''docker-update'' ref" for ref
    using that by (auto simp: pulled_parent_def demo_env_def demo_inspect_def demo_config_def)
  from helper_order [OF demo_fair run] obtain es where es: "trace (snd ?r) = trace world0 @ es"
    and shape: "\<exists>ref old pre opts extras new es' k.
       es = [ESleep 1, EContainerInspect ''docker-update'', EImagePull ref] @ pre @ es' @ EHealthz ''url'' # rounds ''url'' k \<and>
       pulled_parent demo_env ''docker-update'' ref \<and> recreate_prefix ''docker-update'' old pre \<and> replaced old opts extras new es'"
    and healthy: "\<exists>x. http_Healthz demo_env ''url'' x = (True, ext (snd ?r))" by blast
  have "trace (snd ?r) = es" using es by (simp add: world0_def)
  with shape ref show ?thesis using healthy by (metis old.unit.exhaust)
qed

text \<open>
  C17. The helper's health loop ends: with a clock that no call turns back and that
  advances by some \<open>d\<close> in each wait, \<open>n + 1\<close> rounds are enough as soon as \<open>n\<close> waits
  cover the verify timeout, whatever the daemon and the new parent answer.
\<close>

theorem helper_terminates:
  assumes "clock_advances E clock d" and "0 < d" and "to \<le> d * int n"
  shows "fst (run_state (Orchestrate (Suc n) E target url delay to) w) \<noteq> None"
proof -
  have verify: "fst (run_state (verify_parent (Suc n) E url to) v) \<noteq> None" for v
  proof -
    obtain t x where 1: "time_Now E (ext v) = (t, x)" by (cases "time_Now E (ext v)")
    obtain ok y where 2: "http_Healthz E url x = (ok, y)" by (cases "http_Healthz E url x")
    have "t \<le> clock y" using clock_advancesD(1) [OF assms(1) 1] clock_advancesD(4) [OF assms(1) 2] by linarith
    then have "t + to \<le> clock (ext (v\<lparr>trace := trace v @ [EHealthz url], ext := y\<rparr>)) + d * int n"
      using assms(3) by simp
    from healthz_loop_returns [OF assms(1,2) this] show ?thesis
      using 1 2 by (simp add: verify_parent_def pollHealthzOnce_def del: healthz_loop.simps)
  qed
  show ?thesis
    unfolding Orchestrate_def using verify
    by (auto split: prod.splits option.splits sum.splits simp del: not_None_eq)
qed

definition ticking_env :: "int Env" where
  "ticking_env =
     \<lparr>sdk_Ping = (\<lambda>x. (None, x)), sdk_ContainerList = (\<lambda>_ _ x. (Inr [\<lparr>cs_ID = ''self'', cs_Created = 1\<rparr>], x)),
      sdk_ContainerInspect = (\<lambda>_ x. (Inr demo_inspect, x)),
      sdk_ImagePull = (\<lambda>_ x. (Inr \<lparr>ps_messages = [], ps_decode_end = None, ps_copy_end = None\<rparr>, x)),
      sdk_ImageInspect = (\<lambda>_ x. (Inl (errors_New ''no such image''), x)), sdk_ImageTag = (\<lambda>_ _ x. (None, x)),
      sdk_ImageList = (\<lambda>_ x. (Inr [], x)), sdk_ContainerCreate = (\<lambda>_ x. (Inr ''created'', x)),
      sdk_ContainerRemove = (\<lambda>_ x. (None, x)), sdk_ContainerStart = (\<lambda>_ x. (None, x)),
      sdk_ContainerStop = (\<lambda>_ _ x. (None, x)), sdk_NetworkConnect = (\<lambda>_ _ _ x. (None, x)),
      reg_Digest = (\<lambda>_ x. (Inr ''sha256:d1'', x)),
      reg_Manifest = (\<lambda>_ x. (Inr \<lparr>mf_Digest = ''sha256:d1'', mf_CreatedAt = 0\<rparr>, x)),
      http_Healthz = (\<lambda>_ x. (False, x)),
      os_Stat = (\<lambda>_ x. (Inr \<lparr>fi_ModTime = 0, fi_Size = 0, fi_Inode = None\<rparr>, x)),
      env_store = (\<lambda>x. (empty_state, x)), env_trylock = (\<lambda>_ x. (True, x)), ctx_done = (\<lambda>x. (False, x)),
      sel_pick = (\<lambda>x. (True, x + 2 * Second)), range_nets = (\<lambda>ns x. (ns, x)), range_rows = (\<lambda>st x. ([], x)),
      sort_newest = (\<lambda>cs x. (sort_key (\<lambda>c. - snd c) cs, x)), time_Now = (\<lambda>x. (x, x)), env_zone = (\<lambda>t. 0)\<rparr>"

theorem helper_terminates_witness:
  "fst (run_state (Orchestrate 31 ticking_env ''docker-update'' ''url'' 1 (60 * Second)) \<lparr>ext = 0, trace = []\<rparr>) \<noteq> None"
proof -
  have "clock_advances ticking_env (\<lambda>x. x) (2 * Second)"
    by (simp add: clock_advances_def ticking_env_def Second_def nanosecond_per_second_def)
  from helper_terminates [OF this, of "60 * Second" 30] show ?thesis
    by (simp add: Second_def nanosecond_per_second_def)
qed

text \<open>
  A helper that fails to pull leaves the endpoint blocked: the spawn that started
  it keeps its flag, the helper ends with an error without stopping or removing any
  container, so the parent lives on, and every later spawn is refused without a call
  to the daemon.
\<close>

theorem failed_helper_blocks_self_update:
  assumes "run_state (Spawn E fn sp False) v = ((Inr hid, flag), v')"
    and pull: "\<And>ref. answers (sdk_ImagePull E' ref) (Inl err)"
    and "run_state (Orchestrate fuel E' target url delay to) w = (r, w')"
    and "run_state (Spawn E'' fn' sp flag) u = ((r'', flag''), u')"
  shows "(\<exists>e. r = Some (Some e)) \<and>
    (\<exists>es. trace w' = trace w @ es \<and> set es \<subseteq> {ESleep delay} \<union> range EContainerInspect \<union> range EImagePull) \<and>
    isl r'' \<and> flag'' \<and> trace u' = trace u"
proof -
  let ?S = "{ESleep delay} \<union> range EContainerInspect \<union> range EImagePull"
  have img: "ensures (ImagePull E' ref) Q" if "\<And>e. Q (Inl e) [EImagePull ref]" for ref Q
    unfolding ImagePull_def by (rule ensures_bind, rule extcall_answers [OF pull], rule ensures_return) (simp add: that)
  have pullp: "ensures (pull_parent_image E' target) Q"
    if "\<And>e es. set es \<subseteq> ?S \<Longrightarrow> Q (Some e) es" for Q
    unfolding pull_parent_image_def Let_def
    by (intro ensures_bind ensures_case_sum ensures_if facade_emits(3) img ensures_return)
       (auto intro!: that emits)
  have "ensures (Orchestrate fuel E' target url delay to) (\<lambda>r es. (\<exists>e. r = Some (Some e)) \<and> set es \<subseteq> ?S)"
    unfolding Orchestrate_def
    apply (intro ensures_bind ensures_observe ensures_if ensures_emit)
    subgoal by (intro emits) simp
    subgoal by (rule pullp) (auto intro!: emits)
    done
  from ensuresD [OF this assms(3)] have helper: "(\<exists>e. r = Some (Some e)) \<and> (\<exists>es. trace w' = trace w @ es \<and> set es \<subseteq> ?S)"
    by blast
  from ensuresD [OF Spawn_emits assms(1)] have flag by (auto simp: spawn_outcome_def)
  with ensuresD [OF Spawn_emits assms(4)] have "isl r'' \<and> flag'' \<and> trace u' = trace u"
    by (auto simp: spawn_outcome_def)
  with helper show ?thesis by simp
qed

theorem failed_helper_blocks_self_update_witness:
  "\<exists>e u'. run_state (Spawn demo_env None demo_spawner True) world0 = ((Inl e, True), u') \<and> trace u' = []"
proof -
  let ?E = "demo_env\<lparr>sdk_ImagePull := (\<lambda>_ x. (Inl (errors_New ''connection refused''), x))\<rparr>"
  obtain v' where s: "run_state (Spawn demo_env None demo_spawner False) world0 = ((Inr ''created'', True), v')"
    using demo_spawn by blast
  have a: "answers (sdk_ImagePull ?E ref) (Inl (errors_New ''connection refused''))" for ref
    by (simp add: answers_def)
  obtain r'' flag'' u' where u: "run_state (Spawn demo_env None demo_spawner True) world0 = ((r'', flag''), u')"
    by (metis prod.collapse)
  from failed_helper_blocks_self_update [OF s a prod.collapse [symmetric] u] show ?thesis
    unfolding u by (auto simp: isl_def world0_def)
qed

end
