(* ===== verification/Boot.thy ===== *)
theory Boot
  imports Orchestrator Poller Base64 Selfupdate
begin

text \<open>
  \<open>cmd/docker-update/main.go\<close>: the redaction of log attributes and the configuration
  the daemon reads from its environment, and the helper mode of the binary.
  \<open>getenv\<close> is \<open>os.Getenv\<close>.
\<close>

section \<open>Redaction of log attributes\<close>

datatype 'v slog_value = StringValue string | NonString 'v

definition is_space :: "char \<Rightarrow> bool" where
  "is_space c \<longleftrightarrow> c \<in> {CHR 0x09, CHR 0x0A, CHR 0x0C, CHR 0x0D, CHR '' ''}"

text \<open>The regular expression \<open>^(Bearer|Basic)\s\<close>.\<close>

definition bearerOrBasic :: "string \<Rightarrow> bool" where
  "bearerOrBasic s \<longleftrightarrow>
     list_ex (\<lambda>p. HasPrefix s p \<and> (case drop (length p) s of c # _ \<Rightarrow> is_space c | [] \<Rightarrow> False))
       [''Bearer'', ''Basic'']"

definition redacted :: string where
  "redacted = ''REDACTED''"

definition looks_like_credentials :: "string \<Rightarrow> bool" where
  "looks_like_credentials s \<longleftrightarrow>
     4 \<le> length s \<and> length s \<le> 200 \<and> HasSuffix s ''='' \<and>
     (case DecodeString s of Some decoded \<Rightarrow> Contains decoded '':'' | None \<Rightarrow> False)"

fun ReplaceAttr :: "'v slog_value \<Rightarrow> 'v slog_value" where
  "ReplaceAttr (NonString v) = NonString v"
| "ReplaceAttr (StringValue s) =
     (if bearerOrBasic s then StringValue redacted
      else if Contains s ''Bearer '' \<or> Contains s ''Basic '' then StringValue redacted
      else if looks_like_credentials s then StringValue redacted
      else StringValue s)"

section \<open>Configuration\<close>

datatype log_level = LevelDebug | LevelInfo | LevelWarn | LevelError

definition log_level_of :: "string \<Rightarrow> log_level" where
  "log_level_of v =
     (if v = ''debug'' then LevelDebug else if v = ''warn'' then LevelWarn
      else if v = ''error'' then LevelError else LevelInfo)"

definition env_or :: "(string \<Rightarrow> string) \<Rightarrow> string \<Rightarrow> string \<Rightarrow> string" where
  "env_or getenv name df = (if getenv name = '''' then df else getenv name)"

definition envDuration :: "(string \<Rightarrow> Duration option) \<Rightarrow> (string \<Rightarrow> string) \<Rightarrow> string \<Rightarrow> Duration \<Rightarrow> Duration" where
  "envDuration time_ParseDuration getenv name df =
     (let v = getenv name
      in if v \<noteq> '''' then (case time_ParseDuration v of Some d \<Rightarrow> if d > 0 then d else df | None \<Rightarrow> df) else df)"

record boot_config =
  bc_level :: log_level
  bc_statePath :: string
  bc_composePath :: string
  bc_cronExpr :: string
  bc_selfService :: string
  bc_verifyWindow :: Duration
  bc_healthcheckWindow :: Duration
  bc_selfImage :: string
  bc_keepHelper :: bool

definition read_config :: "(string \<Rightarrow> string) \<Rightarrow> boot_config" where
  "read_config getenv =
     \<lparr>bc_level = log_level_of (getenv ''DOCKER_UPDATE_LOG_LEVEL''),
      bc_statePath = env_or getenv ''DOCKER_UPDATE_STATE_PATH'' ''./docker_update_state.json'',
      bc_composePath = getenv ''DOCKER_UPDATE_COMPOSE_PATH'',
      bc_cronExpr = env_or getenv ''DOCKER_UPDATE_CRON'' ''0 * * * *'',
      bc_selfService = env_or getenv ''DOCKER_UPDATE_SELF_SERVICE'' ''docker-update'',
      bc_verifyWindow = wrap64 (envInt getenv ''DOCKER_UPDATE_VERIFY_WINDOW_S'' 15 * Second),
      bc_healthcheckWindow = wrap64 (envInt getenv ''DOCKER_UPDATE_HEALTHCHECK_WINDOW_S'' 60 * Second),
      bc_selfImage = env_or getenv ''DOCKER_UPDATE_SELF_IMAGE'' ''ghcr.io/centroid-is/docker-update:latest'',
      bc_keepHelper = (getenv ''DOCKER_UPDATE_SELF_UPDATE_KEEP_HELPER'' = ''true'')\<rparr>"

section \<open>The helper mode\<close>

definition helper_url :: "string \<Rightarrow> string" where
  "helper_url target = ''http://'' @ target @ '':8080/healthz''"

text \<open>
  The exit status of a process started with \<open>--self-update-orchestrator\<close>; \<open>newClient\<close> is
  the error of \<open>docker.NewClient\<close>, and the outer option is the fuel of the poll loop.
\<close>

definition runSelfUpdateOrchestrator ::
  "nat \<Rightarrow> 'w Env \<Rightarrow> (string \<Rightarrow> Duration option) \<Rightarrow> (string \<Rightarrow> string) \<Rightarrow> go_error option \<Rightarrow> string
   \<Rightarrow> ('w, nat option) io" where
  "runSelfUpdateOrchestrator fuel E time_ParseDuration getenv newClient target =
     (if target = '''' then ret (Some 1)
      else case newClient of
        Some err \<Rightarrow> ret (Some 1)
      | None \<Rightarrow> do {
          r \<leftarrow> Orchestrate fuel E target (helper_url target)
                (envDuration time_ParseDuration getenv ''DOCKER_UPDATE_SELF_UPDATE_DELAY'' (1 * Second))
                (envDuration time_ParseDuration getenv ''DOCKER_UPDATE_SELF_VERIFY_TIMEOUT'' (60 * Second));
          ret (map_option (\<lambda>e. case e of Some err \<Rightarrow> 1 | None \<Rightarrow> 0) r) })"

section \<open>Lemmas on the helper mode\<close>

lemma envDuration_positive: "0 < df \<Longrightarrow> 0 < envDuration parse getenv name df"
  by (simp add: envDuration_def Let_def split: option.splits)

text \<open>The helper exits with status 0 only after the recreate was answered healthy by the new parent.\<close>

lemma helper_exit_zero:
  assumes "run_state (runSelfUpdateOrchestrator fuel E parse getenv newClient target) w = (Some 0, w')"
  shows "target \<noteq> '''' \<and> newClient = None \<and>
    run_state (Orchestrate fuel E target (helper_url target)
      (envDuration parse getenv ''DOCKER_UPDATE_SELF_UPDATE_DELAY'' (1 * Second))
      (envDuration parse getenv ''DOCKER_UPDATE_SELF_VERIFY_TIMEOUT'' (60 * Second))) w = (Some None, w')"
  using assms unfolding runSelfUpdateOrchestrator_def
  by (auto split: if_splits option.splits prod.splits)

section \<open>Lemmas on the redaction\<close>


lemma Contains_single: "Contains s [c] \<longleftrightarrow> c \<in> set s"
  by (auto simp: Contains_iff dest: split_list)

lemma encode_no_space: "CHR '' '' \<notin> set (EncodeToString s)"
proof -
  have "list_all (\<lambda>n. b64_char n \<noteq> CHR '' '') [0..<64]" by code_simp
  then have "b64_char n \<noteq> CHR '' ''" if "n < 64" for n using that by (simp add: list_all_iff)
  from not_sym [OF this] show ?thesis
    by (induction s rule: EncodeToString.induct) auto
qed

lemma encode_no_line_end: "c \<in> set (EncodeToString s) \<Longrightarrow> \<not> is_line_end c"
  using encode_clean [of s] by (metis filter_id_conv)

lemma encode_not_bearer: "\<not> bearerOrBasic (EncodeToString s)"
proof
  assume "bearerOrBasic (EncodeToString s)"
  then obtain p :: string where "case drop (length p) (EncodeToString s) of c # _ \<Rightarrow> is_space c | [] \<Rightarrow> False"
    unfolding bearerOrBasic_def list_ex_iff by blast
  then obtain c r where "drop (length p) (EncodeToString s) = c # r" and sp: "is_space c"
    by (cases "drop (length p) (EncodeToString s)") simp_all
  then have c: "c \<in> set (EncodeToString s)" by (metis in_set_dropD list.set_intros(1))
  have "list_all (\<lambda>n. \<not> is_space (b64_char n)) [0..<64]" by code_simp
  then have "\<not> is_space (b64_char n)" if "n < 64" for n using that by (simp add: list_all_iff)
  moreover have "\<not> is_space CHR ''=''" by code_simp
  ultimately have "\<forall>d \<in> set (EncodeToString s). \<not> is_space d"
    by (induction s rule: EncodeToString.induct) auto
  with c sp show False by blast
qed

lemma encode_no_scheme: "\<not> Contains (EncodeToString s) ''Bearer ''" "\<not> Contains (EncodeToString s) ''Basic ''"
  using encode_no_space [of s] by (auto simp: Contains_iff)

lemma redacted_clean:
  "\<not> Contains redacted ''Bearer ''" "\<not> Contains redacted ''Basic ''" "\<not> looks_like_credentials redacted"
  by code_simp+

lemma looks_like_encoded:
  "looks_like_credentials (EncodeToString s) \<longleftrightarrow>
     CHR '':'' \<in> set s \<and> length s mod 3 \<noteq> 0 \<and> length (EncodeToString s) \<le> 200"
proof -
  have "4 \<le> length (EncodeToString s)" if "CHR '':'' \<in> set s"
  proof -
    from that have "1 \<le> (length s + 2) div 3" by (cases s) (auto simp: Suc_le_eq)
    then show ?thesis by (simp add: length_Encode)
  qed
  then show ?thesis by (auto simp: looks_like_credentials_def Encode_padded_iff Contains_single)
qed

lemma encode_not_redacted: "CHR '':'' \<in> set s \<Longrightarrow> EncodeToString s \<noteq> redacted"
proof
  assume colon: "CHR '':'' \<in> set s" and "EncodeToString s = redacted"
  then have "DecodeString redacted = Some s" by (metis DecodeString_Encode)
  moreover have "map_option (\<lambda>d. CHR '':'' \<in> set d) (DecodeString redacted) = Some False" by code_simp
  ultimately show False using colon by simp
qed

text \<open>
  What the handler is to hide, without reference to its code: a text in which a scheme
  name is followed by a space, or which begins with a scheme name and white space; and a
  short padded base64 text of something with a colon.
\<close>

definition carries_scheme :: "string \<Rightarrow> bool" where
  "carries_scheme t \<longleftrightarrow>
     (\<exists>a b. t = a @ ''Bearer '' @ b \<or> t = a @ ''Basic '' @ b) \<or>
     (\<exists>c r. c \<in> {CHR 0x09, CHR 0x0A, CHR 0x0C, CHR 0x0D} \<and> (t = ''Bearer'' @ c # r \<or> t = ''Basic'' @ c # r))"

definition carries_pair :: "string \<Rightarrow> bool" where
  "carries_pair t \<longleftrightarrow> 4 \<le> length t \<and> length t \<le> 200 \<and> last t = CHR ''='' \<and>
     (\<exists>d. DecodeString t = Some d \<and> CHR '':'' \<in> set d)"

lemma bearerOrBasic_iff:
  "bearerOrBasic t \<longleftrightarrow> (\<exists>p c r. p \<in> {''Bearer'', ''Basic''} \<and> is_space c \<and> t = p @ c # r)"
proof -
  have "HasPrefix t p \<and> (case drop (length p) t of c # _ \<Rightarrow> is_space c | [] \<Rightarrow> False) \<longleftrightarrow>
      (\<exists>c r. is_space c \<and> t = p @ c # r)" for p
    by (auto simp: HasPrefix_iff split: list.splits)
  then show ?thesis unfolding bearerOrBasic_def by auto
qed

lemma scheme_iff:
  "bearerOrBasic t \<or> Contains t ''Bearer '' \<or> Contains t ''Basic '' \<longleftrightarrow> carries_scheme t"
proof
  assume "bearerOrBasic t \<or> Contains t ''Bearer '' \<or> Contains t ''Basic ''"
  moreover have "carries_scheme (p @ c # r)" if "p \<in> {''Bearer'', ''Basic''}" "is_space c" for p c r
  proof (cases "c = CHR '' ''")
    case True
    with that(1) have "p @ c # r = [] @ ''Bearer '' @ r \<or> p @ c # r = [] @ ''Basic '' @ r" by auto
    then show ?thesis unfolding carries_scheme_def by metis
  next
    case False
    with that show ?thesis unfolding carries_scheme_def is_space_def
      by (intro disjI2 exI [of _ c] exI [of _ r]) auto
  qed
  moreover have "carries_scheme (a @ ''Bearer '' @ b)" "carries_scheme (a @ ''Basic '' @ b)" for a b
    unfolding carries_scheme_def by blast+
  ultimately show "carries_scheme t" unfolding bearerOrBasic_iff Contains_iff by (elim disjE exE conjE) simp_all
next
  assume "carries_scheme t"
  then show "bearerOrBasic t \<or> Contains t ''Bearer '' \<or> Contains t ''Basic ''"
    unfolding carries_scheme_def
  proof (elim disjE exE conjE)
    fix c r
    assume c: "c \<in> {CHR 0x09, CHR 0x0A, CHR 0x0C, CHR 0x0D}"
    then have "is_space c" by (auto simp: is_space_def)
    then have scheme: "bearerOrBasic (p @ c # r)" if "p \<in> {''Bearer'', ''Basic''}" for p
      unfolding bearerOrBasic_iff using that by metis
    show ?thesis if "t = ''Bearer'' @ c # r" unfolding that by (intro disjI1 scheme) simp
    show ?thesis if "t = ''Basic'' @ c # r" unfolding that by (intro disjI1 scheme) simp
  qed (simp_all only: Contains_append simp_thms)
qed

lemma pair_iff: "looks_like_credentials t \<longleftrightarrow> carries_pair t"
proof -
  have "HasSuffix t ''='' \<longleftrightarrow> t \<noteq> [] \<and> last t = CHR ''=''"
    by (cases t rule: rev_cases) (auto simp: HasSuffix_def HasPrefix_iff)
  then show ?thesis
    by (auto simp: looks_like_credentials_def carries_pair_def Contains_single split: option.splits)
qed

lemma ReplaceAttr_string:
  "ReplaceAttr (StringValue t) =
     (if carries_scheme t \<or> carries_pair t then StringValue redacted else StringValue t)"
  using scheme_iff [of t] pair_iff [of t] by auto

section \<open>Properties\<close>

text \<open>
  C40. What the log handler hides. A string attribute is replaced by \<open>REDACTED\<close> exactly
  when a scheme name is followed by a space in it, or it begins with a scheme name and
  white space, or it is a short padded base64 text of something with a colon; any other
  string is written unchanged, so no string that leaves the handler has one of these
  forms. Of the bare \<open>user:pass\<close> pairs in base64, those whose length is a multiple of
  three or whose encoding is longer than 200 bytes are written unchanged. An attribute
  that is not a string passes unchanged: an error value, which the program logs under
  its own kind, is not redacted.
\<close>

theorem log_attributes_hide_credentials:
  "(ReplaceAttr (StringValue t :: 'v slog_value) =
      (if carries_scheme t \<or> carries_pair t then StringValue ''REDACTED'' else StringValue t)) \<and>
   ReplaceAttr (NonString x) = NonString x \<and>
   (ReplaceAttr v = StringValue s \<longrightarrow> \<not> carries_scheme s \<and> \<not> carries_pair s) \<and>
   (ReplaceAttr (StringValue (EncodeToString (user @ '':'' @ pass)) :: 'v slog_value) =
     (if (length user + length pass + 1) mod 3 \<noteq> 0 \<and>
         (length user + length pass + 3) div 3 * 4 \<le> 200
      then StringValue ''REDACTED'' else StringValue (EncodeToString (user @ '':'' @ pass))))"
proof (intro conjI impI)
  show "ReplaceAttr (StringValue t :: 'v slog_value) =
      (if carries_scheme t \<or> carries_pair t then StringValue ''REDACTED'' else StringValue t)"
    by (simp only: ReplaceAttr_string redacted_def)
  show "ReplaceAttr (NonString x) = NonString x" by simp
next
  have "\<not> bearerOrBasic redacted" by code_simp
  then have clean: "\<not> carries_scheme redacted \<and> \<not> carries_pair redacted"
    using redacted_clean scheme_iff [of redacted] pair_iff [of redacted] by simp
  assume "ReplaceAttr v = StringValue s"
  then show "\<not> carries_scheme s" "\<not> carries_pair s"
    using clean by (cases v; simp only: ReplaceAttr_string; auto split: if_splits)+
next
  let ?c = "user @ '':'' @ pass"
  have "looks_like_credentials (EncodeToString ?c) \<longleftrightarrow>
      (length user + length pass + 1) mod 3 \<noteq> 0 \<and> (length user + length pass + 3) div 3 * 4 \<le> 200"
    unfolding looks_like_encoded length_Encode by (simp add: add.commute add.left_commute)
  with encode_not_bearer [of ?c] encode_no_scheme [of ?c]
  show "ReplaceAttr (StringValue (EncodeToString ?c) :: 'v slog_value) =
     (if (length user + length pass + 1) mod 3 \<noteq> 0 \<and>
         (length user + length pass + 3) div 3 * 4 \<le> 200
      then StringValue ''REDACTED'' else StringValue (EncodeToString ?c))"
    by (simp add: redacted_def)
qed

text \<open>A header value with a tab and the placeholder of empty credentials are hidden; \<open>user:pass\<close> is not.\<close>

theorem log_attributes_hide_credentials_witness:
  "ReplaceAttr (StringValue (''Bearer'' @ CHR 0x09 # ''xyz'')) = (StringValue ''REDACTED'' :: unit slog_value) \<and>
   ReplaceAttr (StringValue ''Og=='') = (StringValue ''REDACTED'' :: unit slog_value) \<and>
   ReplaceAttr (StringValue ''dXNlcjpwYXNz'') = (StringValue ''dXNlcjpwYXNz'' :: unit slog_value)"
proof -
  have "EncodeToString ([] @ '':'' @ []) = ''Og==''" "EncodeToString (''user'' @ '':'' @ ''pass'') = ''dXNlcjpwYXNz''"
    by code_simp+
  moreover have "carries_scheme (''Bearer'' @ CHR 0x09 # ''xyz'')"
    unfolding carries_scheme_def by (intro disjI2 exI [of _ "CHR 0x09"] exI [of _ "''xyz''"]) simp
  moreover note log_attributes_hide_credentials
      [where 'v = unit and t = "''Bearer'' @ CHR 0x09 # ''xyz''", THEN conjunct1]
    log_attributes_hide_credentials [where 'v = unit and user = "[]" and pass = "[]",
      THEN conjunct2, THEN conjunct2, THEN conjunct2]
    log_attributes_hide_credentials [where 'v = unit and user = "''user''" and pass = "''pass''",
      THEN conjunct2, THEN conjunct2, THEN conjunct2]
  ultimately show ?thesis by simp
qed

lemma wrap64_default:
  "0 < defaultVerifyWindow" "0 < defaultHealthcheckWindow"
  by (simp_all add: defaultVerifyWindow_def defaultHealthcheckWindow_def Second_def nanosecond_per_second_def)

text \<open>Whatever the environment says, an absurd window included, the orchestrator boots with positive windows.\<close>

lemma booted_windows_positive:
  "\<exists>oc. NewOrchestrator True True reader fmt True True (bc_selfService (read_config getenv))
      (bc_verifyWindow (read_config getenv)) (bc_healthcheckWindow (read_config getenv)) = Inr oc \<and>
    0 < oc_verifyWindow oc \<and> 0 < oc_healthcheckWindow oc \<and>
    oc_selfService oc = env_or getenv ''DOCKER_UPDATE_SELF_SERVICE'' ''docker-update''"
  using wrap64_default by (auto simp: NewOrchestrator_def read_config_def env_or_def)

end
