(* ===== verification/Registry.thy ===== *)
theory Registry
  imports Poller Effects
begin

text \<open>
  \<open>internal/registry\<close>: the classification of registry errors, the header filter of
  the redacting transport and the resolver over go-containerregistry, whose calls are
  parameters. The results of the resolver are what a sweep of the poller consumes.
\<close>

section \<open>Error classes (errors.go)\<close>

definition permanent_error :: go_error where
  "permanent_error = sentinel_error ErrPermanent ''registry: permanent error (401/403/404; do not retry)''"

definition transient_error :: go_error where
  "transient_error = sentinel_error ErrTransient ''registry: transient error (5xx/timeout; retry once)''"

definition mentions_status :: "string \<Rightarrow> nat \<Rightarrow> bool" where
  "mentions_status msg code \<longleftrightarrow>
     Contains msg (''status code '' @ show_nat code) \<or> Contains msg ('' '' @ show_nat code @ '' '')"

fun classify :: "go_error option \<Rightarrow> go_error option" where
  "classify None = None"
| "classify (Some err) =
     Some (if errors_Is err CtxDeadlineExceeded \<or> errors_Is err CtxCanceled
           then wrap_text transient_error (err_text err)
           else if list_ex (mentions_status (err_text err)) [401, 403, 404]
           then wrap_text permanent_error (err_text err)
           else if list_ex (mentions_status (err_text err)) [500, 502, 503, 504]
           then wrap_text transient_error (err_text err)
           else wrap_text transient_error (err_text err))"

section \<open>Headers (transport.go)\<close>

text \<open>\<open>http.Header\<close> and the canonical form of its keys.\<close>

type_synonym header = "string \<rightharpoonup> string list"

definition is_upper :: "char \<Rightarrow> bool" where
  "is_upper c \<longleftrightarrow> of_char CHR ''A'' \<le> (of_char c :: nat) \<and> of_char c \<le> (of_char CHR ''Z'' :: nat)"

definition is_lower :: "char \<Rightarrow> bool" where
  "is_lower c \<longleftrightarrow> of_char CHR ''a'' \<le> (of_char c :: nat) \<and> of_char c \<le> (of_char CHR ''z'' :: nat)"

definition to_lower :: "char \<Rightarrow> char" where
  "to_lower c = (if is_upper c then char_of ((of_char c :: nat) + 32) else c)"

definition to_upper :: "char \<Rightarrow> char" where
  "to_upper c = (if is_lower c then char_of ((of_char c :: nat) - 32) else c)"

definition is_token_char :: "char \<Rightarrow> bool" where
  "is_token_char c \<longleftrightarrow> is_upper c \<or> is_lower c \<or> is_digit c \<or>
     c \<in> {CHR ''!'', CHR ''#'', CHR ''$'', CHR ''%'', CHR ''&'', CHR 0x27, CHR ''*'', CHR ''+'',
          CHR ''-'', CHR ''.'', CHR ''^'', CHR ''_'', CHR 0x60, CHR ''|'', CHR ''~''}"

fun canonical_words :: "bool \<Rightarrow> string \<Rightarrow> string" where
  "canonical_words upper [] = []"
| "canonical_words upper (c # s) =
     (if upper then to_upper c else to_lower c) # canonical_words (c = CHR ''-'') s"

definition CanonicalHeaderKey :: "string \<Rightarrow> string" where
  "CanonicalHeaderKey s = (if list_all is_token_char s then canonical_words True s else s)"

definition Header_Get :: "header \<Rightarrow> string \<Rightarrow> string" where
  "Header_Get h k = (case h (CanonicalHeaderKey k) of Some (v # _) \<Rightarrow> v | _ \<Rightarrow> '''')"

definition Header_Del :: "string \<Rightarrow> header \<Rightarrow> header" where
  "Header_Del k h = h(CanonicalHeaderKey k := None)"

definition sensitiveHeaders :: "string list" where
  "sensitiveHeaders = [''Authorization'', ''WWW-Authenticate'', ''X-Registry-Auth'', ''Proxy-Authorization'']"

definition SafeHeaders :: "header \<Rightarrow> header" where
  "SafeHeaders h = fold Header_Del sensitiveHeaders h"

text \<open>
  The transport that crane is given: the library's default transport behind a wrapper
  that forwards. The request goes out as it is; only what is logged is cut.
\<close>

record ('req, 'resp) redactingTransport =
  rt_wrapped :: "'req \<Rightarrow> 'resp result"

definition NewRedactingTransport :: "('req \<Rightarrow> 'resp result) \<Rightarrow> ('req, 'resp) redactingTransport" where
  "NewRedactingTransport defaultTransport = \<lparr>rt_wrapped = defaultTransport\<rparr>"

definition RoundTrip :: "('req, 'resp) redactingTransport \<Rightarrow> 'req \<Rightarrow> 'resp result" where
  "RoundTrip t req = rt_wrapped t req"

lemma wire_unchanged: "RoundTrip (NewRedactingTransport f) = f"
  by (simp add: RoundTrip_def NewRedactingTransport_def fun_eq_iff)

section \<open>The resolver (resolver.go)\<close>

datatype authenticator = Anonymous | DefaultKeychain

record crane_options =
  co_Auth :: authenticator
  co_Platform :: "string \<times> string"
  co_Insecure :: bool

definition amd64Platform :: "string \<times> string" where
  "amd64Platform = (''linux'', ''amd64'')"

record craneResolver =
  cr_insecure :: bool

definition NewResolver :: "(string \<Rightarrow> string) \<Rightarrow> craneResolver" where
  "NewResolver getenv = \<lparr>cr_insecure = (getenv ''DOCKER_UPDATE_REGISTRY_INSECURE'' \<noteq> '''')\<rparr>"

text \<open>The calls of go-containerregistry: the digest call, and the image handle with its parts.\<close>

record ('ref, 'img) containerregistry =
  crane_Digest :: "crane_options \<Rightarrow> string \<Rightarrow> string result"
  name_ParseReference :: "bool \<Rightarrow> string \<Rightarrow> 'ref result"
  remote_Image :: "crane_options \<Rightarrow> 'ref \<Rightarrow> 'img result"
  img_Digest :: "'img \<Rightarrow> string result"
  img_Created :: "'img \<Rightarrow> Time result"

definition resolver_options :: "craneResolver \<Rightarrow> crane_options" where
  "resolver_options r =
     \<lparr>co_Auth = Anonymous, co_Platform = amd64Platform, co_Insecure = cr_insecure r\<rparr>"

definition classified :: "string \<Rightarrow> go_error \<Rightarrow> go_error" where
  "classified prefix err = wrap prefix (the (classify (Some err)))"

definition resolver_Digest ::
  "('ref, 'img) containerregistry \<Rightarrow> craneResolver \<Rightarrow> string \<Rightarrow> string result" where
  "resolver_Digest G r ref =
     (case crane_Digest G (resolver_options r) ref of
        Inl err \<Rightarrow> Inl (classified (''registry.Digest '' @ ref @ '': '') err)
      | Inr digest \<Rightarrow> Inr digest)"

definition resolver_Manifest ::
  "('ref, 'img) containerregistry \<Rightarrow> craneResolver \<Rightarrow> string \<Rightarrow> Manifest result" where
  "resolver_Manifest G r ref =
     (let fail = (\<lambda>err. Inl (classified (''registry.Manifest '' @ ref @ '': '') err))
      in case name_ParseReference G (cr_insecure r) ref of
           Inl err \<Rightarrow> fail err
         | Inr parsed \<Rightarrow>
             (case remote_Image G (resolver_options r\<lparr>co_Insecure := False\<rparr>) parsed of
                Inl err \<Rightarrow> fail err
              | Inr img \<Rightarrow>
                  (case img_Digest G img of
                     Inl err \<Rightarrow> fail err
                   | Inr hash \<Rightarrow>
                       Inr \<lparr>mf_Digest = hash,
                            mf_CreatedAt = (case img_Created G img of Inl _ \<Rightarrow> 0 | Inr t \<Rightarrow> t)\<rparr>)))"

text \<open>What the poller makes of the answer.\<close>

definition fetch :: "('ref, 'img) containerregistry \<Rightarrow> craneResolver \<Rightarrow> string \<Rightarrow> (string \<times> Time) result" where
  "fetch G r ref =
     (case resolver_Manifest G r ref of Inl e \<Rightarrow> Inl e | Inr m \<Rightarrow> Inr (mf_Digest m, mf_CreatedAt m))"

section \<open>Lemmas\<close>

text \<open>
  A refusal of the registry, without reference to the classifier: the text of the error
  names the status 401, 403 or 404, after \<open>status code\<close> or between two spaces.
\<close>

definition names_refusal :: "string \<Rightarrow> bool" where
  "names_refusal t \<longleftrightarrow>
     (\<exists>a b code. code \<in> {''401'', ''403'', ''404''} \<and>
        (t = a @ (''status code '' @ code) @ b \<or> t = a @ ('' '' @ code @ '' '') @ b))"

definition permanent_status :: "go_error \<Rightarrow> bool" where
  "permanent_status err \<longleftrightarrow> \<not> errors_Is err CtxDeadlineExceeded \<and> \<not> errors_Is err CtxCanceled \<and>
     names_refusal (err_text err)"

lemma mentions_refusal: "list_ex (mentions_status t) [401, 403, 404] \<longleftrightarrow> names_refusal t"
proof -
  have shown: "show_nat 401 = ''401''" "show_nat 403 = ''403''" "show_nat 404 = ''404''" by code_simp+
  have "list_ex (mentions_status t) [401, 403, 404] \<longleftrightarrow>
      (\<exists>code \<in> {''401'', ''403'', ''404''}.
         Contains t (''status code '' @ code) \<or> Contains t ('' '' @ code @ '' ''))"
    by (simp only: list_ex_iff list.set bex_simps mentions_status_def shown simp_thms)
  moreover have "(\<exists>code \<in> S. Contains t (f code) \<or> Contains t (g code)) \<longleftrightarrow>
      (\<exists>a b code. code \<in> S \<and> (t = a @ f code @ b \<or> t = a @ g code @ b))" for S and f g :: "string \<Rightarrow> string"
    unfolding Contains_iff by blast
  ultimately show ?thesis by (simp only: names_refusal_def)
qed

lemma classified_chain:
  "err_chain (classified p err) = [if permanent_status err then ErrPermanent else ErrTransient]"
  unfolding classified_def classify.simps mentions_refusal permanent_status_def
  by (simp add: permanent_error_def transient_error_def wrap_def wrap_text_def sentinel_error_def)

lemma Manifest_error:
  assumes "resolver_Manifest G r ref = Inl e"
  shows "\<exists>raw. e = classified (''registry.Manifest '' @ ref @ '': '') raw \<and>
    (name_ParseReference G (cr_insecure r) ref = Inl raw \<or>
     (\<exists>p. remote_Image G (resolver_options r\<lparr>co_Insecure := False\<rparr>) p = Inl raw) \<or>
     (\<exists>img. img_Digest G img = Inl raw))"
  using assms by (auto simp: resolver_Manifest_def Let_def split: sum.splits)

lemma fetch_Inl: "fetch G r ref = Inl e \<longleftrightarrow> resolver_Manifest G r ref = Inl e"
  by (simp add: fetch_def split: sum.splits)

lemma to_lower_idem [simp]: "to_lower (to_lower c) = to_lower c"
  by (auto simp: to_lower_def is_upper_def)

lemma of_char_char_of_nat [simp]: "(n::nat) < 256 \<Longrightarrow> of_char (char_of n :: char) = n"
  by (simp add: of_char_of)

lemma lower_upper [simp]:
  "to_upper (to_lower c) = to_upper c" "to_lower (to_upper c) = to_lower c"
  by (auto simp: to_lower_def to_upper_def is_upper_def is_lower_def)

lemma to_lower_dash [simp]: "to_lower c = CHR ''-'' \<longleftrightarrow> c = CHR ''-''"
proof (cases "is_upper c")
  case True
  then have "(of_char (to_lower c) :: nat) = of_char c + 32" and "(65::nat) \<le> of_char c"
    by (simp_all add: to_lower_def is_upper_def)
  then have "to_lower c \<noteq> CHR ''-''" and "c \<noteq> CHR ''-''" by auto
  then show ?thesis by simp
qed (simp add: to_lower_def)

lemma token_lower [simp]: "is_token_char (to_lower c) \<longleftrightarrow> is_token_char c"
proof (cases "is_upper c")
  case True
  then have "is_lower (to_lower c)" by (simp add: is_upper_def is_lower_def to_lower_def)
  with True show ?thesis by (simp add: is_token_char_def)
qed (simp add: to_lower_def)

lemma canonical_words_lower [simp]: "canonical_words u (map to_lower s) = canonical_words u s"
  by (induction s arbitrary: u) simp_all

lemma lower_canonical_words [simp]: "map to_lower (canonical_words u s) = map to_lower s"
  by (induction s arbitrary: u) simp_all

text \<open>A key has a given canonical token form exactly when it spells it up to case.\<close>

lemma Canonical_eq_iff:
  assumes "CanonicalHeaderKey x = y" and "list_all is_token_char x"
  shows "CanonicalHeaderKey k = y \<longleftrightarrow> map to_lower k = map to_lower x"
proof
  have y: "y = canonical_words True x" using assms by (simp add: CanonicalHeaderKey_def)
  have tok: "list_all is_token_char s \<longleftrightarrow> list_all is_token_char (map to_lower s)" for s
    by (simp add: list_all_iff)
  then have y_tok: "list_all is_token_char y"
    using assms(2) y lower_canonical_words [of True x] by metis
  show "map to_lower k = map to_lower x" if "CanonicalHeaderKey k = y"
    using that y y_tok by (auto simp: CanonicalHeaderKey_def split: if_splits dest: arg_cong [of _ _ "map to_lower"])
  show "CanonicalHeaderKey k = y" if "map to_lower k = map to_lower x"
    using that assms(2) tok y canonical_words_lower [of True k] canonical_words_lower [of True x]
    unfolding CanonicalHeaderKey_def by metis
qed

lemma sensitive_tokens: "list_all (list_all is_token_char) sensitiveHeaders"
  by code_simp

section \<open>Properties\<close>

text \<open>
  C36. The class a poll note shows is decided by the raw registry error alone: an error
  of a fetch comes from the parse of the reference, the image or its digest, and carries
  exactly one of the two sentinels, \<open>ErrPermanent\<close> exactly when the raw error is no
  context error and its text names status 401, 403 or 404; a watched row shows that
  class and changes in nothing else. Every other failure is transient, an index without
  an image for the platform included.
\<close>

theorem fetch_error_note:
  assumes "fetch G r ref = Inl e" and "Containers st (Service c) = Some d"
    and "Notes d \<noteq> NotePinnedOptOut" and "Notes d \<noteq> NoteInvalidTagPattern"
  shows "\<exists>raw.
    (name_ParseReference G (cr_insecure r) ref = Inl raw \<or>
     (\<exists>p. remote_Image G \<lparr>co_Auth = Anonymous, co_Platform = (''linux'', ''amd64''), co_Insecure = False\<rparr> p = Inl raw) \<or>
     (\<exists>img. img_Digest G img = Inl raw)) \<and>
    (errors_Is e ErrPermanent \<longleftrightarrow> permanent_status raw) \<and> (errors_Is e ErrTransient \<longleftrightarrow> \<not> permanent_status raw) \<and>
    Apply (handleFetchResult c (fetch G r ref) now) st =
      put_row (Service c) (d\<lparr>Notes := ''registry error: ''
        @ (if permanent_status raw then ''permanent'' else ''transient'') @ '' (check image ref)''\<rparr>) st"
proof -
  from assms(1) obtain raw where raw: "e = classified (''registry.Manifest '' @ ref @ '': '') raw"
    and origin: "name_ParseReference G (cr_insecure r) ref = Inl raw \<or>
     (\<exists>p. remote_Image G \<lparr>co_Auth = Anonymous, co_Platform = (''linux'', ''amd64''), co_Insecure = False\<rparr> p = Inl raw) \<or>
     (\<exists>img. img_Digest G img = Inl raw)"
    using Manifest_error [of G r ref e] fetch_Inl [of G r ref e]
    by (auto simp: resolver_options_def amd64Platform_def)
  have "errors_Is e s \<longleftrightarrow> s = (if permanent_status raw then ErrPermanent else ErrTransient)" for s
    unfolding errors_Is_def raw classified_chain by simp
  with raw origin assms show ?thesis
    by (intro exI [of _ raw] conjI)
       (simp_all add: handleFetchResult_def sendFetchError_def error_class_def row_def Let_def note_defs)
qed

text \<open>
  \<open>SafeHeaders\<close> hides the four sensitive headers under every spelling of their
  names and no other header.
\<close>

theorem SafeHeaders_exact:
  "Header_Get (SafeHeaders h) k =
     (if map to_lower k \<in> {map to_lower x |x. x \<in> set sensitiveHeaders} then '''' else Header_Get h k)"
proof -
  have "SafeHeaders h (CanonicalHeaderKey k) =
      (if CanonicalHeaderKey k \<in> CanonicalHeaderKey ` set sensitiveHeaders then None
       else h (CanonicalHeaderKey k))"
    by (auto simp: SafeHeaders_def sensitiveHeaders_def Header_Del_def)
  moreover have "CanonicalHeaderKey k \<in> CanonicalHeaderKey ` set sensitiveHeaders \<longleftrightarrow>
      map to_lower k \<in> {map to_lower x |x. x \<in> set sensitiveHeaders}"
    using Canonical_eq_iff [OF refl] sensitive_tokens by (auto simp: list_all_iff image_iff)
  ultimately show ?thesis unfolding Header_Get_def by auto
qed

text \<open>A registry that answers 401 to the demo row's reference.\<close>

definition private_registry :: "(string, string) containerregistry" where
  "private_registry =
     \<lparr>crane_Digest = (\<lambda>_ _. Inl (errors_New ''status code 401'')),
      name_ParseReference = (\<lambda>_ ref. Inr ref),
      remote_Image = (\<lambda>_ _. Inl (errors_New ''GET https://ghcr.io/v2/: unexpected status code 401 Unauthorized'')),
      img_Digest = (\<lambda>_. Inr ''''), img_Created = (\<lambda>_. Inr 0)\<rparr>"


lemma private_is_permanent:
  "permanent_status (errors_New ''GET https://ghcr.io/v2/: unexpected status code 401 Unauthorized'')"
proof -
  have "''GET https://ghcr.io/v2/: unexpected status code 401 Unauthorized'' =
      ''GET https://ghcr.io/v2/: unexpected '' @ (''status code '' @ ''401'') @ '' Unauthorized''" by simp
  then have "names_refusal ''GET https://ghcr.io/v2/: unexpected status code 401 Unauthorized''"
    unfolding names_refusal_def by (metis insertI1)
  then show ?thesis by (simp only: permanent_status_def errors_Is_simps simp_thms) (simp add: errors_New_def)
qed

theorem fetch_error_note_witness:
  "Containers (Apply (handleFetchResult (demo_row ''web'')
       (fetch private_registry (NewResolver (\<lambda>_. '''')) ''ghcr.io/web:v1'') 5)
       (empty_state\<lparr>Containers := [''web'' \<mapsto> demo_row ''web'']\<rparr>)) ''web'' =
     Some ((demo_row ''web'')\<lparr>Notes := ''registry error: permanent (check image ref)''\<rparr>)"
proof -
  let ?st = "empty_state\<lparr>Containers := [''web'' \<mapsto> demo_row ''web'']\<rparr>"
  let ?G = private_registry and ?r = "NewResolver (\<lambda>_. '''')"
  obtain e where e: "fetch ?G ?r ''ghcr.io/web:v1'' = Inl e"
    by (simp add: fetch_def resolver_Manifest_def private_registry_def)
  have svc: "Service (demo_row ''web'') = ''web''" and blank: "Notes (demo_row ''web'') = ''''"
    by (simp_all add: demo_row_def zero_container_def)
  have at: "Containers ?st (Service (demo_row ''web'')) = Some (demo_row ''web'')" by (simp add: svc)
  have free: "Notes (demo_row ''web'') \<noteq> NotePinnedOptOut" "Notes (demo_row ''web'') \<noteq> NoteInvalidTagPattern"
    by (simp_all add: note_defs blank)
  from fetch_error_note [OF e at free, of 5] obtain raw where
    "raw = errors_New ''GET https://ghcr.io/v2/: unexpected status code 401 Unauthorized''"
    and "Apply (handleFetchResult (demo_row ''web'') (fetch ?G ?r ''ghcr.io/web:v1'') 5) ?st =
      put_row (Service (demo_row ''web'')) ((demo_row ''web'')\<lparr>Notes := ''registry error: ''
        @ (if permanent_status raw then ''permanent'' else ''transient'') @ '' (check image ref)''\<rparr>) ?st"
    by (auto simp: private_registry_def)
  then show ?thesis by (simp only: svc private_is_permanent if_True) simp
qed

end
