(* ===== verification/Time_Text.thy ===== *)
theory Time_Text
  imports Prelude
begin

text \<open>
  The text of a \<open>time.Time\<close> in the state file and on the wire (\<open>Time.MarshalJSON\<close>,
  layout \<open>RFC3339Nano\<close>), and the proof that the parser of the prelude reads it back.
\<close>

section \<open>The calendar\<close>

text \<open>
  The year and the day of the year of a day counted from 0001-01-01: by periods of
  400, 100, 4 and 1 years.
\<close>

definition year_day :: "int \<Rightarrow> int \<times> int" where
  "year_day D =
     (let a = D div 146097; r = D mod 146097;
          b = min 3 (r div 36524); r1 = r - 36524 * b;
          c = r1 div 1461; r2 = r1 mod 1461;
          e = min 3 (r2 div 365)
      in (400 * a + 100 * b + 4 * c + e + 1, r2 - 365 * e))"

fun find_month :: "int \<Rightarrow> int list \<Rightarrow> int \<Rightarrow> int \<times> int" where
  "find_month y [] d = (12, d + 1)"
| "find_month y (m # ms) d = (if d < days_in y m then (m, d + 1) else find_month y ms (d - days_in y m))"

definition civil_date :: "int \<Rightarrow> int \<times> int \<times> int" where
  "civil_date D = (let (y, d) = year_day D in (y, find_month y [1..12] d))"

text \<open>A division whose quotient is capped, because the last period is one day longer.\<close>

lemma capped_div:
  fixes r m k :: int
  assumes "0 < m" and "0 \<le> r" and "r \<le> m * k + m" and "0 \<le> k"
  shows "0 \<le> min k (r div m)" and "min k (r div m) \<le> k"
    and "0 \<le> r - m * min k (r div m)" and "r - m * min k (r div m) \<le> m"
    and "min k (r div m) < k \<Longrightarrow> r - m * min k (r div m) < m"
proof -
  have q: "0 \<le> r div m" using assms by (simp add: pos_imp_zdiv_nonneg_iff)
  have rem: "r - m * (r div m) = r mod m" by (simp add: minus_mult_div_eq_mod)
  have "0 \<le> r mod m" "r mod m < m" using assms(1) by simp_all
  note rem = rem this
  show "0 \<le> min k (r div m)" "min k (r div m) \<le> k" using q assms(4) by simp_all
  show "min k (r div m) < k \<Longrightarrow> r - m * min k (r div m) < m" using rem by (simp add: min_def split: if_splits)
  show "0 \<le> r - m * min k (r div m)" "r - m * min k (r div m) \<le> m"
  proof -
    have "m * k \<le> m * (r div m)" if "k \<le> r div m" using that assms(1) by simp
    then have "m * k \<le> r" if "k \<le> r div m" using that rem by linarith
    then show "0 \<le> r - m * min k (r div m)" "r - m * min k (r div m) \<le> m"
      using rem assms(3) by (simp_all add: min_def)
  qed
qed

lemma year_day_sum:
  assumes "year_day D = (y, d)"
  shows "365 * (y - 1) + (y - 1) div 4 - (y - 1) div 100 + (y - 1) div 400 + d = D"
    and "0 \<le> d" and "d < (if is_leap y then 366 else 365)"
proof -
  define a where "a = D div 146097"
  define r where "r = D mod 146097"
  define b where "b = min 3 (r div 36524)"
  define r1 where "r1 = r - 36524 * b"
  define c where "c = r1 div 1461"
  define r2 where "r2 = r1 mod 1461"
  define e where "e = min 3 (r2 div 365)"
  note defs = a_def r_def b_def r1_def c_def r2_def e_def
  have "year_day D = (400 * a + 100 * b + 4 * c + e + 1, r2 - 365 * e)"
    unfolding year_day_def Let_def defs by (rule refl)
  with assms have y: "y = 400 * a + 100 * b + 4 * c + e + 1" and d: "d = r2 - 365 * e" by simp_all
  have D: "D = 146097 * a + r" and r: "0 \<le> r" "r < 146097" by (simp_all add: a_def r_def)
  have b: "0 \<le> b" "b \<le> 3" and r1: "0 \<le> r1" "r1 \<le> 36524" "b < 3 \<Longrightarrow> r1 < 36524"
    using capped_div [of 36524 r 3, folded b_def, folded r1_def] r by simp_all
  have r1': "r1 = 1461 * c + r2" and r2: "0 \<le> r2" "r2 < 1461" by (simp_all add: c_def r2_def)
  have r_sum: "r = 36524 * b + 1461 * c + r2" using r1' r1_def by simp
  have c: "0 \<le> c" "c \<le> 24" using r1 r1' r2 by linarith+
  have e: "0 \<le> e" "e \<le> 3" and d': "0 \<le> d" "d \<le> 365" "e < 3 \<Longrightarrow> d < 365"
    using capped_div [of 365 r2 3, folded e_def] r2 d by simp_all
  have z: "y - 1 = 4 * (100 * a + 25 * b + c) + e" "y - 1 = 100 * (4 * a + b) + (4 * c + e)"
    "y - 1 = 400 * a + (100 * b + 4 * c + e)" using y by simp_all
  have q4: "(y - 1) div 4 = 100 * a + 25 * b + c" unfolding z(1) using e by simp
  have q100: "(y - 1) div 100 = 4 * a + b" unfolding z(2) using c e by simp
  have q400: "(y - 1) div 400 = a" unfolding z(3) using b c e by simp
  show "365 * (y - 1) + (y - 1) div 4 - (y - 1) div 100 + (y - 1) div 400 + d = D"
  proof -
    have "365 * (y - 1) + (100 * a + 25 * b + c) - (4 * a + b) + a + d = D"
      unfolding y d D r_sum by (simp add: algebra_simps)
    with q4 q100 q400 show ?thesis by (simp only:)
  qed
  show "0 \<le> d" by (rule d')
  have leap: "is_leap y" if "d = 365"
  proof -
    have e3: "e = 3" using that d'(3) e by linarith
    then have "r2 = 1460" using that d by linarith
    then have "c < 24 \<or> b = 3" using r1 r1' b by linarith
    moreover have "y = 4 * (100 * a + 25 * b + c + 1)" using y e3 by simp
    then have "y mod 4 = 0" by simp
    moreover have "y mod 100 = (4 * c + 4) mod 100"
    proof -
      have "y = (4 * c + 4) + 100 * (4 * a + b)" using y e3 by simp
      then show ?thesis by (simp only: mod_mult_self2)
    qed
    moreover have "y mod 400 = (100 * b + 4 * c + 4) mod 400"
    proof -
      have "y = (100 * b + 4 * c + 4) + 400 * a" using y e3 by simp
      then show ?thesis by (simp only: mod_mult_self2)
    qed
    ultimately show ?thesis using c by (cases "c = 24") (auto simp: is_leap_def)
  qed
  show "d < (if is_leap y then 366 else 365)" using leap d' by (cases "d = 365") auto
qed

lemma days_in_pos: "28 \<le> days_in y m" "days_in y m \<le> 31"
  by (simp_all add: days_in_def)

lemma find_month_upto:
  assumes "1 \<le> k" "k \<le> 13" "0 \<le> d" "d < (\<Sum>i\<leftarrow>[k..12]. days_in y i)" "find_month y [k..12] d = (m, d')"
  shows "k \<le> m \<and> m \<le> 12 \<and> 1 \<le> d' \<and> d' \<le> days_in y m \<and> (\<Sum>i\<leftarrow>[k..m - 1]. days_in y i) + (d' - 1) = d"
  using assms
proof (induction "nat (13 - k)" arbitrary: k d)
  case 0
  then show ?case by simp
next
  case (Suc n)
  have k: "[k..12] = k # [k + 1..12]" using Suc.hyps(2) by (simp add: upto_rec1)
  show ?case
  proof (cases "d < days_in y k")
    case True
    with Suc.prems k show ?thesis using Suc.hyps(2) by auto
  next
    case False
    have "k + 1 \<le> m \<and> m \<le> 12 \<and> 1 \<le> d' \<and> d' \<le> days_in y m \<and>
        (\<Sum>i\<leftarrow>[k + 1..m - 1]. days_in y i) + (d' - 1) = d - days_in y k"
      using Suc.hyps(2) Suc.prems k False by (intro Suc.hyps(1)) auto
    then show ?thesis by (auto simp: upto_rec1 [of k "m - 1"])
  qed
qed

lemma year_length: "(\<Sum>i\<leftarrow>[1..12]. days_in y i) = (if is_leap y then 366 else 365)"
  by (simp add: days_in_def upto_rec1)

lemma civil_date_days:
  assumes "civil_date D = (y, m, d)"
  shows "civil_days y m d = D \<and> 1 \<le> m \<and> m \<le> 12 \<and> 1 \<le> d \<and> d \<le> days_in y m"
proof -
  obtain n where yd: "year_day D = (y, n)" and md: "find_month y [1..12] n = (m, d)"
    using assms by (auto simp: civil_date_def split: prod.splits)
  have "1 \<le> m \<and> m \<le> 12 \<and> 1 \<le> d \<and> d \<le> days_in y m \<and> (\<Sum>i\<leftarrow>[1..m - 1]. days_in y i) + (d - 1) = n"
    using year_day_sum [OF yd] year_length [of y] by (intro find_month_upto md) linarith+
  with year_day_sum(1) [OF yd] show ?thesis by (simp add: civil_days_def Let_def)
qed


section \<open>The text\<close>

definition pad2 :: "int \<Rightarrow> string" where
  "pad2 n = [digit (nat (n div 10)), digit (nat n)]"

definition pad4 :: "int \<Rightarrow> string" where
  "pad4 n = [digit (nat (n div 1000)), digit (nat (n div 100)), digit (nat (n div 10)), digit (nat n)]"

text \<open>The offset of the location from UTC, in minutes.\<close>

definition zone_text :: "int \<Rightarrow> string" where
  "zone_text z =
     (if z = 0 then ''Z''
      else (if z < 0 then CHR ''-'' else CHR ''+'') # pad2 (\<bar>z\<bar> div 60) @ '':'' @ pad2 (\<bar>z\<bar> mod 60))"

definition local_seconds :: "int \<Rightarrow> Time \<Rightarrow> int" where
  "local_seconds z t = t div nanosecond_per_second + 60 * z"

definition format_RFC3339Nano :: "int \<Rightarrow> Time \<Rightarrow> string" where
  "format_RFC3339Nano z t =
     (let s = local_seconds z t; (y, m, d) = civil_date (s div 86400); r = s mod 86400
      in pad4 y @ ''-'' @ pad2 m @ ''-'' @ pad2 d @ ''T''
         @ pad2 (r div 3600) @ '':'' @ pad2 (r mod 3600 div 60) @ '':'' @ pad2 (r mod 60)
         @ fmtFrac (nat (t mod nanosecond_per_second)) 9 False '''' @ zone_text z)"

text \<open>\<open>Time.MarshalJSON\<close> refuses a year of more than four digits and an offset of a day.\<close>

definition marshal_time :: "int \<Rightarrow> Time \<Rightarrow> string result" where
  "marshal_time z t =
     (let y = fst (civil_date (local_seconds z t div 86400))
      in if y < 0 \<or> 9999 < y then Inl (errors_New ''Time.MarshalJSON: year outside of range [0,9999]'')
         else if 24 * 60 \<le> \<bar>z\<bar> then Inl (errors_New ''Time.MarshalJSON: timezone hour outside of range [0,23]'')
         else Inr (format_RFC3339Nano z t))"

section \<open>Lemmas on the text\<close>

lemma of_char_digit: "(of_char (digit n) :: nat) = 48 + n mod 10"
  by (simp add: digit_def)

lemma is_digit_digit [simp]: "is_digit (digit n)"
  unfolding is_digit_def of_char_digit by simp

lemma digit_val_digit [simp]: "digit_val (digit n) = int (n mod 10)"
proof -
  have "(of_char (digit n) :: int) = int (of_char (digit n))" by (rule of_nat_of_char [symmetric])
  then show ?thesis unfolding digit_val_def by (simp add: of_char_digit)
qed

lemma take_one: "take_digits (Suc n) acc (digit k # s) = take_digits n (10 * acc + int (k mod 10)) s"
  by (simp only: take_digits.simps is_digit_digit digit_val_digit if_True)

lemma int_digit: "0 \<le> n \<Longrightarrow> int (nat n mod 10) = n mod 10"
  by (simp add: zmod_int)

lemma two_digits: "0 \<le> n \<Longrightarrow> n < 100 \<Longrightarrow> 10 * int (nat (n div 10) mod 10) + int (nat n mod 10) = (n::int)"
proof -
  assume "0 \<le> n" "n < 100"
  then have "0 \<le> n div 10" "n div 10 < 10" by linarith+
  then show ?thesis using \<open>0 \<le> n\<close> unfolding int_digit [OF \<open>0 \<le> n\<close>] int_digit [OF \<open>0 \<le> n div 10\<close>] by simp
qed

lemma take_pad2: "0 \<le> n \<Longrightarrow> n < 100 \<Longrightarrow> take_digits 2 0 (pad2 n @ s) = Some (n, s)"
  unfolding pad2_def append.simps numeral_2_eq_2 take_one using two_digits [of n] by (simp only: take_digits.simps mult_zero_right add_0)

lemma take_hour_pad2: "0 \<le> n \<Longrightarrow> n < 100 \<Longrightarrow> take_hour (pad2 n @ s) = Some (n, s)"
  using two_digits [of n]
  by (simp only: pad2_def append.simps take_hour.simps is_digit_digit digit_val_digit not_True_eq_False if_True if_False)

lemma four_digits:
  assumes "0 \<le> n" "n < 10000"
  shows "10 * (10 * (10 * (n div 1000) + n div 100 mod 10) + n div 10 mod 10) + n mod 10 = (n::int)"
proof -
  have "n div 10 div 10 = n div 100" "n div 100 div 10 = n div 1000" by (simp_all add: zdiv_zmult2_eq [symmetric])
  moreover have "10 * (n div 10) + n mod 10 = n" "10 * (n div 10 div 10) + n div 10 mod 10 = n div 10"
    "10 * (n div 100 div 10) + n div 100 mod 10 = n div 100" by (simp_all only: mult_div_mod_eq)
  ultimately show ?thesis by (simp only:)
qed

lemma take_pad4:
  assumes "0 \<le> n" "n < 10000"
  shows "take_digits 4 0 (pad4 n @ s) = Some (n, s)"
proof -
  have four: "(4::nat) = Suc (Suc (Suc (Suc 0)))" by simp
  have nonneg: "0 \<le> n div 1000" "0 \<le> n div 100" "0 \<le> n div 10" and small: "n div 1000 < 10" using assms by linarith+
  from small nonneg have "n div 1000 mod 10 = n div 1000" by simp
  then show ?thesis
    unfolding pad4_def append.simps four take_one int_digit [OF assms(1)] int_digit [OF nonneg(1)]
      int_digit [OF nonneg(2)] int_digit [OF nonneg(3)]
    using four_digits [OF assms] by (simp only: take_digits.simps mult_zero_right add_0)
qed


subsection \<open>The fraction\<close>

fun big_endian :: "nat \<Rightarrow> nat \<Rightarrow> string" where
  "big_endian 0 v = []"
| "big_endian (Suc n) v = big_endian n (v div 10) @ [digit v]"

lemma digit_mod: "digit (v mod 10) = digit v"
  by (simp add: digit_def)

lemma fmtFrac_True: "fmtFrac v n True w = CHR ''.'' # big_endian n v @ w"
  by (induction n arbitrary: v w) (simp_all add: Let_def digit_mod)

lemma frac_big_endian:
  "frac_digits (n + k) acc (big_endian n v @ s) = frac_digits k (acc * 10 ^ n + int (v mod 10 ^ n)) s"
proof (induction n arbitrary: v k s)
  case (Suc n)
  have "v mod 10 ^ Suc n = 10 * (v div 10 mod 10 ^ n) + v mod 10" by (simp add: mod_mult2_eq)
  then have sum: "int (v mod 10 ^ Suc n) = 10 * int (v div 10 mod 10 ^ n) + int (v mod 10)"
    by (simp only: of_nat_add of_nat_mult of_nat_numeral)
  have "frac_digits (Suc n + k) acc (big_endian (Suc n) v @ s) =
      frac_digits (n + Suc k) acc (big_endian n (v div 10) @ digit v # s)" by simp
  also have "\<dots> = frac_digits k (10 * (acc * 10 ^ n + int (v div 10 mod 10 ^ n)) + int (v mod 10)) s"
    unfolding Suc.IH by (simp del: of_nat_mod)
  also have "10 * (acc * 10 ^ n + int (v div 10 mod 10 ^ n)) + int (v mod 10) = acc * 10 ^ Suc n + int (v mod 10 ^ Suc n)"
    unfolding sum by (simp add: algebra_simps)
  finally show ?case .
qed simp

definition no_digit :: "string \<Rightarrow> bool" where
  "no_digit s \<longleftrightarrow> (case s of [] \<Rightarrow> True | c # _ \<Rightarrow> \<not> is_digit c)"

lemma frac_end: "no_digit s \<Longrightarrow> frac_digits k acc s = (acc * 10 ^ k, s)"
  by (cases s) (simp_all add: no_digit_def)

lemma fmtFrac_cases:
  "(v mod 10 ^ n = 0 \<and> fmtFrac v n False [] = []) \<or>
   (\<exists>c ds. fmtFrac v n False [] = CHR ''.'' # c # ds \<and> is_digit c \<and>
      (\<forall>k s. no_digit s \<longrightarrow> frac_digits (n + k) 0 (c # ds @ s) = (int (v mod 10 ^ n) * 10 ^ k, s)))"
proof (induction n arbitrary: v)
  case (Suc n)
  show ?case
  proof (cases "v mod 10 = 0")
    case True
    then have fmt: "fmtFrac v (Suc n) False [] = fmtFrac (v div 10) n False []" by (simp add: Let_def)
    have "v mod 10 ^ Suc n = 10 * (v div 10 mod 10 ^ n)" using True by (simp add: mod_mult2_eq)
    then have val: "int (v mod 10 ^ Suc n) = 10 * int (v div 10 mod 10 ^ n)"
      by (simp only: of_nat_mult of_nat_numeral)
    from Suc.IH [of "v div 10"] show ?thesis
    proof
      assume "v div 10 mod 10 ^ n = 0 \<and> fmtFrac (v div 10) n False [] = []"
      with fmt val show ?thesis by simp
    next
      assume "\<exists>c ds. fmtFrac (v div 10) n False [] = CHR ''.'' # c # ds \<and> is_digit c \<and>
        (\<forall>k s. no_digit s \<longrightarrow> frac_digits (n + k) 0 (c # ds @ s) = (int (v div 10 mod 10 ^ n) * 10 ^ k, s))"
      then obtain c ds where "fmtFrac (v div 10) n False [] = CHR ''.'' # c # ds" "is_digit c"
        and step: "no_digit s \<Longrightarrow> frac_digits (n + k) 0 (c # ds @ s) = (int (v div 10 mod 10 ^ n) * 10 ^ k, s)"
        for k s by blast
      moreover have "frac_digits (Suc n + k) 0 (c # ds @ s) = (int (v mod 10 ^ Suc n) * 10 ^ k, s)" if "no_digit s" for k s
        using step [OF that, of "Suc k"] unfolding val add_Suc add_Suc_right by (simp only: power_Suc mult_ac)
      ultimately show ?thesis unfolding fmt by (intro disjI2 exI [of _ c] exI [of _ ds]) simp
    qed
  next
    case False
    then have fmt: "fmtFrac v (Suc n) False [] = CHR ''.'' # big_endian (Suc n) v"
      by (simp add: Let_def fmtFrac_True digit_mod)
    obtain c ds where be: "big_endian (Suc n) v = c # ds" by (cases "big_endian (Suc n) v") simp_all
    have "is_digit c"
    proof -
      have "set (big_endian m u) \<subseteq> range digit" for m u by (induction m arbitrary: u) auto
      moreover have "c \<in> set (big_endian (Suc n) v)" unfolding be by simp
      ultimately obtain k where "c = digit k" by blast
      then show ?thesis by simp
    qed
    moreover have "frac_digits (Suc n + k) 0 (c # ds @ s) = (int (v mod 10 ^ Suc n) * 10 ^ k, s)" if "no_digit s" for k s
      using frac_big_endian [of "Suc n" k 0 v s] frac_end [OF that] unfolding be by simp
    ultimately show ?thesis using fmt be by auto
  qed
qed simp

lemma take_frac_fmt:
  assumes "v < 10 ^ 9" and "no_digit s" and "s \<noteq> []" "hd s \<noteq> CHR ''.''" "hd s \<noteq> CHR '',''"
  shows "take_frac (fmtFrac v 9 False [] @ s) = (int v, s)"
  using fmtFrac_cases [of v 9]
proof
  assume "v mod 10 ^ 9 = 0 \<and> fmtFrac v 9 False [] = []"
  with assms show ?thesis by (cases s rule: take_frac.cases) auto
next
  assume "\<exists>c ds. fmtFrac v 9 False [] = CHR ''.'' # c # ds \<and> is_digit c \<and>
      (\<forall>k s. no_digit s \<longrightarrow> frac_digits (9 + k) 0 (c # ds @ s) = (int (v mod 10 ^ 9) * 10 ^ k, s))"
  then obtain c ds where fmt: "fmtFrac v 9 False [] = CHR ''.'' # c # ds" and c: "is_digit c"
    and step: "frac_digits (9 + 0) 0 (c # ds @ s) = (int (v mod 10 ^ 9) * 10 ^ 0, s)" using assms(2) by blast
  from step assms(1) have "frac_digits 9 0 (c # ds @ s) = (int v, s)" by (simp only: add_0_right power_0 mult_1_right mod_less)
  with c show ?thesis unfolding fmt append.simps take_frac.simps by (simp only: if_True simp_thms)
qed

subsection \<open>The zone and the round trip\<close>

lemma zone_text_frame:
  "zone_text z \<noteq> []" "no_digit (zone_text z)" "hd (zone_text z) \<noteq> CHR ''.''" "hd (zone_text z) \<noteq> CHR '',''"
  by (simp_all add: zone_text_def no_digit_def is_digit_def)

lemma take_zone_text:
  assumes "\<bar>z\<bar> < 24 * 60"
  shows "take_zone (zone_text z) = Some (60 * z, [])"
proof (cases "z = 0")
  case False
  let ?h = "\<bar>z\<bar> div 60" and ?m = "\<bar>z\<bar> mod 60"
  have h: "0 \<le> ?h" "?h < 24" and m: "0 \<le> ?m" "?m < 60" using assms by linarith+
  have "60 * ?h + ?m = \<bar>z\<bar>" by (simp only: mult_div_mod_eq)
  then have sum: "?h * 3600 + ?m * 60 = 60 * \<bar>z\<bar>" by linarith
  have "take_digits 2 0 (pad2 ?h @ CHR '':'' # pad2 ?m) = Some (?h, CHR '':'' # pad2 ?m)"
    by (rule take_pad2) (use h in linarith)+
  moreover have "take_digits 2 0 (pad2 ?m) = Some (?m, [])"
    using take_pad2 [of ?m "[]"] m by simp
  ultimately show ?thesis using False h m sum
    by (simp add: zone_text_def take_zone_def) linarith
qed (simp add: zone_text_def take_zone_def)

lemma expect_same: "expect c (c # s) = Some s"
  by simp

lemma parse_parts:
  assumes "0 \<le> y" "y < 10000" "1 \<le> m" "m \<le> 12" "1 \<le> d" "d \<le> days_in y m"
    and "0 \<le> h" "h < 24" "0 \<le> mi" "mi < 60" "0 \<le> sec" "sec < 60"
    and frac: "take_frac (f @ zone_text z) = (ns, zone_text z)" and zone: "\<bar>z\<bar> < 24 * 60"
  shows "parse_RFC3339 (pad4 y @ ''-'' @ pad2 m @ ''-'' @ pad2 d @ ''T'' @ pad2 h @ '':'' @ pad2 mi @ '':'' @ pad2 sec
      @ f @ zone_text z) =
    Some ((((civil_days y m d * 24 + h) * 60 + mi) * 60 + sec - 60 * z) * nanosecond_per_second + ns)"
proof -
  have "d < 100" "m < 100" "h < 100" "mi < 100" "sec < 100" "0 \<le> m" "0 \<le> d"
    using assms(3-12) days_in_pos(2) [of y m] by linarith+
  with assms(1-12) have take: "take_digits 4 0 (pad4 y @ s) = Some (y, s)" "take_digits 2 0 (pad2 m @ s) = Some (m, s)"
    "take_digits 2 0 (pad2 d @ s) = Some (d, s)" "take_hour (pad2 h @ s) = Some (h, s)"
    "take_digits 2 0 (pad2 mi @ s) = Some (mi, s)" "take_digits 2 0 (pad2 sec @ s) = Some (sec, s)" for s
    by (simp_all only: take_pad4 take_pad2 take_hour_pad2)
  have guard: "\<not> ([] \<noteq> ([] :: string) \<or> m < 1 \<or> m > 12 \<or> h \<ge> 24 \<or> mi \<ge> 60 \<or> sec \<ge> 60 \<or> d < 1 \<or> d > days_in y m)"
    using assms(3-12) by simp
  show ?thesis
    unfolding parse_RFC3339_def append.simps
    by (simp only: take Option.bind.simps prod.case expect_same frac Let_def take_zone_text [OF zone] guard if_False)
qed

theorem parse_format:
  assumes "marshal_time z t = Inr s"
  shows "parse_RFC3339 s = Some t"
proof -
  define L where "L = local_seconds z t"
  define r where "r = L mod 86400"
  obtain y m d where civil: "civil_date (L div 86400) = (y, m, d)" by (cases "civil_date (L div 86400)")
  have y: "0 \<le> y" "y < 10000" and z: "\<bar>z\<bar> < 24 * 60" and s: "s = format_RFC3339Nano z t"
    using assms civil by (auto simp: marshal_time_def Let_def L_def split: if_splits)
  have D: "civil_days y m d = L div 86400" and m: "1 \<le> m" "m \<le> 12" and d: "1 \<le> d" "d \<le> days_in y m"
    using civil_date_days [OF civil] by blast+
  have r: "0 \<le> r" "r < 86400" by (simp_all add: r_def)
  let ?h = "r div 3600" and ?mi = "r mod 3600 div 60" and ?sec = "r mod 60"
  have h: "0 \<le> ?h" "?h < 24" using r by linarith+
  have mi: "0 \<le> ?mi" "?mi < 60" by linarith+
  have sec: "0 \<le> ?sec" "?sec < 60" by simp_all
  have hms: "(?h * 60 + ?mi) * 60 + ?sec = r"
  proof -
    have sec: "r mod 3600 mod 60 = ?sec" by (rule mod_mod_cancel) simp
    have "(?h * 60 + ?mi) * 60 + ?sec = 3600 * ?h + (60 * ?mi + r mod 3600 mod 60)" unfolding sec by simp
    also have "\<dots> = r" by (simp only: mult_div_mod_eq)
    finally show ?thesis .
  qed
  have ns: "take_frac (fmtFrac (nat (t mod nanosecond_per_second)) 9 False [] @ zone_text z) =
      (t mod nanosecond_per_second, zone_text z)"
    using take_frac_fmt [of "nat (t mod nanosecond_per_second)" "zone_text z"] zone_text_frame [of z]
    by (simp add: nanosecond_per_second_def nat_less_iff)
  have total: "(((civil_days y m d * 24 + ?h) * 60 + ?mi) * 60 + ?sec - 60 * z) * nanosecond_per_second
      + t mod nanosecond_per_second = t"
  proof -
    have "((civil_days y m d * 24 + ?h) * 60 + ?mi) * 60 + ?sec = 86400 * (L div 86400) + r"
      using hms unfolding D by (simp add: algebra_simps)
    also have "\<dots> = L" unfolding r_def by (simp only: mult_div_mod_eq)
    finally have "((civil_days y m d * 24 + ?h) * 60 + ?mi) * 60 + ?sec - 60 * z = t div nanosecond_per_second"
      unfolding L_def local_seconds_def by simp
    then show ?thesis by (simp only: div_mult_mod_eq)
  qed
  have "s = pad4 y @ ''-'' @ pad2 m @ ''-'' @ pad2 d @ ''T'' @ pad2 ?h @ '':'' @ pad2 ?mi @ '':'' @ pad2 ?sec
      @ fmtFrac (nat (t mod nanosecond_per_second)) 9 False [] @ zone_text z"
    using civil unfolding s format_RFC3339Nano_def Let_def L_def [symmetric] r_def by (simp only: prod.case)
  with parse_parts [OF y m d h mi sec ns z] total show ?thesis by (simp only:)
qed

end
