(* ===== verification/Json.thy ===== *)
theory Json
  imports Time_Text
begin

text \<open>
  The part of \<open>encoding/json\<close> the program uses: values, the indented text that
  \<open>json.MarshalIndent\<close> writes, and the parser of \<open>json.Unmarshal\<close>. Strings are byte
  strings; the encoder works on their UTF-8 decoding. The parser has fuel; the length
  of the text is enough, and the last section shows that it reads back what the
  printer writes.
\<close>

section \<open>Values\<close>

text \<open>
  A number and a string are kept as their literals, as the decoder does before it knows
  the target type: the digits, and the characters between the quotation marks.
\<close>

datatype json = JNull | JBool bool | JNumber string | JString string | JArray "json list" | JObject "(string \<times> json) list"

definition JInt :: "int \<Rightarrow> json" where
  "JInt i = JNumber (show_int i)"

section \<open>UTF-8\<close>

abbreviation byte :: "char \<Rightarrow> nat" where
  "byte c \<equiv> of_char c"

definition continuation :: "char \<Rightarrow> bool" where
  "continuation c \<longleftrightarrow> 0x80 \<le> byte c \<and> byte c \<le> 0xBF"

text \<open>The well-formed sequences of two, three and four bytes.\<close>

definition seq2 :: "char \<Rightarrow> char \<Rightarrow> bool" where
  "seq2 c d \<longleftrightarrow> 0xC2 \<le> byte c \<and> byte c \<le> 0xDF \<and> continuation d"

definition seq3 :: "char \<Rightarrow> char \<Rightarrow> char \<Rightarrow> bool" where
  "seq3 c d e \<longleftrightarrow>
     0xE0 \<le> byte c \<and> byte c \<le> 0xEF \<and> continuation d \<and> (byte c = 0xE0 \<longrightarrow> 0xA0 \<le> byte d)
     \<and> (byte c = 0xED \<longrightarrow> byte d \<le> 0x9F) \<and> continuation e"

definition seq4 :: "char \<Rightarrow> char \<Rightarrow> char \<Rightarrow> char \<Rightarrow> bool" where
  "seq4 c d e f \<longleftrightarrow>
     0xF0 \<le> byte c \<and> byte c \<le> 0xF4 \<and> continuation d \<and> (byte c = 0xF0 \<longrightarrow> 0x90 \<le> byte d)
     \<and> (byte c = 0xF4 \<longrightarrow> byte d \<le> 0x8F) \<and> continuation e \<and> continuation f"

text \<open>The length of the well-formed sequence at the head, 0 when there is none.\<close>

definition utf8_len :: "string \<Rightarrow> nat" where
  "utf8_len s =
     (case s of
        [] \<Rightarrow> 0
      | c # s1 \<Rightarrow>
          if byte c < 0x80 then 1
          else (case s1 of
                  [] \<Rightarrow> 0
                | d # s2 \<Rightarrow>
                    if seq2 c d then 2
                    else (case s2 of
                            [] \<Rightarrow> 0
                          | e # s3 \<Rightarrow>
                              if seq3 c d e then 3
                              else (case s3 of [] \<Rightarrow> 0 | f # _ \<Rightarrow> if seq4 c d e f then 4 else 0))))"

lemma utf8_len_le: "utf8_len s \<le> length s"
  by (simp add: utf8_len_def split: list.splits)

function utf8_valid :: "string \<Rightarrow> bool" where
  "utf8_valid s = (if s = [] then True else if utf8_len s = 0 then False else utf8_valid (drop (utf8_len s) s))"
  by pat_completeness auto
termination
  by (relation "measure length") auto

declare utf8_valid.simps [simp del]

definition rune_bytes :: "nat \<Rightarrow> string" where
  "rune_bytes r =
     (if r < 0x80 then [char_of r]
      else if r < 0x800 then [char_of (0xC0 + r div 64), char_of (0x80 + r mod 64)]
      else if r < 0x10000 then
        [char_of (0xE0 + r div 4096), char_of (0x80 + r div 64 mod 64), char_of (0x80 + r mod 64)]
      else [char_of (0xF0 + r div 262144), char_of (0x80 + r div 4096 mod 64), char_of (0x80 + r div 64 mod 64),
            char_of (0x80 + r mod 64)])"

section \<open>Strings\<close>

abbreviation quotation :: char where
  "quotation \<equiv> CHR 0x22"

abbreviation backslash :: char where
  "backslash \<equiv> CHR 0x5C"

definition hex_char :: "nat \<Rightarrow> char" where
  "hex_char n = (if n < 10 then char_of (48 + n) else char_of (87 + n))"

definition u_escape :: "nat \<Rightarrow> string" where
  "u_escape r =
     [backslash, CHR ''u'', hex_char (r div 4096 mod 16), hex_char (r div 256 mod 16), hex_char (r div 16 mod 16),
      hex_char (r mod 16)]"

text \<open>An ASCII character inside a string; the HTML characters are escaped too.\<close>

definition encode_ascii :: "char \<Rightarrow> string" where
  "encode_ascii c =
     (if c = quotation \<or> c = backslash then [backslash, c]
      else if byte c = 8 then [backslash, CHR ''b'']
      else if byte c = 12 then [backslash, CHR ''f'']
      else if byte c = 10 then [backslash, CHR ''n'']
      else if byte c = 13 then [backslash, CHR ''r'']
      else if byte c = 9 then [backslash, CHR ''t'']
      else if byte c < 0x20 \<or> c = CHR ''<'' \<or> c = CHR ''>'' \<or> c = CHR ''&'' then u_escape (byte c)
      else [c])"

definition line_separators :: "string list" where
  "line_separators = [[CHR 0xE2, CHR 0x80, CHR 0xA8], [CHR 0xE2, CHR 0x80, CHR 0xA9]]"

function encode_chars :: "string \<Rightarrow> string" where
  "encode_chars [] = []"
| "encode_chars (c # s) =
     (if byte c < 0x80 then encode_ascii c @ encode_chars s
      else if utf8_len (c # s) = 0 then u_escape 0xFFFD @ encode_chars s
      else (let n = utf8_len (c # s); p = take n (c # s)
            in (if p = line_separators ! 0 then u_escape 0x2028
                else if p = line_separators ! 1 then u_escape 0x2029 else p)
               @ encode_chars (drop n (c # s))))"
  by pat_completeness auto
termination
  by (relation "measure length") auto

definition encode_string :: "string \<Rightarrow> string" where
  "encode_string s = quotation # encode_chars s @ [quotation]"

definition JText :: "string \<Rightarrow> json" where
  "JText s = JString (encode_chars s)"

text \<open>Reading back: the hexadecimal escapes, then the string up to its closing quotation mark.\<close>

definition hex_val :: "char \<Rightarrow> nat option" where
  "hex_val c =
     (if 48 \<le> byte c \<and> byte c \<le> 57 then Some (byte c - 48)
      else if 97 \<le> byte c \<and> byte c \<le> 102 then Some (byte c - 87)
      else if 65 \<le> byte c \<and> byte c \<le> 70 then Some (byte c - 55)
      else None)"

fun take_hex4 :: "string \<Rightarrow> (nat \<times> string) option" where
  "take_hex4 (a # b # c # d # s) =
     (case (hex_val a, hex_val b, hex_val c, hex_val d) of
        (Some w, Some x, Some y, Some z) \<Rightarrow> Some (((w * 16 + x) * 16 + y) * 16 + z, s)
      | _ \<Rightarrow> None)"
| "take_hex4 _ = None"

definition simple_escape :: "char \<Rightarrow> char option" where
  "simple_escape e =
     (if e = quotation \<or> e = backslash \<or> e = CHR ''/'' then Some e
      else if e = CHR ''b'' then Some (char_of (8::nat))
      else if e = CHR ''f'' then Some (char_of (12::nat))
      else if e = CHR ''n'' then Some (char_of (10::nat))
      else if e = CHR ''r'' then Some (char_of (13::nat))
      else if e = CHR ''t'' then Some (char_of (9::nat))
      else None)"

text \<open>The rune of a \<open>\\u\<close> escape; a surrogate pair is one rune, a lone surrogate is replaced.\<close>

definition take_rune :: "string \<Rightarrow> (string \<times> string) option" where
  "take_rune s =
     (case take_hex4 s of
        None \<Rightarrow> None
      | Some (r, s1) \<Rightarrow>
          if r < 0xD800 \<or> 0xE000 \<le> r then Some (rune_bytes r, s1)
          else (case s1 of
                  x # y # s2 \<Rightarrow>
                    if x = backslash \<and> y = CHR ''u'' then
                      (case take_hex4 s2 of
                         Some (r2, s3) \<Rightarrow>
                           if r < 0xDC00 \<and> 0xDC00 \<le> r2 \<and> r2 < 0xE000
                           then Some (rune_bytes (0x10000 + (r - 0xD800) * 1024 + (r2 - 0xDC00)), s3)
                           else Some (rune_bytes 0xFFFD, s1)
                       | None \<Rightarrow> Some (rune_bytes 0xFFFD, s1))
                    else Some (rune_bytes 0xFFFD, s1)
                | _ \<Rightarrow> Some (rune_bytes 0xFFFD, s1)))"

lemma take_hex4_shorter: "take_hex4 s = Some (r, s') \<Longrightarrow> length s' < length s"
  by (cases s rule: take_hex4.cases) (auto split: option.splits)

lemma take_rune_shorter: "take_rune s = Some (p, s') \<Longrightarrow> length s' < length s"
  by (auto simp: take_rune_def split: option.splits prod.splits list.splits if_splits dest!: take_hex4_shorter)

function decode_chars :: "string \<Rightarrow> (string \<times> string) option" where
  "decode_chars [] = None"
| "decode_chars (c # s) =
     (if c = quotation then Some ([], s)
      else if c = backslash then
        (case s of
           [] \<Rightarrow> None
         | e # s1 \<Rightarrow>
             if e = CHR ''u'' then
               (case take_rune s1 of
                  None \<Rightarrow> None
                | Some (p, s2) \<Rightarrow> map_option (\<lambda>(t, r). (p @ t, r)) (decode_chars s2))
             else (case simple_escape e of
                     None \<Rightarrow> None
                   | Some x \<Rightarrow> map_option (\<lambda>(t, r). (x # t, r)) (decode_chars s1)))
      else if byte c < 0x20 then None
      else if utf8_len (c # s) = 0 then map_option (\<lambda>(t, r). (rune_bytes 0xFFFD @ t, r)) (decode_chars s)
      else (let n = utf8_len (c # s)
            in map_option (\<lambda>(t, r). (take n (c # s) @ t, r)) (decode_chars (drop n (c # s)))))"
  by pat_completeness auto
termination
  by (relation "measure length") (auto dest: take_rune_shorter)


text \<open>The literal up to its closing mark, and the text a literal stands for.\<close>

definition take_string :: "string \<Rightarrow> (string \<times> string) option" where
  "take_string s = map_option (\<lambda>(t, r). (take (length s - length r - 1) s, r)) (decode_chars s)"

definition unquote :: "string \<Rightarrow> string option" where
  "unquote raw = (case decode_chars (raw @ [quotation]) of Some (t, []) \<Rightarrow> Some t | _ \<Rightarrow> None)"

subsection \<open>Strings read back\<close>

lemma byte_char_of: "n < 256 \<Longrightarrow> byte (char_of n) = n"
  by simp

lemma char_of_byte: "byte c = n \<Longrightarrow> char_of n = c"
  by auto

lemma hex_val_hex_char [simp]: "n < 16 \<Longrightarrow> hex_val (hex_char n) = Some n"
  by (simp add: hex_val_def hex_char_def)

lemma hex4_sum:
  assumes "r < 65536"
  shows "((r div 4096 mod 16 * 16 + r div 256 mod 16) * 16 + r div 16 mod 16) * 16 + r mod 16 = (r :: nat)"
proof -
  have split: "k div 16 * 16 + k mod 16 = k" for k :: nat by simp
  have "r div 4096 < 16" using assms by simp
  then have "r div 4096 mod 16 = r div 256 div 16" by (simp add: div_mult2_eq [symmetric])
  moreover have "r div 256 = r div 16 div 16" by (simp add: div_mult2_eq [symmetric])
  ultimately show ?thesis using split by metis
qed

lemma decode_u_escape:
  assumes "r < 0xD800"
  shows "decode_chars (u_escape r @ s) = map_option (\<lambda>(t, x). (rune_bytes r @ t, x)) (decode_chars s)"
proof -
  have "take_rune (drop 2 (u_escape r) @ s) = Some (rune_bytes r, s)"
    using assms hex4_sum [of r] by (simp add: take_rune_def u_escape_def)
  then show ?thesis by (simp add: u_escape_def split: option.splits)
qed

lemma rune_bytes_byte: "byte c < 0x80 \<Longrightarrow> rune_bytes (byte c) = [c]"
  by (simp add: rune_bytes_def)

lemma encode_ascii_cases:
  "c = quotation \<or> c = backslash \<or> byte c \<in> {8, 12, 10, 13, 9} \<or> encode_ascii c = u_escape (byte c)
   \<or> (encode_ascii c = [c] \<and> c \<noteq> quotation \<and> c \<noteq> backslash \<and> \<not> byte c < 0x20)"
  by (simp add: encode_ascii_def)

lemma control_chars:
  "byte c \<in> {8, 12, 10, 13, 9} \<longleftrightarrow> c \<in> {CHR 0x08, CHR 0x0C, CHR 0x0A, CHR 0x0D, CHR 0x09}"
proof -
  have "byte c = n \<longleftrightarrow> c = char_of n" if "n < 256" for n using that char_of_byte by fastforce
  moreover have "char_of (8::nat) = CHR 0x08" "char_of (12::nat) = CHR 0x0C" "char_of (10::nat) = CHR 0x0A"
    "char_of (13::nat) = CHR 0x0D" "char_of (9::nat) = CHR 0x09" by (simp_all add: char_of_def bit_0)
  ultimately show ?thesis by simp
qed

lemma decode_encode_ascii:
  assumes "byte c < 0x80"
  shows "decode_chars (encode_ascii c @ s) = map_option (\<lambda>(t, x). (c # t, x)) (decode_chars s)"
proof -
  consider "c = quotation \<or> c = backslash"
    | "byte c \<in> {8, 12, 10, 13, 9}"
    | "encode_ascii c = u_escape (byte c)"
    | "encode_ascii c = [c]" "c \<noteq> quotation" "c \<noteq> backslash" "\<not> byte c < 0x20"
    using encode_ascii_cases [of c] by blast
  then show ?thesis
  proof cases
    case 1
    then show ?thesis by (auto simp: encode_ascii_def simple_escape_def)
  next
    case 2
    then have "c \<in> {CHR 0x08, CHR 0x0C, CHR 0x0A, CHR 0x0D, CHR 0x09}" by (simp only: control_chars)
    then show ?thesis
      by (elim insertE emptyE) (simp_all add: encode_ascii_def simple_escape_def char_of_def bit_0)
  next
    case 3
    have "byte c < 0xD800" using assms by simp
    from decode_u_escape [OF this, of s] 3 show ?thesis using assms by (simp add: rune_bytes_byte)
  next
    case 4
    then have "utf8_len (c # s) = 1" using assms by (simp add: utf8_len_def)
    with 4 show ?thesis by (simp add: Let_def)
  qed
qed

text \<open>A sequence is recognised by its own bytes, whatever follows.\<close>

lemma utf8_len_append:
  assumes "utf8_len s > 0"
  shows "utf8_len (take (utf8_len s) s @ r) = utf8_len s"
proof (cases s)
  case (Cons c s1)
  show ?thesis
  proof (cases "byte c < 0x80")
    case True
    with Cons show ?thesis by (simp add: utf8_len_def)
  next
    case False
    then obtain d s2 where s1: "s1 = d # s2" using assms Cons by (cases s1) (simp_all add: utf8_len_def)
    show ?thesis
    proof (cases "seq2 c d")
      case True
      with False Cons s1 show ?thesis by (simp add: utf8_len_def numeral_2_eq_2)
    next
      case no2: False
      then obtain e s3 where s2: "s2 = e # s3" using assms Cons s1 False by (cases s2) (simp_all add: utf8_len_def)
      show ?thesis
      proof (cases "seq3 c d e")
        case True
        with no2 False Cons s1 s2 show ?thesis by (simp add: utf8_len_def numeral_3_eq_3)
      next
        case no3: False
        then obtain f s4 where "s3 = f # s4" "seq4 c d e f"
          using assms Cons s1 s2 no2 False by (cases s3) (auto simp: utf8_len_def split: if_splits)
        with no3 no2 False Cons s1 s2 show ?thesis by (simp add: utf8_len_def)
      qed
    qed
  qed
qed (use assms in \<open>simp add: utf8_len_def\<close>)

lemma decode_sequence:
  assumes "utf8_len (c # s) > 0" and "\<not> byte c < 0x80"
  shows "decode_chars (take (utf8_len (c # s)) (c # s) @ r)
         = map_option (\<lambda>(t, x). (take (utf8_len (c # s)) (c # s) @ t, x)) (decode_chars r)"
proof -
  let ?p = "take (utf8_len (c # s)) (c # s)"
  obtain p where p: "?p = c # p" using assms(1) by (cases "utf8_len (c # s)") auto
  have "length ?p = utf8_len (c # s)" using utf8_len_le [of "c # s"] by simp
  with utf8_len_append [OF assms(1), of r] p have len: "utf8_len (c # p @ r) = length ?p"
    by (metis append_Cons)
  have "c \<noteq> quotation" "c \<noteq> backslash" "\<not> byte c < 0x20" using assms(2) by auto
  then show ?thesis unfolding p using len p by (simp add: Let_def)
qed

lemma decode_separators:
  shows "decode_chars (u_escape 0x2028 @ r) = map_option (\<lambda>(t, x). (line_separators ! 0 @ t, x)) (decode_chars r)" (is ?thesis1)
    and "decode_chars (u_escape 0x2029 @ r) = map_option (\<lambda>(t, x). (line_separators ! 1 @ t, x)) (decode_chars r)" (is ?thesis2)
proof -
  have "rune_bytes 0x2028 = line_separators ! 0" "rune_bytes 0x2029 = line_separators ! 1" 
    by (simp_all add: rune_bytes_def line_separators_def char_of_def bit_0)
  moreover have "(0x2028::nat) < 0xD800" "(0x2029::nat) < 0xD800" by simp_all
  ultimately show ?thesis1 ?thesis2 by (simp_all only: decode_u_escape)
qed

theorem decode_encode_chars:
  "utf8_valid s \<Longrightarrow> decode_chars (encode_chars s @ quotation # r) = Some (s, r)"
proof (induction s rule: utf8_valid.induct)
  case (1 s)
  show ?case
  proof (cases s)
    case Nil
    then show ?thesis by simp
  next
    case (Cons c s')
    let ?n = "utf8_len (c # s')"
    have n: "?n > 0" and v: "utf8_valid (drop ?n (c # s'))"
      using 1(2) unfolding Cons by (subst (asm) utf8_valid.simps, simp split: if_splits)+
    from 1(1) n v Cons have IH: "decode_chars (encode_chars (drop ?n (c # s')) @ quotation # r) = Some (drop ?n (c # s'), r)"
      by simp
    show ?thesis
    proof (cases "byte c < 0x80")
      case True
      then have "?n = 1" by (simp add: utf8_len_def)
      with IH True Cons show ?thesis by (simp add: decode_encode_ascii del: decode_chars.simps)
    next
      case False
      let ?p = "take ?n (c # s')"
      have "encode_chars s = (if ?p = line_separators ! 0 then u_escape 0x2028
                else if ?p = line_separators ! 1 then u_escape 0x2029 else ?p) @ encode_chars (drop ?n (c # s'))"
        using False n Cons by (simp add: Let_def)
      moreover have "?p @ drop ?n (c # s') = s" using Cons by (metis append_take_drop_id)
      ultimately show ?thesis
        using IH decode_separators decode_sequence [OF n False]
        by (auto simp del: decode_chars.simps encode_chars.simps take_Cons' drop_Cons' append_take_drop_id)
    qed
  qed
qed


lemma unquote_encode [simp]: "utf8_valid s \<Longrightarrow> unquote (encode_chars s) = Some s"
  by (simp add: unquote_def decode_encode_chars)

section \<open>Texts\<close>

subsection \<open>The printer\<close>

text \<open>
  The layout is the depth of the indentation, two spaces per level, or \<open>None\<close> for
  the compact text of \<open>json.Marshal\<close>.
\<close>

type_synonym layout = "nat option"

definition new_line :: "layout \<Rightarrow> string" where
  "new_line l = (case l of None \<Rightarrow> [] | Some d \<Rightarrow> char_of (10::nat) # replicate (2 * d) (CHR '' ''))"

definition colon :: "layout \<Rightarrow> string" where
  "colon l = (case l of None \<Rightarrow> '':'' | Some _ \<Rightarrow> '': '')"

abbreviation deeper :: "layout \<Rightarrow> layout" where
  "deeper l \<equiv> map_option Suc l"

fun commas :: "string list \<Rightarrow> string" where
  "commas [] = []"
| "commas [x] = x"
| "commas (x # y # xs) = x @ CHR '','' # commas (y # xs)"

definition literal_true :: string where
  "literal_true = ''true''"

definition literal_false :: string where
  "literal_false = ''false''"

definition literal_null :: string where
  "literal_null = ''null''"

lemma size_member:
  "kv \<in> set ms \<Longrightarrow> size (snd kv) < Suc (size_list (size_prod (\<lambda>x. 0) size) ms)"
  by (induction ms) auto

lemma size_element: "x \<in> set xs \<Longrightarrow> size x < Suc (size_list size xs)"
  by (induction xs) auto

function print_json :: "layout \<Rightarrow> json \<Rightarrow> string" where
  "print_json l JNull = literal_null"
| "print_json l (JBool b) = (if b then literal_true else literal_false)"
| "print_json l (JNumber n) = n"
| "print_json l (JString s) = quotation # s @ [quotation]"
| "print_json l (JArray xs) =
     (if xs = [] then ''[]''
      else CHR ''['' # commas (map (\<lambda>x. new_line (deeper l) @ print_json (deeper l) x) xs) @ new_line l @ '']'')"
| "print_json l (JObject ms) =
     (if ms = [] then ''{}''
      else CHR ''{'' # commas (map (\<lambda>kv. new_line (deeper l) @ encode_string (fst kv) @ colon l
                                          @ print_json (deeper l) (snd kv)) ms)
           @ new_line l @ ''}'')"
  by pat_completeness auto
termination
  by (relation "measure (\<lambda>(l, j). size j)") (auto dest: size_member size_element)

subsection \<open>The parser\<close>

definition json_space :: "char \<Rightarrow> bool" where
  "json_space c \<longleftrightarrow> c = CHR '' '' \<or> byte c = 9 \<or> byte c = 10 \<or> byte c = 13"

definition skip_space :: "string \<Rightarrow> string" where
  "skip_space s = dropWhile json_space s"

definition token :: "char \<Rightarrow> string \<Rightarrow> string option" where
  "token c s = expect c (skip_space s)"

text \<open>The number literal at the head: sign, integer part, fraction, exponent.\<close>

definition digits1 :: "string \<Rightarrow> (string \<times> string) option" where
  "digits1 s = (let ds = takeWhile is_digit s in if ds = [] then None else Some (ds, dropWhile is_digit s))"

definition int_part :: "string \<Rightarrow> (string \<times> string) option" where
  "int_part s = (case expect CHR ''0'' s of Some r \<Rightarrow> Some (''0'', r) | None \<Rightarrow> digits1 s)"

definition frac_part :: "string \<Rightarrow> (string \<times> string) option" where
  "frac_part s =
     (case expect CHR ''.'' s of
        None \<Rightarrow> Some ([], s)
      | Some s1 \<Rightarrow> map_option (\<lambda>(ds, r). (CHR ''.'' # ds, r)) (digits1 s1))"

definition sign_part :: "char list \<Rightarrow> string \<Rightarrow> string \<times> string" where
  "sign_part cs s = (case s of c # r \<Rightarrow> if c \<in> set cs then ([c], r) else ([], s) | [] \<Rightarrow> ([], s))"

definition exp_part :: "string \<Rightarrow> (string \<times> string) option" where
  "exp_part s =
     (let (e, s1) = sign_part ''eE'' s; (sg, s2) = sign_part ''+-'' s1
      in if e = [] then Some ([], s) else map_option (\<lambda>(ds, r). (e @ sg @ ds, r)) (digits1 s2))"

definition take_number :: "string \<Rightarrow> (string \<times> string) option" where
  "take_number s = do {
     let (sg, s1) = sign_part ''-'' s;
     (i, s2) \<leftarrow> int_part s1;
     (f, s3) \<leftarrow> frac_part s2;
     (e, s4) \<leftarrow> exp_part s3;
     Some (sg @ i @ f @ e, s4) }"

definition take_literal :: "string \<Rightarrow> (json \<times> string) option" where
  "take_literal s =
     (if HasPrefix s literal_null then Some (JNull, drop 4 s)
      else if HasPrefix s literal_true then Some (JBool True, drop 4 s)
      else if HasPrefix s literal_false then Some (JBool False, drop 5 s)
      else map_option (\<lambda>(n, r). (JNumber n, r)) (take_number s))"

text \<open>The first argument is fuel, the second the nesting depth that is left.\<close>

fun parse_value :: "nat \<Rightarrow> nat \<Rightarrow> string \<Rightarrow> (json \<times> string) option"
  and parse_elements :: "nat \<Rightarrow> nat \<Rightarrow> string \<Rightarrow> (json list \<times> string) option"
  and parse_members :: "nat \<Rightarrow> nat \<Rightarrow> string \<Rightarrow> ((string \<times> json) list \<times> string) option" where
  "parse_value 0 k s = None"
| "parse_value (Suc n) k s =
     (case skip_space s of
        [] \<Rightarrow> None
      | c # s1 \<Rightarrow>
          if c = quotation then map_option (\<lambda>(t, r). (JString t, r)) (take_string s1)
          else if c = CHR ''['' then
            if k = 0 then None
            else (case token CHR '']'' s1 of
                    Some r \<Rightarrow> Some (JArray [], r)
                  | None \<Rightarrow> map_option (\<lambda>(xs, r). (JArray xs, r)) (parse_elements n (k - 1) s1))
          else if c = CHR ''{'' then
            if k = 0 then None
            else (case token CHR ''}'' s1 of
                    Some r \<Rightarrow> Some (JObject [], r)
                  | None \<Rightarrow> map_option (\<lambda>(ms, r). (JObject ms, r)) (parse_members n (k - 1) s1))
          else take_literal (c # s1))"
| "parse_elements 0 k s = None"
| "parse_elements (Suc n) k s =
     (case parse_value n k s of
        None \<Rightarrow> None
      | Some (x, s1) \<Rightarrow>
          (case token CHR '','' s1 of
             Some s2 \<Rightarrow> map_option (\<lambda>(xs, r). (x # xs, r)) (parse_elements n k s2)
           | None \<Rightarrow> map_option (\<lambda>r. ([x], r)) (token CHR '']'' s1)))"
| "parse_members 0 k s = None"
| "parse_members (Suc n) k s =
     (case Option.bind (token quotation s) decode_chars of
        None \<Rightarrow> None
      | Some (key, s1) \<Rightarrow>
          (case Option.bind (token CHR '':'' s1) (parse_value n k) of
             None \<Rightarrow> None
           | Some (v, s2) \<Rightarrow>
               (case token CHR '','' s2 of
                  Some s3 \<Rightarrow> map_option (\<lambda>(ms, r). ((key, v) # ms, r)) (parse_members n k s3)
                | None \<Rightarrow> map_option (\<lambda>r. ([(key, v)], r)) (token CHR ''}'' s2))))"

definition maxNestingDepth :: nat where
  "maxNestingDepth = 10000"

definition parse_json :: "string \<Rightarrow> json option" where
  "parse_json s =
     (case parse_value (2 * length s + 1) maxNestingDepth s of
        Some (j, r) \<Rightarrow> if skip_space r = [] then Some j else None
      | None \<Rightarrow> None)"


subsection \<open>The fuel is enough\<close>

text \<open>Every token takes at least one character.\<close>

lemma expect_shorter: "expect c s = Some r \<Longrightarrow> length r < length s"
  by (cases s) (auto split: if_splits)

lemma skip_space_length: "length (skip_space s) \<le> length s"
  by (simp add: skip_space_def length_dropWhile_le)

lemma token_shorter: "token c s = Some r \<Longrightarrow> length r < length s"
  using expect_shorter skip_space_length order_less_le_trans unfolding token_def by blast

lemma decode_chars_shorter: "decode_chars s = Some (t, r) \<Longrightarrow> length r < length s"
proof (induction s arbitrary: t r rule: decode_chars.induct)
  case (2 c s)
  consider "c = quotation" | "c = backslash" | "c \<noteq> quotation" "c \<noteq> backslash" "utf8_len (c # s) = 0"
    | "c \<noteq> quotation" "c \<noteq> backslash" "utf8_len (c # s) \<noteq> 0" by blast
  then show ?case
  proof cases
    case 1
    with 2(5) show ?thesis by simp
  next
    case 2
    then show ?thesis
      using "2.IH"(1,2) "2.prems"
      by (fastforce split: list.splits option.splits if_splits dest: take_rune_shorter)
  next
    case 3
    then show ?thesis using "2.IH"(3) "2.prems" by (fastforce split: if_splits)
  next
    case 4
    then have "decode_chars (drop (utf8_len (c # s)) (c # s)) \<noteq> None" "\<not> byte c < 32"
      using "2.prems" by (auto simp: Let_def split: if_splits)
    then obtain t' where "decode_chars (drop (utf8_len (c # s)) (c # s)) = Some (t', r)"
      using 4 "2.prems" by (auto simp: Let_def)
    then have "length r < length (drop (utf8_len (c # s)) (c # s))"
      using "2.IH"(4) 4 \<open>\<not> byte c < 32\<close> by blast
    then show ?thesis by simp
  qed
qed simp

lemma sign_part_le: "sign_part cs s = (a, r) \<Longrightarrow> length r \<le> length s"
  by (auto simp: sign_part_def split: list.splits if_splits)

lemma digits1_shorter: "digits1 s = Some (ds, r) \<Longrightarrow> length r < length s"
proof -
  assume "digits1 s = Some (ds, r)"
  then have "takeWhile is_digit s \<noteq> []" and r: "r = dropWhile is_digit s"
    by (auto simp: digits1_def Let_def split: if_splits)
  then have "0 < length (takeWhile is_digit s)" by simp
  moreover have "length (takeWhile is_digit s) + length (dropWhile is_digit s) = length s"
    by (metis length_append takeWhile_dropWhile_id)
  ultimately show ?thesis unfolding r by linarith
qed

lemma number_parts_shorter:
  "int_part s = Some (a, r) \<Longrightarrow> length r < length s"
  "frac_part s = Some (a, r) \<Longrightarrow> length r \<le> length s"
  "exp_part s = Some (a, r) \<Longrightarrow> length r \<le> length s"
  by (auto simp: int_part_def frac_part_def exp_part_def split: option.splits prod.splits if_splits
      dest!: expect_shorter digits1_shorter sign_part_le)

lemma take_number_shorter: "take_number s = Some (n, r) \<Longrightarrow> length r < length s"
  by (fastforce simp: take_number_def split: prod.splits bind_splits
      dest: sign_part_le number_parts_shorter)

lemma take_literal_shorter: "take_literal s = Some (j, r) \<Longrightarrow> length r < length s"
  by (cases s)
    (auto simp: take_literal_def literal_null_def literal_true_def literal_false_def split: if_splits
      dest: take_number_shorter)

lemma take_string_shorter: "take_string s = Some (t, r) \<Longrightarrow> length r < length s"
  by (auto simp: take_string_def dest: decode_chars_shorter)

lemmas shorter = token_shorter decode_chars_shorter take_string_shorter take_literal_shorter

lemma parse_shorter:
  shows "parse_value n k s = Some (j, r) \<Longrightarrow> length r < length s"
    and "parse_elements n k s = Some (js, r) \<Longrightarrow> length r < length s"
    and "parse_members n k s = Some (ms, r) \<Longrightarrow> length r < length s"
proof (induction n k s and n k s and n k s arbitrary: j r and js r and ms r
    rule: parse_value_parse_elements_parse_members.induct)
  case (2 n k s)
  then show ?case
    using skip_space_length [of s]
    by (fastforce split: list.splits if_splits option.splits dest: shorter)
next
  case (4 n k s)
  then show ?case by (fastforce split: option.splits dest: shorter)
next
  case (6 n k s)
  then show ?case by (fastforce split: option.splits bind_splits dest: shorter)
qed simp_all


text \<open>Two amounts of fuel above twice the length of the text give the same result.\<close>

lemma parse_fuel:
  shows "2 * length s < n \<Longrightarrow> 2 * length s < m \<Longrightarrow> parse_value n k s = parse_value m k s"
    and "2 * length s + 1 < n \<Longrightarrow> 2 * length s + 1 < m \<Longrightarrow> parse_elements n k s = parse_elements m k s"
    and "2 * length s + 1 < n \<Longrightarrow> 2 * length s + 1 < m \<Longrightarrow> parse_members n k s = parse_members m k s"
proof (induction n k s and n k s and n k s arbitrary: m and m and m
    rule: parse_value_parse_elements_parse_members.induct)
  case (2 n k s)
  obtain m' where m: "m = Suc m'" using 2(4) by (cases m) auto
  show ?case
  proof (cases "skip_space s")
    case Nil
    then show ?thesis by (simp add: m)
  next
    case (Cons c s1)
    then have "length s1 < length s" using skip_space_length [of s] by simp
    then have less: "2 * length s1 + 1 < n" "2 * length s1 + 1 < m'" using 2(3,4) m by linarith+
    have "c = CHR ''['' \<Longrightarrow> k \<noteq> 0 \<Longrightarrow> token CHR '']'' s1 = None \<Longrightarrow> parse_elements n (k - 1) s1 = parse_elements m' (k - 1) s1"
      and "c = CHR ''{'' \<Longrightarrow> k \<noteq> 0 \<Longrightarrow> token CHR ''}'' s1 = None \<Longrightarrow> parse_members n (k - 1) s1 = parse_members m' (k - 1) s1"
      by (rule 2(1)[OF Cons _ _ _ _ less]; simp) (rule 2(2)[OF Cons _ _ _ _ _ less]; simp)
    then show ?thesis using Cons unfolding m
      by (simp split: option.split)
  qed
next
  case (4 n k s)
  obtain m' where m: "m = Suc m'" using 4(4) by (cases m) auto
  have v: "parse_value n k s = parse_value m' k s" by (rule 4(1)) (use 4(3,4) m in linarith)+
  show ?case
  proof (cases "parse_value n k s")
    case None
    then show ?thesis using v by (simp add: m)
  next
    case (Some p)
    obtain x s1 where p: "p = (x, s1)" by force
    have "parse_elements n k s2 = parse_elements m' k s2" if "token CHR '','' s1 = Some s2" for s2
    proof -
      have "length s2 < length s" using Some p that parse_shorter(1) token_shorter by fastforce
      then have "2 * length s2 + 1 < n" "2 * length s2 + 1 < m'" using 4(3,4) m by linarith+
      with 4(2)[OF Some p[symmetric] that] show ?thesis by blast
    qed
    then show ?thesis using Some p v by (simp add: m split: option.splits)
  qed
next
  case (6 n k s)
  obtain m' where m: "m = Suc m'" using 6(4) by (cases m) auto
  have less: "2 * length r < n" "2 * length r < m'" "2 * length r + 1 < n" "2 * length r + 1 < m'"
    if "length r < length s" for r using that 6(3,4) m by linarith+
  show ?case
  proof (cases "Option.bind (token quotation s) decode_chars")
    case None
    then show ?thesis by (simp add: m)
  next
    case (Some p)
    obtain key s1 where p: "p = (key, s1)" by force
    have s1: "length s1 < length s"
      using Some p by (fastforce split: bind_splits dest: shorter)
    have v: "Option.bind (token CHR '':'' s1) (parse_value n k) = Option.bind (token CHR '':'' s1) (parse_value m' k)"
    proof (cases "token CHR '':'' s1")
      case (Some s2)
      then have "length s2 < length s" using s1 token_shorter by fastforce
      then have "parse_value n k s2 = parse_value m' k s2"
        using 6(1)[OF \<open>Option.bind (token quotation s) decode_chars = Some p\<close> p[symmetric] Some] less by blast
      then show ?thesis using Some by simp
    qed simp
    have "parse_members n k s3 = parse_members m' k s3"
      if "Option.bind (token CHR '':'' s1) (parse_value n k) = Some (w, s2)" "token CHR '','' s2 = Some s3" for w s2 s3
    proof -
      have "length s3 < length s" using s1 that by (fastforce split: bind_splits dest: token_shorter parse_shorter(1))
      with less 6(2)[OF Some p[symmetric] that(1) refl that(2)] show ?thesis by blast
    qed
    then show ?thesis using Some p v by (simp add: m split: option.splits)
  qed
qed simp_all


text \<open>The parser with enough fuel, and its equations without fuel.\<close>

definition value_at :: "nat \<Rightarrow> string \<Rightarrow> (json \<times> string) option" where
  "value_at k s = parse_value (2 * length s + 1) k s"

definition elements_at :: "nat \<Rightarrow> string \<Rightarrow> (json list \<times> string) option" where
  "elements_at k s = parse_elements (2 * length s + 2) k s"

definition members_at :: "nat \<Rightarrow> string \<Rightarrow> ((string \<times> json) list \<times> string) option" where
  "members_at k s = parse_members (2 * length s + 2) k s"

lemma enough_fuel:
  "2 * length s < n \<Longrightarrow> parse_value n k s = value_at k s"
  "2 * length s + 1 < n \<Longrightarrow> parse_elements n k s = elements_at k s"
  "2 * length s + 1 < n \<Longrightarrow> parse_members n k s = members_at k s"
  unfolding value_at_def elements_at_def members_at_def by (rule parse_fuel; simp)+

lemma value_at_unfold:
  "value_at k s =
     (case skip_space s of
        [] \<Rightarrow> None
      | c # s1 \<Rightarrow>
          if c = quotation then map_option (\<lambda>(t, r). (JString t, r)) (take_string s1)
          else if c = CHR ''['' then
            if k = 0 then None
            else (case token CHR '']'' s1 of
                    Some r \<Rightarrow> Some (JArray [], r)
                  | None \<Rightarrow> map_option (\<lambda>(xs, r). (JArray xs, r)) (elements_at (k - 1) s1))
          else if c = CHR ''{'' then
            if k = 0 then None
            else (case token CHR ''}'' s1 of
                    Some r \<Rightarrow> Some (JObject [], r)
                  | None \<Rightarrow> map_option (\<lambda>(ms, r). (JObject ms, r)) (members_at (k - 1) s1))
          else take_literal (c # s1))"
proof (cases "skip_space s")
  case Nil
  then show ?thesis by (simp add: value_at_def)
next
  case (Cons c s1)
  then have "2 * length s1 + 1 < 2 * length s" using skip_space_length [of s] by simp
  with Cons show ?thesis unfolding value_at_def by (simp add: enough_fuel split: option.split)
qed

lemma elements_at_unfold:
  "elements_at k s =
     (case value_at k s of
        None \<Rightarrow> None
      | Some (x, s1) \<Rightarrow>
          (case token CHR '','' s1 of
             Some s2 \<Rightarrow> map_option (\<lambda>(xs, r). (x # xs, r)) (elements_at k s2)
           | None \<Rightarrow> map_option (\<lambda>r. ([x], r)) (token CHR '']'' s1)))"
proof -
  have "2 * length s2 + 1 < 2 * length s + 1"
    if "value_at k s = Some (x, s1)" "token CHR '','' s1 = Some s2" for x s1 s2
    using parse_shorter(1) token_shorter that unfolding value_at_def by fastforce
  moreover have "elements_at k s = parse_elements (Suc (2 * length s + 1)) k s" by (simp only: elements_at_def) simp
  ultimately show ?thesis unfolding parse_elements.simps(2)
    by (simp add: enough_fuel del: parse_value.simps parse_elements.simps split: option.split)
qed

lemma members_at_unfold:
  "members_at k s =
     (case Option.bind (token quotation s) decode_chars of
        None \<Rightarrow> None
      | Some (key, s1) \<Rightarrow>
          (case Option.bind (token CHR '':'' s1) (value_at k) of
             None \<Rightarrow> None
           | Some (v, s2) \<Rightarrow>
               (case token CHR '','' s2 of
                  Some s3 \<Rightarrow> map_option (\<lambda>(ms, r). ((key, v) # ms, r)) (members_at k s3)
                | None \<Rightarrow> map_option (\<lambda>r. ([(key, v)], r)) (token CHR ''}'' s2))))"
proof (cases "Option.bind (token quotation s) decode_chars")
  case None
  then show ?thesis by (simp add: members_at_def)
next
  case (Some p)
  obtain key s1 where p: "p = (key, s1)" by force
  have s1: "length s1 < length s" using Some p by (fastforce split: bind_splits dest: shorter)
  then have v: "Option.bind (token CHR '':'' s1) (parse_value (2 * length s + 1) k) = Option.bind (token CHR '':'' s1) (value_at k)"
    by (auto simp: enough_fuel simp del: parse_value.simps split: bind_splits dest!: token_shorter)
  have "2 * length s3 + 1 < 2 * length s + 1"
    if "Option.bind (token CHR '':'' s1) (value_at k) = Some (w, s2)" "token CHR '','' s2 = Some s3" for w s2 s3
  proof -
    note two = that
    obtain a where a: "token CHR '':'' s1 = Some a" "value_at k a = Some (w, s2)"
      using two(1) by (cases "token CHR '':'' s1") auto
    then have "length s2 < length a" using parse_shorter(1) unfolding value_at_def by blast
    with token_shorter [OF a(1)] token_shorter [OF two(2)] s1 show ?thesis by simp
  qed
  moreover have "members_at k s = parse_members (Suc (2 * length s + 1)) k s" by (simp only: members_at_def) simp
  ultimately show ?thesis using Some p v unfolding parse_members.simps(2)
    by (simp add: enough_fuel del: parse_value.simps parse_members.simps split: option.split)
qed


lemmas parser_simps = parse_value.simps parse_elements.simps parse_members.simps

declare parser_simps [simp del]

section \<open>What is printed reads back\<close>

subsection \<open>Numbers\<close>

definition number_char :: "char \<Rightarrow> bool" where
  "number_char c \<longleftrightarrow> is_digit c \<or> c \<in> set ''.eE+-''"

definition ends :: "string \<Rightarrow> bool" where
  "ends r \<longleftrightarrow> (case r of [] \<Rightarrow> True | c # _ \<Rightarrow> \<not> number_char c)"

definition number_ok :: "string \<Rightarrow> bool" where
  "number_ok n \<longleftrightarrow> take_number n = Some (n, [])"

lemma ends_digits: "ends r \<Longrightarrow> takeWhile is_digit r = [] \<and> dropWhile is_digit r = r"
  by (cases r) (auto simp: ends_def number_char_def)

lemma digits1_append:
  assumes "digits1 s = Some (a, b)" and "ends r"
  shows "digits1 (s @ r) = Some (a, b @ r)"
proof (cases "\<forall>c \<in> set s. is_digit c")
  case True
  then have "takeWhile is_digit (s @ r) = s" "dropWhile is_digit (s @ r) = r" "a = s" "b = []" "s \<noteq> []"
    using assms ends_digits [OF assms(2)]
    by (auto simp: digits1_def Let_def takeWhile_append dropWhile_append split: if_splits)
  then show ?thesis by (simp add: digits1_def)
next
  case False
  then show ?thesis using assms by (auto simp: digits1_def Let_def takeWhile_append dropWhile_append split: if_splits)
qed

lemma expect_append: "expect c s = Some t \<Longrightarrow> expect c (s @ r) = Some (t @ r)"
  by (cases s) (auto split: if_splits)

lemma expect_append_None: "expect c s = None \<Longrightarrow> ends r \<Longrightarrow> number_char c \<Longrightarrow> expect c (s @ r) = None"
  by (cases s; cases r) (auto simp: ends_def split: if_splits)

lemma number_chars [simp]:
  "number_char CHR ''0''" "number_char CHR ''.''"
  "c \<in> set ''eE'' \<Longrightarrow> number_char c" "c \<in> set ''+-'' \<Longrightarrow> number_char c" "c \<in> set ''-'' \<Longrightarrow> number_char c"
  by (auto simp: number_char_def is_digit_def)

lemma sign_part_append:
  assumes "sign_part cs s = (a, b)" and "ends r" and "\<And>c. c \<in> set cs \<Longrightarrow> number_char c"
  shows "sign_part cs (s @ r) = (a, b @ r)"
  using assms by (cases s; cases r) (auto simp: sign_part_def ends_def split: if_splits)

lemma int_part_append: "int_part s = Some (a, b) \<Longrightarrow> ends r \<Longrightarrow> int_part (s @ r) = Some (a, b @ r)"
  by (auto simp: int_part_def digits1_append expect_append expect_append_None split: option.splits)

lemma frac_part_append: "frac_part s = Some (a, b) \<Longrightarrow> ends r \<Longrightarrow> frac_part (s @ r) = Some (a, b @ r)"
  by (auto simp: frac_part_def digits1_append expect_append expect_append_None split: option.splits)

lemma exp_part_append:
  assumes "exp_part s = Some (a, b)" and "ends r"
  shows "exp_part (s @ r) = Some (a, b @ r)"
proof -
  obtain e s1 where e: "sign_part ''eE'' s = (e, s1)" by force
  obtain sg s2 where sg: "sign_part ''+-'' s1 = (sg, s2)" by force
  have "sign_part ''eE'' (s @ r) = (e, s1 @ r)" "sign_part ''+-'' (s1 @ r) = (sg, s2 @ r)"
    using sign_part_append [OF e assms(2)] sign_part_append [OF sg assms(2)] number_chars by blast+
  with assms e sg show ?thesis by (auto simp: exp_part_def digits1_append)
qed

lemma take_number_append:
  assumes "take_number s = Some (a, b)" and "ends r"
  shows "take_number (s @ r) = Some (a, b @ r)"
proof -
  obtain sg s1 where sg: "sign_part ''-'' s = (sg, s1)" by force
  then have "sign_part ''-'' (s @ r) = (sg, s1 @ r)"
    using sign_part_append [OF sg assms(2)] number_chars by blast
  with assms sg show ?thesis
    by (auto simp: take_number_def int_part_append frac_part_append exp_part_append split: bind_splits)
qed

lemma take_number_head:
  assumes "take_number (c # s) = Some p"
  shows "c = CHR ''-'' \<or> is_digit c"
proof (rule ccontr)
  assume c: "\<not> (c = CHR ''-'' \<or> is_digit c)"
  then have "c \<noteq> CHR ''0''" by (auto simp: is_digit_def)
  with c have "sign_part ''-'' (c # s) = ([], c # s)" "int_part (c # s) = None"
    by (simp_all add: sign_part_def int_part_def digits1_def)
  with assms show False by (simp add: take_number_def)
qed


lemma show_nat_digits: "list_all is_digit (show_nat n)" and show_nat_nonempty: "show_nat n \<noteq> []"
  by (induction n rule: show_nat.induct) (subst show_nat.simps, simp)+

lemma show_nat_head: "0 < n \<Longrightarrow> \<exists>d ds. show_nat n = digit d # ds \<and> 0 < d \<and> d < 10"
proof (induction n rule: show_nat.induct)
  case (1 n)
  show ?case
  proof (cases "n < 10")
    case True
    then have "show_nat n = [digit n]" by (simp add: show_nat.simps)
    with True 1(2) show ?thesis by blast
  next
    case False
    then have "0 < n div 10" by simp
    with 1(1)[OF False] obtain d ds where "show_nat (n div 10) = digit d # ds" "0 < d" "d < 10" by blast
    with False show ?thesis by (subst show_nat.simps) auto
  qed
qed

lemma digit_zero: "d < 10 \<Longrightarrow> digit d = CHR ''0'' \<longleftrightarrow> d = 0"
proof
  assume "d < 10" "digit d = CHR ''0''"
  then show "d = 0" using of_char_digit [of d] by simp
qed (simp add: digit_def char_of_def bit_0)

lemma int_part_show_nat: "int_part (show_nat n) = Some (show_nat n, [])"
proof (cases "n = 0")
  case True
  then have "show_nat n = ''0''" by (simp add: show_nat.simps digit_def char_of_def bit_0)
  then show ?thesis by (simp add: int_part_def)
next
  case False
  then obtain d ds where "show_nat n = digit d # ds" "0 < d" "d < 10" using show_nat_head by blast
  moreover have "CHR ''0'' \<noteq> digit d"
  proof
    assume "CHR ''0'' = digit d"
    then have "digit d = CHR ''0''" by (rule sym)
    with digit_zero [of d] \<open>0 < d\<close> \<open>d < 10\<close> show False by simp
  qed
  ultimately have "expect CHR ''0'' (show_nat n) = None" by simp
  moreover have "\<forall>c \<in> set (show_nat n). is_digit c" using show_nat_digits by (simp add: list_all_iff)
  ultimately show ?thesis
    by (simp add: int_part_def digits1_def Let_def show_nat_nonempty takeWhile_eq_all_conv [THEN iffD2])
qed

lemma number_ok_show_int: "number_ok (show_int i)"
proof -
  have no_sign: "sign_part ''-'' (show_nat n) = ([], show_nat n)" for n
  proof (cases "show_nat n")
    case (Cons c s)
    then have "is_digit c" using show_nat_digits [of n] by simp
    then have "c \<noteq> CHR ''-''" by (auto simp: is_digit_def)
    then show ?thesis using Cons by (simp add: sign_part_def)
  qed (simp add: show_nat_nonempty)
  have "frac_part [] = Some ([], [])" "exp_part [] = Some ([], [])"
    by (simp_all add: frac_part_def exp_part_def sign_part_def)
  moreover have "sign_part ''-'' (show_int i) = (if i < 0 then ''-'' else [], show_nat (nat \<bar>i\<bar>))"
    using no_sign by (simp add: show_int_def sign_part_def)
  ultimately show ?thesis by (simp add: number_ok_def take_number_def int_part_show_nat show_int_def)
qed

subsection \<open>Values\<close>

text \<open>
  The values that survive: texts in UTF-8, well-formed number literals, and a nesting
  the parser accepts.
\<close>

function json_ok :: "nat \<Rightarrow> json \<Rightarrow> bool" where
  "json_ok k JNull \<longleftrightarrow> True"
| "json_ok k (JBool b) \<longleftrightarrow> True"
| "json_ok k (JNumber n) \<longleftrightarrow> number_ok n"
| "json_ok k (JString s) \<longleftrightarrow> (case unquote s of None \<Rightarrow> False | Some t \<Rightarrow> utf8_valid t \<and> s = encode_chars t)"
| "json_ok k (JArray xs) \<longleftrightarrow> 0 < k \<and> (\<forall>x \<in> set xs. json_ok (k - 1) x)"
| "json_ok k (JObject ms) \<longleftrightarrow> 0 < k \<and> (\<forall>kv \<in> set ms. utf8_valid (fst kv) \<and> json_ok (k - 1) (snd kv))"
  by pat_completeness auto
termination
  by (relation "measure (\<lambda>(k, j). size j)") (auto dest: size_member size_element)

lemma json_ok_scalars [simp]:
  "json_ok k (JInt i)"
  "utf8_valid s \<Longrightarrow> json_ok k (JText s)"
  by (auto simp: JText_def JInt_def number_ok_show_int)

text \<open>Layout is white space, and white space is skipped.\<close>

lemma skip_new_line [simp]: "skip_space (new_line l @ s) = skip_space s"
proof (cases l)
  case (Some d)
  have "dropWhile json_space (replicate n CHR '' '' @ s) = dropWhile json_space s" for n
    by (induction n) (simp_all add: json_space_def)
  with Some show ?thesis by (simp add: new_line_def skip_space_def json_space_def)
qed (simp add: new_line_def)

lemma token_new_line [simp]: "token c (new_line l @ s) = token c s"
  by (simp add: token_def)

lemma value_at_new_line [simp]: "value_at k (new_line l @ s) = value_at k s"
  by (subst (1 2) value_at_unfold) simp

lemma skip_solid: "\<not> json_space c \<Longrightarrow> skip_space (c # s) = c # s"
  by (simp add: skip_space_def)

lemma token_solid: "\<not> json_space d \<Longrightarrow> token c (d # s) = (if c = d then Some s else None)"
  by (simp add: token_def skip_solid)

lemma solid [simp]:
  "\<not> json_space quotation" "\<not> json_space CHR '',''" "\<not> json_space CHR '':''" "\<not> json_space CHR ''[''"
  "\<not> json_space CHR '']''" "\<not> json_space CHR ''{''" "\<not> json_space CHR ''}''" "\<not> json_space CHR ''n''"
  "\<not> json_space CHR ''t''" "\<not> json_space CHR ''f''" "\<not> json_space CHR ''-''" "is_digit c \<Longrightarrow> \<not> json_space c"
  by (auto simp: json_space_def is_digit_def)

lemma ends_new_line [simp]:
  "ends (new_line l @ CHR ''}'' # r)" "ends (new_line l @ CHR '']'' # r)" "ends (CHR '','' # r)" "ends []"
  by (auto simp: ends_def new_line_def number_char_def is_digit_def char_of_def split: option.splits)

lemma value_at_number:
  assumes "number_ok n" and "ends r"
  shows "value_at k (n @ r) = Some (JNumber n, r)"
proof -
  have t: "take_number (n @ r) = Some (n, r)" using assms take_number_append by (fastforce simp: number_ok_def)
  obtain c s where n: "n = c # s"
    using assms(1) by (cases n) (auto simp: number_ok_def take_number_def sign_part_def int_part_def digits1_def)
  have c: "c = CHR ''-'' \<or> is_digit c" using t take_number_head n by simp
  then have "skip_space (n @ r) = c # s @ r" using n by (auto simp: skip_solid)
  moreover have "c \<noteq> quotation" "c \<noteq> CHR ''[''" "c \<noteq> CHR ''{''" "c \<noteq> CHR ''n''" "c \<noteq> CHR ''t''" "c \<noteq> CHR ''f''"
    using c by (auto simp: is_digit_def)
  ultimately show ?thesis using t n
    by (subst value_at_unfold) (simp add: take_literal_def literal_null_def literal_true_def literal_false_def)
qed


lemma value_at_string:
  "utf8_valid t \<Longrightarrow> value_at k (quotation # encode_chars t @ quotation # r) = Some (JString (encode_chars t), r)"
  by (subst value_at_unfold) (simp add: take_string_def skip_solid decode_encode_chars)

lemma member_name: "utf8_valid s \<Longrightarrow> Option.bind (token quotation (encode_string s @ r)) decode_chars = Some (s, r)"
  by (simp add: encode_string_def token_solid decode_encode_chars)

lemma token_colon: "Option.bind (token CHR '':'' (colon l @ s)) (value_at k) = value_at k s"
proof (cases l)
  case (Some d)
  have "skip_space (CHR '' '' # s) = skip_space s" by (simp add: skip_space_def json_space_def)
  then have "value_at k (CHR '' '' # s) = value_at k s" by (subst (1 2) value_at_unfold) simp
  with Some show ?thesis by (simp add: colon_def token_solid)
qed (simp add: colon_def token_solid)

text \<open>The opening of a list is not its end.\<close>

lemma value_not_close: "value_at k s \<noteq> None \<Longrightarrow> token CHR '']'' s = None"
proof (rule ccontr)
  assume v: "value_at k s \<noteq> None" and t: "token CHR '']'' s \<noteq> None"
  then obtain r where "skip_space s = CHR '']'' # r"
    by (cases "skip_space s") (auto simp: token_def split: if_splits)
  moreover have "take_number (CHR '']'' # r) = None"
    using take_number_head [of "CHR '']''" r] by (cases "take_number (CHR '']'' # r)") (auto simp: is_digit_def)
  ultimately have "value_at k s = None"
    by (subst value_at_unfold) (simp add: take_literal_def literal_null_def literal_true_def literal_false_def)
  with v show False by simp
qed

lemma name_not_close: "token quotation s \<noteq> None \<Longrightarrow> token CHR ''}'' s = None"
  by (cases "skip_space s") (auto simp: token_def)

lemma members_not_close: "members_at k s \<noteq> None \<Longrightarrow> token CHR ''}'' s = None"
  by (rule name_not_close, cases "token quotation s") (simp_all add: members_at_unfold [of k s])

lemma elements_round_trip:
  assumes "\<And>x r. x \<in> set xs \<Longrightarrow> ends r \<Longrightarrow> value_at k (p x @ r) = Some (x, r)" and "xs \<noteq> []"
  shows "elements_at k (commas (map (\<lambda>x. new_line l' @ p x) xs) @ new_line l @ CHR '']'' # r) = Some (xs, r)"
  using assms
proof (induction "map p xs" arbitrary: xs rule: commas.induct)
  case (2 t)
  then obtain x where "xs = [x]" by auto
  with 2 show ?case by (subst elements_at_unfold) (simp add: token_solid)
next
  case (3 t u ts)
  then obtain x y zs where xs: "xs = x # y # zs" by (auto simp: map_eq_Cons_conv Cons_eq_map_conv)
  with 3(1)[of "y # zs"] 3(2-) show ?case by (subst elements_at_unfold) (simp add: token_solid)
qed simp

lemma members_round_trip:
  assumes "\<And>kv r. kv \<in> set ms \<Longrightarrow> ends r \<Longrightarrow> value_at k (p (snd kv) @ r) = Some (snd kv, r)"
    and "\<And>kv. kv \<in> set ms \<Longrightarrow> utf8_valid (fst kv)" and "ms \<noteq> []"
  shows "members_at k (commas (map (\<lambda>kv. new_line l' @ encode_string (fst kv) @ colon c @ p (snd kv)) ms)
                       @ new_line l @ CHR ''}'' # r) = Some (ms, r)"
  using assms
proof (induction "map p (map snd ms)" arbitrary: ms rule: commas.induct)
  case (2 t)
  then obtain kv where "ms = [kv]" by auto
  with 2 show ?case by (subst members_at_unfold) (simp add: token_solid member_name token_colon)
next
  case (3 t u ts)
  then obtain x y zs where xs: "ms = x # y # zs" by (auto simp: map_eq_Cons_conv Cons_eq_map_conv)
  with 3(1)[of "y # zs"] 3(2-) show ?case
    by (subst members_at_unfold) (simp add: token_solid member_name token_colon)
qed simp


lemma value_at_literal:
  "value_at k (literal_null @ r) = Some (JNull, r)"
  "value_at k ((if b then literal_true else literal_false) @ r) = Some (JBool b, r)"
  by (subst value_at_unfold,
      simp add: literal_null_def literal_true_def literal_false_def skip_solid take_literal_def)+

theorem value_round_trip: "json_ok k j \<Longrightarrow> ends r \<Longrightarrow> value_at k (print_json l j @ r) = Some (j, r)"
proof (induction l j arbitrary: k r rule: print_json.induct)
  case (5 l xs)
  let ?t = "commas (map (\<lambda>x. new_line (deeper l) @ print_json (deeper l) x) xs) @ new_line l @ CHR '']'' # r"
  show ?case
  proof (cases "xs = []")
    case True
    with 5 show ?thesis by (subst value_at_unfold) (simp add: skip_solid token_solid)
  next
    case False
    with 5 have e: "elements_at (k - 1) ?t = Some (xs, r)" by (intro elements_round_trip) auto
    then have "token CHR '']'' ?t = None"
      by (subst (asm) elements_at_unfold) (rule value_not_close [of "k - 1"], auto split: option.splits)
    with False 5(2) e show ?thesis by (subst value_at_unfold) (simp add: skip_solid)
  qed
next
  case (6 l ms)
  let ?t = "commas (map (\<lambda>kv. new_line (deeper l) @ encode_string (fst kv) @ colon l @ print_json (deeper l) (snd kv)) ms)
            @ new_line l @ CHR ''}'' # r"
  show ?case
  proof (cases "ms = []")
    case True
    with 6 show ?thesis by (subst value_at_unfold) (simp add: skip_solid token_solid)
  next
    case False
    with 6 have e: "members_at (k - 1) ?t = Some (ms, r)" by (intro members_round_trip) auto
    then have "token CHR ''}'' ?t = None" by (intro members_not_close [of "k - 1"]) simp
    with False 6(2) e show ?thesis by (subst value_at_unfold) (simp add: skip_solid)
  qed
qed (auto simp: value_at_literal value_at_number value_at_string split: option.splits)

theorem parse_print: "json_ok maxNestingDepth j \<Longrightarrow> parse_json (print_json l j) = Some j"
  using value_round_trip [of maxNestingDepth j "[]" l]
  by (simp add: parse_json_def value_at_def skip_space_def)

lemma parse_print_line: "json_ok maxNestingDepth j \<Longrightarrow> parse_json (print_json l j @ [CHR 0x0A]) = Some j"
  using value_round_trip [of maxNestingDepth j "[CHR 0x0A]" l]
  by (simp add: parse_json_def value_at_def skip_space_def json_space_def ends_def number_char_def is_digit_def)

end
