(* ===== verification/Struct_Json.thy ===== *)
theory Struct_Json
  imports Json "HOL-Library.List_Lexorder" "HOL-Library.Char_ord"
begin

text \<open>
  How \<open>encoding/json\<close> writes and reads a struct: a table with one entry per field, with
  the name and the options of its tag and the access to the field. The locale
  \<open>struct_wire\<close> is the contract between a struct that is written and one that is read:
  under its laws every field arrives.
\<close>

section \<open>Fields\<close>

text \<open>
  The kinds of field the program's structs have. The flag is the option \<open>omitempty\<close>;
  a time has the option \<open>omitzero\<close>, a number has none. \<open>'v\<close> is the type of the values
  of a map field.
\<close>

datatype ('r, 'v) field =
    StringField string bool "'r \<Rightarrow> string" "string \<Rightarrow> 'r \<Rightarrow> 'r"
  | BoolField string bool "'r \<Rightarrow> bool" "bool \<Rightarrow> 'r \<Rightarrow> 'r"
  | IntField string "'r \<Rightarrow> int" "int \<Rightarrow> 'r \<Rightarrow> 'r"
  | TimeField string "'r \<Rightarrow> Time" "Time \<Rightarrow> 'r \<Rightarrow> 'r"
  | MapField string bool "'r \<Rightarrow> (string \<rightharpoonup> 'v)" "(string \<rightharpoonup> 'v) \<Rightarrow> 'r \<Rightarrow> 'r"

fun field_name :: "('r, 'v) field \<Rightarrow> string" where
  "field_name (StringField n om g s) = n"
| "field_name (BoolField n om g s) = n"
| "field_name (IntField n g s) = n"
| "field_name (TimeField n g s) = n"
| "field_name (MapField n om g s) = n"

section \<open>Writing\<close>

fun traverse :: "('a \<Rightarrow> 'b result) \<Rightarrow> 'a list \<Rightarrow> 'b list result" where
  "traverse f [] = Inr []"
| "traverse f (x # xs) =
     (case f x of Inl e \<Rightarrow> Inl e | Inr y \<Rightarrow> (case traverse f xs of Inl e \<Rightarrow> Inl e | Inr ys \<Rightarrow> Inr (y # ys)))"

text \<open>A map is written in the order of its keys.\<close>

definition map_json :: "('v \<Rightarrow> json result) \<Rightarrow> (string \<rightharpoonup> 'v) \<Rightarrow> json result" where
  "map_json ev m =
     (case traverse (\<lambda>k. map_sum id (Pair k) (ev (the (m k)))) (sorted_list_of_set (dom m)) of
        Inl e \<Rightarrow> Inl e
      | Inr ms \<Rightarrow> Inr (JObject ms))"

text \<open>The offset of the location of a time is not part of its value; \<open>z\<close> gives it, in minutes.\<close>

definition time_json :: "(Time \<Rightarrow> int) \<Rightarrow> Time \<Rightarrow> json result" where
  "time_json z t =
     map_sum (wrap ''json: error calling MarshalJSON for type time.Time: '') JString (marshal_time (z t) t)"

fun emit_field :: "(Time \<Rightarrow> int) \<Rightarrow> ('v \<Rightarrow> json result) \<Rightarrow> 'r \<Rightarrow> ('r, 'v) field \<Rightarrow> json option result" where
  "emit_field z ev r (StringField n om g s) = Inr (if om \<and> g r = [] then None else Some (JText (g r)))"
| "emit_field z ev r (BoolField n om g s) = Inr (if om \<and> \<not> g r then None else Some (JBool (g r)))"
| "emit_field z ev r (IntField n g s) = Inr (Some (JInt (g r)))"
| "emit_field z ev r (TimeField n g s) =
     (if IsZero (g r) then Inr None else map_sum id Some (time_json z (g r)))"
| "emit_field z ev r (MapField n om g s) =
     (if om \<and> g r = Map.empty then Inr None else map_sum id Some (map_json ev (g r)))"

fun emit_fields ::
  "(Time \<Rightarrow> int) \<Rightarrow> ('v \<Rightarrow> json result) \<Rightarrow> 'r \<Rightarrow> ('r, 'v) field list \<Rightarrow> (string \<times> json) list result" where
  "emit_fields z ev r [] = Inr []"
| "emit_fields z ev r (f # fs) =
     (case emit_field z ev r f of
        Inl e \<Rightarrow> Inl e
      | Inr x \<Rightarrow>
          (case emit_fields z ev r fs of
             Inl e \<Rightarrow> Inl e
           | Inr ms \<Rightarrow> Inr (case x of None \<Rightarrow> ms | Some j \<Rightarrow> (field_name f, j) # ms)))"

definition struct_json :: "(Time \<Rightarrow> int) \<Rightarrow> ('v \<Rightarrow> json result) \<Rightarrow> ('r, 'v) field list \<Rightarrow> 'r \<Rightarrow> json result" where
  "struct_json z ev fs r = map_sum id JObject (emit_fields z ev r fs)"

section \<open>Reading\<close>

text \<open>
  \<open>foldName\<close>: ASCII letters in upper case; of the other runes only the long s and the
  Kelvin sign fold to a letter.
\<close>

fun fold_name :: "string \<Rightarrow> string" where
  "fold_name [] = []"
| "fold_name (c # s) =
     (if take 2 (c # s) = [CHR 0xC5, CHR 0xBF] then CHR ''S'' # fold_name (drop 1 s)
      else if take 3 (c # s) = [CHR 0xE2, CHR 0x84, CHR 0xAA] then CHR ''K'' # fold_name (drop 2 s)
      else (if 97 \<le> byte c \<and> byte c \<le> 122 then char_of (byte c - 32) else c) # fold_name s)"

definition find_field :: "('r, 'v) field list \<Rightarrow> string \<Rightarrow> ('r, 'v) field option" where
  "find_field fs k =
     (case find (\<lambda>f. field_name f = k) fs of
        Some f \<Rightarrow> Some f
      | None \<Rightarrow> find (\<lambda>f. fold_name (field_name f) = fold_name k) fs)"

fun read_map :: "(json \<Rightarrow> 'v option) \<Rightarrow> (string \<times> json) list \<Rightarrow> (string \<rightharpoonup> 'v) \<Rightarrow> (string \<rightharpoonup> 'v) option" where
  "read_map rv [] m = Some m"
| "read_map rv ((k, j) # ms) m =
     (case rv j of None \<Rightarrow> None | Some v \<Rightarrow> read_map rv ms (m(k \<mapsto> v)))"

text \<open>
  \<open>null\<close> leaves a scalar as it is and sets a map to nil; a value of another type is an
  error. A time is read from its literal without resolving escapes.
\<close>

fun read_field :: "(json \<Rightarrow> 'v option) \<Rightarrow> ('r, 'v) field \<Rightarrow> json \<Rightarrow> 'r \<Rightarrow> 'r option" where
  "read_field rv (StringField n om g s) j r =
     (case j of JNull \<Rightarrow> Some r | JString raw \<Rightarrow> map_option (\<lambda>t. s t r) (unquote raw) | _ \<Rightarrow> None)"
| "read_field rv (BoolField n om g s) j r = (case j of JNull \<Rightarrow> Some r | JBool b \<Rightarrow> Some (s b r) | _ \<Rightarrow> None)"
| "read_field rv (IntField n g s) j r =
     (case j of JNull \<Rightarrow> Some r | JNumber t \<Rightarrow> map_option (\<lambda>i. s i r) (Atoi t) | _ \<Rightarrow> None)"
| "read_field rv (TimeField n g s) j r =
     (case j of JNull \<Rightarrow> Some r | JString raw \<Rightarrow> map_option (\<lambda>t. s t r) (parse_RFC3339 raw) | _ \<Rightarrow> None)"
| "read_field rv (MapField n om g s) j r =
     (case j of
        JNull \<Rightarrow> Some (s Map.empty r)
      | JObject ms \<Rightarrow> map_option (\<lambda>m. s m r) (read_map rv ms (g r))
      | _ \<Rightarrow> None)"

text \<open>Members in the order of the text; a name no field has is skipped, a later one wins.\<close>

fun read_fields ::
  "(json \<Rightarrow> 'v option) \<Rightarrow> ('r, 'v) field list \<Rightarrow> (string \<times> json) list \<Rightarrow> 'r \<Rightarrow> 'r option" where
  "read_fields rv fs [] r = Some r"
| "read_fields rv fs ((k, j) # ms) r =
     (case find_field fs k of
        None \<Rightarrow> read_fields rv fs ms r
      | Some f \<Rightarrow> Option.bind (read_field rv f j r) (read_fields rv fs ms))"

definition read_struct ::
  "(json \<Rightarrow> 'v option) \<Rightarrow> ('r, 'v) field list \<Rightarrow> 'r \<Rightarrow> json \<Rightarrow> 'r option" where
  "read_struct rv fs zero j =
     (case j of JNull \<Rightarrow> Some zero | JObject ms \<Rightarrow> read_fields rv fs ms zero | _ \<Rightarrow> None)"

definition read_string :: "json \<Rightarrow> string option" where
  "read_string j = (case j of JNull \<Rightarrow> Some [] | JString raw \<Rightarrow> unquote raw | _ \<Rightarrow> None)"


section \<open>From a writer to a reader\<close>

text \<open>The reader's field set to what the writer's field holds; \<open>conv\<close> converts the map values.\<close>

fun copy :: "('v \<Rightarrow> 'w) \<Rightarrow> ('r, 'v) field \<times> ('q, 'w) field \<Rightarrow> 'r \<Rightarrow> 'q \<Rightarrow> 'q" where
  "copy conv (StringField _ _ g _, StringField _ _ _ s) r q = s (g r) q"
| "copy conv (BoolField _ _ g _, BoolField _ _ _ s) r q = s (g r) q"
| "copy conv (IntField _ g _, IntField _ _ s) r q = s (g r) q"
| "copy conv (TimeField _ g _, TimeField _ _ s) r q = s (g r) q"
| "copy conv (MapField _ _ g _, MapField _ _ _ s) r q = s (map_option conv \<circ> g r) q"
| "copy conv p r q = q"

fun same_kind :: "('r, 'v) field \<times> ('q, 'w) field \<Rightarrow> bool" where
  "same_kind (StringField n _ _ _, StringField n' _ _ _) \<longleftrightarrow> n = n'"
| "same_kind (BoolField n _ _ _, BoolField n' _ _ _) \<longleftrightarrow> n = n'"
| "same_kind (IntField n _ _, IntField n' _ _) \<longleftrightarrow> n = n'"
| "same_kind (TimeField n _ _, TimeField n' _ _) \<longleftrightarrow> n = n'"
| "same_kind (MapField n _ _ _, MapField n' _ _ _) \<longleftrightarrow> n = n'"
| "same_kind _ \<longleftrightarrow> False"

fun is_zero :: "('q, 'w) field \<Rightarrow> 'q \<Rightarrow> bool" where
  "is_zero (StringField _ _ g _) q \<longleftrightarrow> g q = []"
| "is_zero (BoolField _ _ g _) q \<longleftrightarrow> \<not> g q"
| "is_zero (IntField _ g _) q \<longleftrightarrow> g q = 0"
| "is_zero (TimeField _ g _) q \<longleftrightarrow> g q = 0"
| "is_zero (MapField _ _ g _) q \<longleftrightarrow> g q = Map.empty"

fun clear :: "('q, 'w) field \<Rightarrow> 'q \<Rightarrow> 'q" where
  "clear (StringField _ _ _ s) q = s [] q"
| "clear (BoolField _ _ _ s) q = s False q"
| "clear (IntField _ _ s) q = s 0 q"
| "clear (TimeField _ _ s) q = s 0 q"
| "clear (MapField _ _ _ s) q = s Map.empty q"

text \<open>The values that the text carries: UTF-8, 64 bits, finite maps.\<close>

fun carried :: "('v \<Rightarrow> bool) \<Rightarrow> 'r \<Rightarrow> ('r, 'v) field \<Rightarrow> bool" where
  "carried okv r (StringField _ _ g _) \<longleftrightarrow> utf8_valid (g r)"
| "carried okv r (BoolField _ _ g _) \<longleftrightarrow> True"
| "carried okv r (IntField _ g _) \<longleftrightarrow> - (2 ^ 63) \<le> g r \<and> g r < 2 ^ 63"
| "carried okv r (TimeField _ g _) \<longleftrightarrow> True"
| "carried okv r (MapField _ _ g _) \<longleftrightarrow>
     finite (dom (g r)) \<and> (\<forall>k \<in> dom (g r). utf8_valid k \<and> okv (the (g r k)))"

lemma map_sum_Inr [simp]: "map_sum f g x = Inr y \<longleftrightarrow> (\<exists>a. x = Inr a \<and> y = g a)"
  by (cases x) auto

lemma same_kind_name: "same_kind (f, f') \<Longrightarrow> field_name f' = field_name f"
  by (cases f; cases f') auto

lemma traverse_Inr:
  "traverse f xs = Inr ys \<Longrightarrow> length ys = length xs \<and> (\<forall>i < length xs. f (xs ! i) = Inr (ys ! i))"
  by (induction xs arbitrary: ys) (auto split: sum.splits simp: less_Suc_eq_0_disj)

lemma traverse_Inr_list: "traverse f xs = Inr ys \<Longrightarrow> list_all2 (\<lambda>x y. f x = Inr y) xs ys"
  by (simp add: list_all2_conv_all_nth traverse_Inr)

lemma foldl_show_nat: "foldl (\<lambda>a c. 10 * a + digit_val c) 0 (show_nat n) = int n"
proof (induction n rule: show_nat.induct)
  case (1 n)
  then show ?case by (subst show_nat.simps) (simp add: zdiv_int zmod_int)
qed

lemma Atoi_show_int:
  assumes "- (2 ^ 63) \<le> i" and "i < 2 ^ 63"
  shows "Atoi (show_int i) = Some i"
proof (cases "i < 0")
  case True
  then show ?thesis
    using assms show_nat_digits foldl_show_nat by (simp add: Atoi_def show_int_def show_nat_nonempty)
next
  case False
  obtain c s where n: "show_nat (nat i) = c # s" using show_nat_nonempty by (cases "show_nat (nat i)") auto
  then have "is_digit c" using show_nat_digits [of "nat i"] by simp
  then have "c \<noteq> CHR ''-''" "c \<noteq> CHR ''+''" by (auto simp: is_digit_def)
  then show ?thesis
    using False assms n show_nat_digits [of "nat i"] foldl_show_nat [of "nat i"]
    by (simp add: Atoi_def show_int_def del: foldl_Cons)
qed

text \<open>The members of a written map, read into an empty one.\<close>

lemma read_map_fold:
  assumes "list_all2 (\<lambda>k kj. map_sum id (Pair k) (ev (the (m k))) = Inr kj) ks ms"
    and "\<And>k j. k \<in> set ks \<Longrightarrow> ev (the (m k)) = Inr j \<Longrightarrow> rv j = Some (conv (the (m k)))"
  shows "read_map rv ms a = Some (\<lambda>k. if k \<in> set ks then Some (conv (the (m k))) else a k)"
  using assms
proof (induction arbitrary: a rule: list_all2_induct)
  case (Cons k ks kj ms)
  then obtain j where j: "ev (the (m k)) = Inr j" "kj = (k, j)" by (cases "ev (the (m k))") auto
  with Cons.prems have "rv j = Some (conv (the (m k)))" by simp
  moreover have "read_map rv ms (a(k \<mapsto> conv (the (m k)))) =
      Some (\<lambda>l. if l \<in> set ks then Some (conv (the (m l))) else (a(k \<mapsto> conv (the (m k)))) l)"
    using Cons.prems by (intro Cons.IH) simp
  ultimately show ?case using j by (auto simp: fun_eq_iff)
qed simp

lemma read_map_json:
  assumes "map_json ev m = Inr j" and "finite (dom m)"
    and "\<And>k v j. m k = Some v \<Longrightarrow> ev v = Inr j \<Longrightarrow> rv j = Some (conv v)"
  obtains ms where "j = JObject ms" and "read_map rv ms Map.empty = Some (map_option conv \<circ> m)"
proof -
  from assms(1) obtain ms where j: "j = JObject ms"
    and "traverse (\<lambda>k. map_sum id (Pair k) (ev (the (m k)))) (sorted_list_of_set (dom m)) = Inr ms"
    by (auto simp: map_json_def split: sum.splits)
  then have all: "list_all2 (\<lambda>k kj. map_sum id (Pair k) (ev (the (m k))) = Inr kj) (sorted_list_of_set (dom m)) ms"
    by (rule_tac traverse_Inr_list)
  have "rv j = Some (conv (the (m k)))" if "k \<in> set (sorted_list_of_set (dom m))" "ev (the (m k)) = Inr j" for k j
    using assms(2) that assms(3) by auto
  then have "read_map rv ms Map.empty =
      Some (\<lambda>k. if k \<in> set (sorted_list_of_set (dom m)) then Some (conv (the (m k))) else Map.empty k)"
    by (rule read_map_fold [where ev = ev, OF all])
  also have "set (sorted_list_of_set (dom m)) = dom m" using assms(2) by simp
  also have "(\<lambda>k. if k \<in> dom m then Some (conv (the (m k))) else Map.empty k) = map_option conv \<circ> m"
    by (auto simp: fun_eq_iff split: option.splits)
  finally show ?thesis using that j by blast
qed

lemma read_emitted:
  assumes "emit_field z ev r f = Inr (Some j)" and "same_kind (f, f')" and "carried okv r f" and "is_zero f' q"
    and "\<And>v j. okv v \<Longrightarrow> ev v = Inr j \<Longrightarrow> rv j = Some (conv v)"
  shows "read_field rv f' j q = Some (copy conv (f, f') r q)"
proof (cases f)
  case (TimeField n g s)
  with assms show ?thesis
    by (cases f') (auto simp: time_json_def split: if_splits sum.splits dest: parse_format)
next
  case (MapField n om g s)
  then obtain om' g' s' where f': "f' = MapField n om' g' s'" using assms(2) by (cases f') auto
  have "map_json ev (g r) = Inr j" using assms(1) MapField by (auto split: if_splits sum.splits)
  then obtain ms where "j = JObject ms" "read_map rv ms Map.empty = Some (map_option conv \<circ> g r)"
    by (rule read_map_json [where rv = rv and conv = conv]) (use assms(3,5) MapField in \<open>auto simp: Ball_def\<close>)
  then show ?thesis using assms(4) MapField f' by simp
qed (use assms in \<open>cases f'; auto simp: JText_def JInt_def Atoi_show_int split: if_splits\<close>)+

lemma omitted_zero:
  assumes "emit_field z ev r f = Inr None" and "same_kind (f, f')"
  shows "copy conv (f, f') r q = clear f' q"
  using assms by (cases f; cases f') (auto simp: IsZero_def time_json_def comp_def split: if_splits sum.splits)


section \<open>The contract\<close>

text \<open>
  \<open>pairs\<close> lists the writer's fields in its order, each with the reader's field of the
  same name and kind. Setting one field leaves the ones still to come at zero, clearing
  a zero field changes nothing, and a struct is the sum of its fields.
\<close>

locale struct_wire =
  fixes pairs :: "(('r, 'v) field \<times> ('q, 'w) field) list"
    and readers :: "('q, 'w) field list"
    and zero :: 'q
    and conv :: "'v \<Rightarrow> 'w"
    and convert :: "'r \<Rightarrow> 'q"
  assumes kinds: "list_all same_kind pairs"
    and lookup: "list_all (\<lambda>p. find_field readers (field_name (fst p)) = Some (snd p)) pairs"
    and apart: "sorted_wrt (\<lambda>p p'. \<forall>r q. is_zero (snd p') (copy conv p r q) = is_zero (snd p') q) pairs"
    and clear_zero: "list_all (\<lambda>p. \<forall>q. is_zero (snd p) q \<longrightarrow> clear (snd p) q = q) pairs"
    and zero_fields: "list_all (\<lambda>p. is_zero (snd p) zero) pairs"
    and all_copied: "fold (\<lambda>p. copy conv p r) pairs zero = convert r"
begin

definition good :: "(('r, 'v) field \<times> ('q, 'w) field) list \<Rightarrow> bool" where
  "good ps \<longleftrightarrow>
     list_all same_kind ps
     \<and> list_all (\<lambda>p. find_field readers (field_name (fst p)) = Some (snd p)) ps
     \<and> sorted_wrt (\<lambda>p p'. \<forall>r q. is_zero (snd p') (copy conv p r q) = is_zero (snd p') q) ps
     \<and> list_all (\<lambda>p. \<forall>q. is_zero (snd p) q \<longrightarrow> clear (snd p) q = q) ps"

lemma good_Cons:
  "good (p # ps) \<longleftrightarrow>
     good ps \<and> same_kind p \<and> find_field readers (field_name (fst p)) = Some (snd p)
     \<and> (\<forall>p' \<in> set ps. \<forall>r q. is_zero (snd p') (copy conv p r q) = is_zero (snd p') q)
     \<and> (\<forall>q. is_zero (snd p) q \<longrightarrow> clear (snd p) q = q)"
  by (auto simp: good_def)

lemma arrive_from:
  assumes "good ps" and "emit_fields z ev r (map fst ps) = Inr ms"
    and "list_all (carried okv r) (map fst ps)" and "list_all (\<lambda>p. is_zero (snd p) q) ps"
    and "\<And>v j. okv v \<Longrightarrow> ev v = Inr j \<Longrightarrow> rv j = Some (conv v)"
  shows "read_fields rv readers ms q = Some (fold (\<lambda>p. copy conv p r) ps q)"
  using assms(1-4)
proof (induction ps arbitrary: ms q)
  case (Cons p ps)
  obtain f f' where p: "p = (f, f')" by force
  obtain x ms' where x: "emit_field z ev r f = Inr x" and ms': "emit_fields z ev r (map fst ps) = Inr ms'"
    and ms: "ms = (case x of None \<Rightarrow> ms' | Some j \<Rightarrow> (field_name f, j) # ms')"
    using Cons.prems(2) p by (auto split: sum.splits)
  let ?q = "copy conv p r q"
  have "list_all (\<lambda>p. is_zero (snd p) ?q) ps" using Cons.prems(1,4) by (simp add: good_Cons list_all_iff)
  then have IH: "read_fields rv readers ms' ?q = Some (fold (\<lambda>p. copy conv p r) ps ?q)"
    using Cons.prems(1,3) ms' by (intro Cons.IH) (simp_all add: good_Cons)
  show ?case
  proof (cases x)
    case None
    then have "?q = clear f' q" using omitted_zero [of z ev r f f' conv q] x Cons.prems(1) p by (simp add: good_Cons)
    also have "\<dots> = q" using Cons.prems(1,4) p by (simp add: good_Cons)
    finally show ?thesis using IH ms None by simp
  next
    case (Some j)
    then have "read_field rv f' j q = Some ?q"
      unfolding p by (intro read_emitted [OF _ _ _ _ assms(5)]) (use x Cons.prems p in \<open>auto simp: good_Cons\<close>)
    then show ?thesis using IH ms Some Cons.prems(1) p by (simp add: good_Cons)
  qed
qed simp

theorem arrives:
  assumes "struct_json z ev (map fst pairs) r = Inr j" and "list_all (carried okv r) (map fst pairs)"
    and "\<And>v j. okv v \<Longrightarrow> ev v = Inr j \<Longrightarrow> rv j = Some (conv v)"
  shows "read_struct rv readers zero j = Some (convert r)"
proof -
  obtain ms where j: "j = JObject ms" and ms: "emit_fields z ev r (map fst pairs) = Inr ms"
    using assms(1) by (auto simp: struct_json_def)
  have "good pairs" unfolding good_def using kinds lookup apart clear_zero by simp
  then have "read_fields rv readers ms zero = Some (fold (\<lambda>p. copy conv p r) pairs zero)"
    by (rule arrive_from [OF _ ms assms(2) zero_fields]) (rule assms(3))
  then show ?thesis by (simp add: j read_struct_def all_copied)
qed

end

section \<open>Written structs are values the parser reads\<close>

definition plain_char :: "char \<Rightarrow> bool" where
  "plain_char c \<longleftrightarrow> encode_ascii c = [c] \<and> byte c < 0x80"

lemma plain_text: "list_all plain_char s \<Longrightarrow> encode_chars s = s \<and> utf8_valid s"
proof (induction s)
  case (Cons c s)
  then have "byte c < 0x80" "encode_ascii c = [c]" by (simp_all add: plain_char_def)
  moreover from this have "utf8_len (c # s) = 1" by (simp add: utf8_len_def)
  ultimately show ?case using Cons utf8_valid.simps [of "c # s"] by simp
qed (simp add: utf8_valid.simps)

lemma plain_chars [simp]:
  "plain_char (digit n)" "plain_char CHR ''.''" "plain_char CHR ''-''" "plain_char CHR ''+''"
  "plain_char CHR '':''" "plain_char CHR ''T''" "plain_char CHR ''Z''"
proof -
  have "byte (digit n) = 48 + n mod 10" by (rule of_char_digit)
  then have "48 \<le> byte (digit n)" "byte (digit n) \<le> 57" by simp_all
  then show "plain_char (digit n)" by (auto simp: plain_char_def encode_ascii_def)
qed (simp_all add: plain_char_def encode_ascii_def)

lemma plain_frac: "list_all plain_char w \<Longrightarrow> list_all plain_char (fmtFrac v n pr w)"
  by (induction v n pr w rule: fmtFrac.induct) (simp_all add: Let_def)

lemma plain_pads: "list_all plain_char (pad2 n)" "list_all plain_char (pad4 n)" "list_all plain_char (zone_text n)"
  by (simp_all add: pad2_def pad4_def zone_text_def)

lemma plain_time: "list_all plain_char (format_RFC3339Nano z t)"
proof -
  have "list_all plain_char (fmtFrac v n False [])" for v n by (simp add: plain_frac)
  with plain_pads plain_chars show ?thesis
    by (simp only: format_RFC3339Nano_def Let_def case_prod_beta list_all_append list.pred_inject simp_thms)
qed

lemma json_ok_plain: "list_all plain_char s \<Longrightarrow> json_ok k (JString s)"
  using plain_text [of s] unquote_encode [of s] by simp

lemma json_ok_time: "time_json z t = Inr j \<Longrightarrow> json_ok k j"
proof -
  assume "time_json z t = Inr j"
  then have "j = JString (format_RFC3339Nano (z t) t)"
    by (auto simp: time_json_def marshal_time_def Let_def split: if_splits)
  then show ?thesis by (simp only: json_ok_plain plain_time)
qed

lemma json_ok_map:
  assumes "map_json ev m = Inr j" and "finite (dom m)" and "0 < k"
    and "\<And>key. key \<in> dom m \<Longrightarrow> utf8_valid key \<and> okv (the (m key))"
    and "\<And>v j. okv v \<Longrightarrow> ev v = Inr j \<Longrightarrow> json_ok (k - 1) j"
  shows "json_ok k j"
proof -
  let ?ks = "sorted_list_of_set (dom m)"
  from assms(1) obtain ms where j: "j = JObject ms"
    and "traverse (\<lambda>k. map_sum id (Pair k) (ev (the (m k)))) ?ks = Inr ms"
    by (auto simp: map_json_def split: sum.splits)
  then have len: "length ms = length ?ks"
    and at: "\<And>i. i < length ?ks \<Longrightarrow> map_sum id (Pair (?ks ! i)) (ev (the (m (?ks ! i)))) = Inr (ms ! i)"
    using traverse_Inr by blast+
  have "utf8_valid (fst kv) \<and> json_ok (k - 1) (snd kv)" if "kv \<in> set ms" for kv
  proof -
    from that obtain i where i: "i < length ?ks" "kv = ms ! i" using len by (metis in_set_conv_nth)
    have "?ks ! i \<in> set ?ks" by (rule nth_mem) (rule i(1))
    then have dom: "?ks ! i \<in> dom m" by (simp only: set_sorted_list_of_set [OF assms(2)])
    obtain v where v: "ev (the (m (?ks ! i))) = Inr v" "kv = (?ks ! i, v)"
      using at [OF i(1)] unfolding i(2) map_sum_Inr by metis
    show ?thesis using assms(4)[OF dom] assms(5)[OF _ v(1)] v(2) by simp
  qed
  then show ?thesis using j assms(3) by simp
qed

lemma json_ok_emitted:
  assumes "emit_field z ev r f = Inr (Some j)" and "carried okv r f" and "0 < k"
    and "\<And>v j. okv v \<Longrightarrow> ev v = Inr j \<Longrightarrow> json_ok (k - 1) j"
  shows "json_ok k j"
proof (cases f)
  case (MapField n om g s)
  with assms(1) have "map_json ev (g r) = Inr j" by (auto split: if_splits)
  then show ?thesis by (rule json_ok_map [OF _ _ assms(3) _ assms(4)]) (use assms(2) MapField in auto)
qed (use assms in \<open>auto simp: json_ok_time split: if_splits\<close>)

lemma json_ok_struct:
  assumes "struct_json z ev fs r = Inr j" and "list_all (carried okv r) fs" and "1 < k"
    and "list_all (\<lambda>f. utf8_valid (field_name f)) fs"
    and "\<And>v j. okv v \<Longrightarrow> ev v = Inr j \<Longrightarrow> json_ok (k - 2) j"
  shows "json_ok k j"
proof -
  obtain ms where j: "j = JObject ms" and ms: "emit_fields z ev r fs = Inr ms"
    using assms(1) by (auto simp: struct_json_def)
  have "\<forall>kv \<in> set ms. utf8_valid (fst kv) \<and> json_ok (k - 1) (snd kv)"
    using ms assms(2,4)
  proof (induction fs arbitrary: ms)
    case (Cons f fs)
    obtain x ms' where x: "emit_field z ev r f = Inr x" "emit_fields z ev r fs = Inr ms'"
      and "ms = (case x of None \<Rightarrow> ms' | Some j \<Rightarrow> (field_name f, j) # ms')"
      using Cons.prems(1) by (auto split: sum.splits)
    moreover have "json_ok (k - 1) j" if "x = Some j" for j
      using json_ok_emitted [of z ev r f j okv "k - 1"] x that Cons.prems assms(3,5)
      by (simp add: numeral_2_eq_2)
    ultimately show ?case using Cons by (auto split: option.splits)
  qed simp
  then show ?thesis using j assms(3) by simp
qed

end
