(* ===== verification/State_Json.thy ===== *)
theory State_Json
  imports State_Schema Struct_Json
begin

text \<open>
  The JSON of the document: the struct tags of \<open>internal/state/schema.go\<close> and of the wire
  types \<open>internal/api/types.go\<close>, the codec of the state file, and what survives it.
\<close>

section \<open>The tags of schema.go\<close>

definition container_fields :: "(Container, string) field list" where
  "container_fields =
     [StringField ''service'' False Service (\<lambda>v c. c\<lparr>Service := v\<rparr>),
      StringField ''image'' True ImageRepo (\<lambda>v c. c\<lparr>ImageRepo := v\<rparr>),
      StringField ''tag'' True Tag (\<lambda>v c. c\<lparr>Tag := v\<rparr>),
      StringField ''current_digest'' True CurrentDigest (\<lambda>v c. c\<lparr>CurrentDigest := v\<rparr>),
      StringField ''previous_digest'' True PreviousDigest (\<lambda>v c. c\<lparr>PreviousDigest := v\<rparr>),
      BoolField ''update_available'' False UpdateAvailable (\<lambda>v c. c\<lparr>UpdateAvailable := v\<rparr>),
      StringField ''container_id'' True ContainerID (\<lambda>v c. c\<lparr>ContainerID := v\<rparr>),
      MapField ''labels'' True Labels (\<lambda>v c. c\<lparr>Labels := v\<rparr>),
      BoolField ''pinned'' True Pinned (\<lambda>v c. c\<lparr>Pinned := v\<rparr>),
      BoolField ''stopped'' True Stopped (\<lambda>v c. c\<lparr>Stopped := v\<rparr>),
      StringField ''available_digest'' True AvailableDigest (\<lambda>v c. c\<lparr>AvailableDigest := v\<rparr>),
      TimeField ''current_digest_at'' CurrentDigestAt (\<lambda>v c. c\<lparr>CurrentDigestAt := v\<rparr>),
      TimeField ''previous_digest_at'' PreviousDigestAt (\<lambda>v c. c\<lparr>PreviousDigestAt := v\<rparr>),
      TimeField ''previous_digest_built_at'' PreviousDigestBuiltAt (\<lambda>v c. c\<lparr>PreviousDigestBuiltAt := v\<rparr>),
      TimeField ''available_digest_at'' AvailableDigestAt (\<lambda>v c. c\<lparr>AvailableDigestAt := v\<rparr>),
      TimeField ''last_polled_at'' LastPolledAt (\<lambda>v c. c\<lparr>LastPolledAt := v\<rparr>),
      StringField ''notes'' True Notes (\<lambda>v c. c\<lparr>Notes := v\<rparr>),
      StringField ''action_in_flight'' True ActionInFlight (\<lambda>v c. c\<lparr>ActionInFlight := v\<rparr>),
      StringField ''action_error'' True ActionError (\<lambda>v c. c\<lparr>ActionError := v\<rparr>)]"

definition state_fields :: "(AppState, Container) field list" where
  "state_fields =
     [IntField ''version'' Version (\<lambda>v s. s\<lparr>Version := v\<rparr>),
      MapField ''containers'' False Containers (\<lambda>v s. s\<lparr>Containers := v\<rparr>),
      TimeField ''last_poll_start'' LastPollStart (\<lambda>v s. s\<lparr>LastPollStart := v\<rparr>),
      TimeField ''last_poll_end'' LastPollEnd (\<lambda>v s. s\<lparr>LastPollEnd := v\<rparr>),
      StringField ''last_poll_error'' True LastPollError (\<lambda>v s. s\<lparr>LastPollError := v\<rparr>)]"

definition zero_state :: AppState where
  "zero_state =
     \<lparr>Version = 0, Containers = Map.empty, LastPollStart = 0, LastPollEnd = 0, LastPollError = ''''\<rparr>"

definition container_json :: "(Time \<Rightarrow> int) \<Rightarrow> Container \<Rightarrow> json result" where
  "container_json z = struct_json z (Inr \<circ> JText) container_fields"

definition state_json :: "(Time \<Rightarrow> int) \<Rightarrow> AppState \<Rightarrow> json result" where
  "state_json z = struct_json z (container_json z) state_fields"

definition read_container :: "json \<Rightarrow> Container option" where
  "read_container = read_struct read_string container_fields zero_container"

definition read_state :: "json \<Rightarrow> AppState option" where
  "read_state = read_struct read_container state_fields zero_state"

section \<open>The wire types (types.go)\<close>

record api_Container =
  api_Service :: string
  api_Image :: string
  api_Tag :: string
  api_CurrentDigest :: string
  api_PreviousDigest :: string
  api_UpdateAvailable :: bool
  api_ContainerID :: string
  api_Labels :: labels
  api_Pinned :: bool
  api_Stopped :: bool
  api_AvailableDigest :: string
  api_CurrentDigestAt :: Time
  api_AvailableDigestAt :: Time
  api_PreviousDigestAt :: Time
  api_PreviousDigestBuiltAt :: Time
  api_LastPolledAt :: Time
  api_Notes :: string
  api_ActionInFlight :: string
  api_ActionError :: string

record api_State =
  api_Version :: int
  api_Containers :: "string \<rightharpoonup> api_Container"
  api_LastPollStart :: Time
  api_LastPollEnd :: Time
  api_LastPollError :: string

definition api_container_fields :: "(api_Container, string) field list" where
  "api_container_fields =
     [StringField ''service'' False api_Service (\<lambda>v c. c\<lparr>api_Service := v\<rparr>),
      StringField ''image'' True api_Image (\<lambda>v c. c\<lparr>api_Image := v\<rparr>),
      StringField ''tag'' True api_Tag (\<lambda>v c. c\<lparr>api_Tag := v\<rparr>),
      StringField ''current_digest'' True api_CurrentDigest (\<lambda>v c. c\<lparr>api_CurrentDigest := v\<rparr>),
      StringField ''previous_digest'' True api_PreviousDigest (\<lambda>v c. c\<lparr>api_PreviousDigest := v\<rparr>),
      BoolField ''update_available'' False api_UpdateAvailable (\<lambda>v c. c\<lparr>api_UpdateAvailable := v\<rparr>),
      StringField ''container_id'' True api_ContainerID (\<lambda>v c. c\<lparr>api_ContainerID := v\<rparr>),
      MapField ''labels'' True api_Labels (\<lambda>v c. c\<lparr>api_Labels := v\<rparr>),
      BoolField ''pinned'' True api_Pinned (\<lambda>v c. c\<lparr>api_Pinned := v\<rparr>),
      BoolField ''stopped'' True api_Stopped (\<lambda>v c. c\<lparr>api_Stopped := v\<rparr>),
      StringField ''available_digest'' True api_AvailableDigest (\<lambda>v c. c\<lparr>api_AvailableDigest := v\<rparr>),
      TimeField ''current_digest_at'' api_CurrentDigestAt (\<lambda>v c. c\<lparr>api_CurrentDigestAt := v\<rparr>),
      TimeField ''available_digest_at'' api_AvailableDigestAt (\<lambda>v c. c\<lparr>api_AvailableDigestAt := v\<rparr>),
      TimeField ''previous_digest_at'' api_PreviousDigestAt (\<lambda>v c. c\<lparr>api_PreviousDigestAt := v\<rparr>),
      TimeField ''previous_digest_built_at'' api_PreviousDigestBuiltAt (\<lambda>v c. c\<lparr>api_PreviousDigestBuiltAt := v\<rparr>),
      TimeField ''last_polled_at'' api_LastPolledAt (\<lambda>v c. c\<lparr>api_LastPolledAt := v\<rparr>),
      StringField ''notes'' True api_Notes (\<lambda>v c. c\<lparr>api_Notes := v\<rparr>),
      StringField ''action_in_flight'' True api_ActionInFlight (\<lambda>v c. c\<lparr>api_ActionInFlight := v\<rparr>),
      StringField ''action_error'' True api_ActionError (\<lambda>v c. c\<lparr>api_ActionError := v\<rparr>)]"

definition api_state_fields :: "(api_State, api_Container) field list" where
  "api_state_fields =
     [IntField ''version'' api_Version (\<lambda>v s. s\<lparr>api_Version := v\<rparr>),
      MapField ''containers'' False api_Containers (\<lambda>v s. s\<lparr>api_Containers := v\<rparr>),
      TimeField ''last_poll_start'' api_LastPollStart (\<lambda>v s. s\<lparr>api_LastPollStart := v\<rparr>),
      TimeField ''last_poll_end'' api_LastPollEnd (\<lambda>v s. s\<lparr>api_LastPollEnd := v\<rparr>),
      StringField ''last_poll_error'' True api_LastPollError (\<lambda>v s. s\<lparr>api_LastPollError := v\<rparr>)]"

definition zero_api_container :: api_Container where
  "zero_api_container =
     \<lparr>api_Service = '''', api_Image = '''', api_Tag = '''', api_CurrentDigest = '''',
      api_PreviousDigest = '''', api_UpdateAvailable = False, api_ContainerID = '''',
      api_Labels = Map.empty, api_Pinned = False, api_Stopped = False, api_AvailableDigest = '''',
      api_CurrentDigestAt = 0, api_AvailableDigestAt = 0, api_PreviousDigestAt = 0,
      api_PreviousDigestBuiltAt = 0, api_LastPolledAt = 0, api_Notes = '''', api_ActionInFlight = '''',
      api_ActionError = ''''\<rparr>"

definition zero_api_state :: api_State where
  "zero_api_state =
     \<lparr>api_Version = 0, api_Containers = Map.empty, api_LastPollStart = 0, api_LastPollEnd = 0,
      api_LastPollError = ''''\<rparr>"

definition read_api_container :: "json \<Rightarrow> api_Container option" where
  "read_api_container = read_struct read_string api_container_fields zero_api_container"

definition read_api_state :: "json \<Rightarrow> api_State option" where
  "read_api_state = read_struct read_api_container api_state_fields zero_api_state"

text \<open>The wire struct with the values of the state struct.\<close>

definition to_api_container :: "Container \<Rightarrow> api_Container" where
  "to_api_container c =
     \<lparr>api_Service = Service c, api_Image = ImageRepo c, api_Tag = Tag c, api_CurrentDigest = CurrentDigest c,
      api_PreviousDigest = PreviousDigest c, api_UpdateAvailable = UpdateAvailable c,
      api_ContainerID = ContainerID c, api_Labels = Labels c, api_Pinned = Pinned c, api_Stopped = Stopped c,
      api_AvailableDigest = AvailableDigest c, api_CurrentDigestAt = CurrentDigestAt c,
      api_AvailableDigestAt = AvailableDigestAt c, api_PreviousDigestAt = PreviousDigestAt c,
      api_PreviousDigestBuiltAt = PreviousDigestBuiltAt c, api_LastPolledAt = LastPolledAt c,
      api_Notes = Notes c, api_ActionInFlight = ActionInFlight c, api_ActionError = ActionError c\<rparr>"

definition to_api_state :: "AppState \<Rightarrow> api_State" where
  "to_api_state s =
     \<lparr>api_Version = Version s, api_Containers = map_option to_api_container \<circ> Containers s,
      api_LastPollStart = LastPollStart s, api_LastPollEnd = LastPollEnd s,
      api_LastPollError = LastPollError s\<rparr>"

section \<open>The tables meet the contract\<close>

text \<open>Each field of the writer with the reader's field of that name.\<close>

definition pair_up :: "('r, 'v) field list \<Rightarrow> ('q, 'w) field list \<Rightarrow> (('r, 'v) field \<times> ('q, 'w) field) list" where
  "pair_up fs gs = map (\<lambda>f. (f, the (find_field gs (field_name f)))) fs"

lemma fst_pair_up [simp]: "map fst (pair_up fs gs) = fs"
  by (simp add: pair_up_def comp_def)

lemma map_option_id_comp [simp]: "map_option id \<circ> m = m"
  by (simp add: option.map_id0)

lemma pair_up_lookup:
  "list_all (\<lambda>f. find_field gs (field_name f) \<noteq> None) fs \<Longrightarrow>
     list_all (\<lambda>p. find_field gs (field_name (fst p)) = Some (snd p)) (pair_up fs gs)"
  by (auto simp: pair_up_def list_all_iff)

lemma find_field_at:
  "distinct (map field_name fs) \<Longrightarrow> f \<in> set fs \<Longrightarrow> find_field fs (field_name f) = Some f"
proof -
  assume "distinct (map field_name fs)" "f \<in> set fs"
  then have "find (\<lambda>g. field_name g = field_name f) fs = Some f" by (induction fs) auto
  then show ?thesis by (simp add: find_field_def)
qed

lemma pair_up_same: "distinct (map field_name fs) \<Longrightarrow> pair_up fs fs = map (\<lambda>f. (f, f)) fs"
  by (simp add: pair_up_def find_field_at)

lemma lookup_same:
  "distinct (map field_name fs) \<Longrightarrow>
     list_all (\<lambda>p. find_field fs (field_name (fst p)) = Some (snd p)) (map (\<lambda>f. (f, f)) fs)"
  by (simp add: list_all_iff find_field_at)

lemma distinct_names:
  "distinct (map field_name container_fields)" "distinct (map field_name state_fields)"
  by (simp_all add: container_fields_def state_fields_def)

interpretation container_wire: struct_wire "pair_up container_fields container_fields" container_fields zero_container id id
  unfolding pair_up_same [OF distinct_names(1)]
proof
  show "list_all (\<lambda>p. find_field container_fields (field_name (fst p)) = Some (snd p)) (map (\<lambda>f. (f, f)) container_fields)"
    by (rule lookup_same [OF distinct_names(1)])
qed (simp_all add: container_fields_def zero_container_def)

interpretation state_wire: struct_wire "pair_up state_fields state_fields" state_fields zero_state id id
  unfolding pair_up_same [OF distinct_names(2)]
proof
  show "list_all (\<lambda>p. find_field state_fields (field_name (fst p)) = Some (snd p)) (map (\<lambda>f. (f, f)) state_fields)"
    by (rule lookup_same [OF distinct_names(2)])
qed (simp_all add: state_fields_def zero_state_def)

text \<open>The wire struct declares the times in another order: the pairs follow the writer.\<close>

definition api_order :: "(api_Container, string) field list" where
  "api_order =
     take 12 api_container_fields @ [api_container_fields ! 13, api_container_fields ! 14, api_container_fields ! 12]
     @ drop 15 api_container_fields"

lemma pair_up_zip: "pair_up fs gs = zip fs (map (\<lambda>f. the (find_field gs (field_name f))) fs)"
  by (induction fs) (simp_all add: pair_up_def)

lemma api_container_pairs: "pair_up container_fields api_container_fields = zip container_fields api_order"
  unfolding pair_up_zip
  by (rule arg_cong [of _ _ "zip container_fields"])
     (simp add: api_order_def container_fields_def api_container_fields_def find_field_def)

lemma api_lookup:
  "list_all (\<lambda>p. find_field api_container_fields (field_name (fst p)) = Some (snd p))
     (pair_up container_fields api_container_fields)"
  by (rule pair_up_lookup) (simp add: container_fields_def api_container_fields_def find_field_def)

interpretation api_container_wire:
  struct_wire "pair_up container_fields api_container_fields" api_container_fields zero_api_container id to_api_container
proof
  show "list_all (\<lambda>p. find_field api_container_fields (field_name (fst p)) = Some (snd p))
          (pair_up container_fields api_container_fields)"
    by (rule api_lookup)
qed (unfold api_container_pairs, simp_all add: api_order_def container_fields_def api_container_fields_def
       zero_api_container_def to_api_container_def)

lemmas api_state_pairs = pair_up_def state_fields_def api_state_fields_def find_field_def

interpretation api_state_wire:
  struct_wire "pair_up state_fields api_state_fields" api_state_fields zero_api_state to_api_container to_api_state
proof
  show "list_all (\<lambda>p. find_field api_state_fields (field_name (fst p)) = Some (snd p)) (pair_up state_fields api_state_fields)"
    by (rule pair_up_lookup) (simp add: state_fields_def api_state_fields_def find_field_def)
qed (simp_all add: api_state_pairs zero_api_state_def to_api_state_def)

section \<open>Documents that survive\<close>

text \<open>Texts in UTF-8, finite maps, a version of 64 bits; the times are checked when they are written.\<close>

definition container_ok :: "Container \<Rightarrow> bool" where
  "container_ok c \<longleftrightarrow> list_all (carried utf8_valid c) container_fields"

definition doc_ok :: "AppState \<Rightarrow> bool" where
  "doc_ok st \<longleftrightarrow> list_all (carried container_ok st) state_fields"

lemma read_string_text: "utf8_valid v \<Longrightarrow> (Inr \<circ> JText) v = Inr j \<Longrightarrow> read_string j = Some (id v)"
  by (auto simp: read_string_def JText_def)

lemma read_container_json: "container_ok c \<Longrightarrow> container_json z c = Inr j \<Longrightarrow> read_container j = Some (id c)"
  unfolding container_json_def container_ok_def read_container_def
  by (rule container_wire.arrives [where okv = utf8_valid and ev = "Inr \<circ> JText", unfolded fst_pair_up])
    (use read_string_text in auto)

lemma read_state_json: "doc_ok st \<Longrightarrow> state_json z st = Inr j \<Longrightarrow> read_state j = Some (id st)"
  unfolding state_json_def doc_ok_def read_state_def
  by (rule state_wire.arrives [where okv = container_ok and ev = "container_json z", unfolded fst_pair_up])
    (use read_container_json in auto)

lemma read_api_container_json:
  "container_ok c \<Longrightarrow> container_json z c = Inr j \<Longrightarrow> read_api_container j = Some (to_api_container c)"
  unfolding container_json_def container_ok_def read_api_container_def
  by (rule api_container_wire.arrives [where okv = utf8_valid and ev = "Inr \<circ> JText", unfolded fst_pair_up])
    (use read_string_text in auto)

lemma read_api_state_json:
  "doc_ok st \<Longrightarrow> state_json z st = Inr j \<Longrightarrow> read_api_state j = Some (to_api_state st)"
  unfolding state_json_def doc_ok_def read_api_state_def
  by (rule api_state_wire.arrives [where okv = container_ok and ev = "container_json z", unfolded fst_pair_up])
    (use read_api_container_json in auto)


section \<open>The codec of the state file (persist.go, store.go)\<close>

text \<open>
  The text is the one of \<open>json.MarshalIndent\<close> with two spaces. \<open>z\<close> gives the zone offset
  of a time, \<open>err\<close> the error value for a text that does not decode.
\<close>

definition state_codec :: "(Time \<Rightarrow> int) \<Rightarrow> (string \<Rightarrow> go_error) \<Rightarrow> codec" where
  "state_codec z err =
     \<lparr>Marshal = (\<lambda>st. map_sum id (print_json (Some 0)) (state_json z st)),
      Unmarshal = (\<lambda>data. case Option.bind (parse_json data) read_state of
                            None \<Rightarrow> Inl (err data)
                          | Some st \<Rightarrow> Inr st)\<rparr>"

lemma utf8_names:
  "list_all (\<lambda>f. utf8_valid (field_name f)) container_fields"
  "list_all (\<lambda>f. utf8_valid (field_name f)) state_fields"
proof -
  have "list_all (\<lambda>f. list_all plain_char (field_name f)) container_fields"
    and "list_all (\<lambda>f. list_all plain_char (field_name f)) state_fields"
    by (simp_all add: container_fields_def state_fields_def plain_char_def encode_ascii_def)
  then show "list_all (\<lambda>f. utf8_valid (field_name f)) container_fields"
    and "list_all (\<lambda>f. utf8_valid (field_name f)) state_fields"
    using plain_text by (auto simp: list_all_iff)
qed

lemma json_ok_container:
  assumes "container_ok c" and "container_json z c = Inr j" and "1 < k"
  shows "json_ok k j"
  using assms(2) unfolding container_json_def
  by (rule json_ok_struct [where okv = utf8_valid])
    (use assms(1,3) utf8_names in \<open>auto simp: container_ok_def\<close>)

lemma json_ok_state:
  assumes "doc_ok st" and "state_json z st = Inr j" and "3 < k"
  shows "json_ok k j"
  using assms(2) unfolding state_json_def
  by (rule json_ok_struct [where okv = container_ok])
    (use assms(1,3) utf8_names json_ok_container in \<open>auto simp: doc_ok_def\<close>)

lemma print_nonempty: "json_ok k j \<Longrightarrow> print_json l j \<noteq> []"
  using value_round_trip [of k j "[]" l] by (auto simp: value_at_unfold skip_space_def)

lemma state_codec_reads_back:
  assumes "doc_ok st" and "Marshal (state_codec z err) st = Inr data"
  shows "data \<noteq> []" and "Unmarshal (state_codec z err) data = Inr st"
proof -
  obtain j where j: "state_json z st = Inr j" and data: "data = print_json (Some 0) j"
    using assms(2) by (auto simp: state_codec_def)
  have "json_ok maxNestingDepth j" using assms(1) j by (rule json_ok_state) (simp add: maxNestingDepth_def)
  then show "data \<noteq> []" and "Unmarshal (state_codec z err) data = Inr st"
    using print_nonempty parse_print read_state_json [OF assms(1) j] data by (simp_all add: state_codec_def)
qed


section \<open>Properties of the state file\<close>

text \<open>
  C19. The state file survives a restart: after an \<open>Update\<close> that persisted, \<open>NewStore\<close> on
  the resulting disk returns the mutated document and leaves the disk as it is. The
  document's texts are UTF-8 and its maps finite; every field of every row, every label
  and every time comes back.
\<close>

theorem update_then_reboot:
  assumes "atomic_fs f" and "doc_ok (fn (Get s))"
    and "Store_Update (state_codec z err) f fn s d = (None, s', d')"
  shows "NewStore (state_codec z err) f path d' = (Inr \<lparr>store_path = path, store_state = fn (Get s)\<rparr>, d')"
proof (rule reboot_after_update [OF assms(1) _ assms(3)])
  show "reads_back (state_codec z err) (fn (Get s))"
    using state_codec_reads_back [OF assms(2)] by (simp add: reads_back_def)
qed

text \<open>A document with a row, for the witnesses.\<close>

definition sample_row :: Container where
  "sample_row =
     zero_container\<lparr>Service := ''web'', Tag := ''v1'', Labels := [''hmi-update.watch'' \<mapsto> ''true''], Pinned := True,
       LastPolledAt := 61000000000\<rparr>"

definition sample_doc :: AppState where
  "sample_doc = empty_state\<lparr>Containers := [''web'' \<mapsto> sample_row], LastPollError := ''a<b''\<rparr>"

definition sample_json :: json where
  "sample_json =
     JObject
       [(''version'', JInt 1),
        (''containers'',
         JObject [(''web'', JObject [(''service'', JText ''web''), (''tag'', JText ''v1''), (''update_available'', JBool False),
           (''labels'', JObject [(''hmi-update.watch'', JText ''true'')]), (''pinned'', JBool True),
           (''last_polled_at'', JString ''0001-01-01T00:01:01Z'')])]),
        (''last_poll_error'', JText ''a<b'')]"

lemma sample_time: "marshal_time 0 61000000000 = Inr ''0001-01-01T00:01:01Z''"
  by code_simp

lemma sample_row_json:
  "container_json (\<lambda>_. 0) sample_row =
     Inr (JObject [(''service'', JText ''web''), (''tag'', JText ''v1''), (''update_available'', JBool False),
           (''labels'', JObject [(''hmi-update.watch'', JText ''true'')]), (''pinned'', JBool True),
           (''last_polled_at'', JString ''0001-01-01T00:01:01Z'')])"
  by (simp add: container_json_def struct_json_def container_fields_def sample_row_def zero_container_def
      map_json_def time_json_def sample_time IsZero_def)

lemma sample_doc_json: "state_json (\<lambda>_. 0) sample_doc = Inr sample_json"
  by (simp add: state_json_def struct_json_def state_fields_def sample_doc_def empty_state_def sample_json_def
      map_json_def sample_row_json IsZero_def SchemaVersion_def)

lemma ascii_valid: "list_all (\<lambda>c. byte c < 0x80) s \<Longrightarrow> utf8_valid s"
proof (induction s)
  case (Cons c s)
  then have "utf8_len (c # s) = 1" by (simp add: utf8_len_def)
  with Cons utf8_valid.simps [of "c # s"] show ?case by simp
qed (simp add: utf8_valid.simps)

lemma sample_doc_ok: "doc_ok sample_doc"
proof -
  have "container_ok sample_row"
    by (simp add: container_ok_def container_fields_def sample_row_def zero_container_def ascii_valid)
  then show ?thesis
    by (simp add: doc_ok_def state_fields_def sample_doc_def empty_state_def ascii_valid SchemaVersion_def)
qed

theorem update_then_reboot_witness:
  "NewStore (state_codec (\<lambda>_. 0) errors_New) cell_fs ''s.json'' (Some (print_json (Some 0) sample_json)) =
     (Inr \<lparr>store_path = ''s.json'', store_state = sample_doc\<rparr>, Some (print_json (Some 0) sample_json))"
proof -
  have "Store_Update (state_codec (\<lambda>_. 0) errors_New) cell_fs (\<lambda>_. sample_doc) fresh_store None =
      (None, fresh_store\<lparr>store_state := sample_doc\<rparr>, Some (print_json (Some 0) sample_json))"
    by (simp add: Store_Update_def persist_def state_codec_def sample_doc_json cell_fs_def fresh_store_def)
  from update_then_reboot [OF atomic_cell_fs _ this] sample_doc_ok show ?thesis by simp
qed

text \<open>The line that \<open>json.Encoder\<close> writes for a document, read into the wire types.\<close>

lemma wire_types_agree:
  assumes "doc_ok st" and "state_json z st = Inr j"
  shows "Option.bind (parse_json (print_json l j @ [CHR 0x0A])) read_api_state = Some (to_api_state st)"
proof -
  have "json_ok maxNestingDepth j" using assms by (rule json_ok_state) (simp add: maxNestingDepth_def)
  then show ?thesis using read_api_state_json [OF assms] by (simp add: parse_print_line)
qed

end
