(* ===== verification/Http.thy ===== *)
theory Http
  imports Registry Base64 State_Json
begin

text \<open>
  Requests and responses of \<open>net/http\<close> as far as the handlers see them, and the two
  wrappers around the application: \<open>internal/api/auth.go\<close> (basic authentication) and
  \<open>internal/api/tls.go\<close> (the redirect to TLS, the choice of listeners).
\<close>

section \<open>Requests and responses\<close>

record Request =
  rq_Method :: string
  rq_Path :: string \<comment> \<open>\<open>r.URL.Path\<close>, decoded\<close>
  rq_EscapedPath :: string \<comment> \<open>\<open>r.URL.EscapedPath()\<close>\<close>
  rq_RequestURI :: string
  rq_Host :: string
  rq_Header :: header
  rq_service :: string \<comment> \<open>\<open>r.PathValue("service")\<close>\<close>
  rq_recreate :: string \<comment> \<open>\<open>r.URL.Query().Get("recreate")\<close>\<close>

text \<open>
  A body is a text, or a value given to \<open>json.Encoder\<close>, which writes its compact text
  and a newline.
\<close>

datatype body = Text string | Json json

definition body_bytes :: "body \<Rightarrow> string" where
  "body_bytes b = (case b of Text t \<Rightarrow> t | Json j \<Rightarrow> print_json None j @ [CHR 0x0A])"

record Response =
  rp_Status :: nat
  rp_Header :: "(string \<times> string) list"
  rp_Body :: body

type_synonym 'w handler = "Request \<Rightarrow> ('w, Response) io"

definition http_Error :: "(string \<times> string) list \<Rightarrow> string \<Rightarrow> nat \<Rightarrow> Response" where
  "http_Error hs msg status =
     \<lparr>rp_Status = status,
      rp_Header = hs @ [(''Content-Type'', ''text/plain; charset=utf-8''), (''X-Content-Type-Options'', ''nosniff'')],
      rp_Body = Text (msg @ [CHR 0x0A])\<rparr>"

text \<open>\<open>http.Redirect\<close> to an absolute URL, from a handler that has set no content type.\<close>

definition hex_digit :: "nat \<Rightarrow> char" where
  "hex_digit n = (if n < 10 then char_of (48 + n) else char_of (87 + n))"

definition hexEscapeNonASCII :: "string \<Rightarrow> string" where
  "hexEscapeNonASCII s = concat (map (\<lambda>c. let n = of_char c :: nat in
     if n < 128 then [c] else [CHR ''%'', hex_digit (n div 16), hex_digit (n mod 16)]) s)"

definition htmlEscape :: "string \<Rightarrow> string" where
  "htmlEscape s = concat (map (\<lambda>c.
     if c = CHR ''&'' then ''&amp;'' else if c = CHR ''<'' then ''&lt;'' else if c = CHR ''>'' then ''&gt;''
     else if c = CHR 0x22 then ''&#34;'' else if c = CHR 0x27 then ''&#39;'' else [c]) s)"

definition http_Redirect :: "Request \<Rightarrow> string \<Rightarrow> nat \<Rightarrow> string \<Rightarrow> Response" where
  "http_Redirect r url status statusText =
     \<lparr>rp_Status = status,
      rp_Header = [(''Location'', hexEscapeNonASCII url)]
        @ (if rq_Method r = ''GET'' \<or> rq_Method r = ''HEAD''
           then [(''Content-Type'', ''text/html; charset=utf-8'')] else []),
      rp_Body = Text (if rq_Method r = ''GET''
        then ''<a href='' @ [CHR 0x22] @ htmlEscape url @ [CHR 0x22] @ ''>'' @ statusText @ ''</a>.'' @ [CHR 0x0A, CHR 0x0A]
        else '''')\<rparr>"

section \<open>Basic authentication (auth.go)\<close>

text \<open>\<open>http.Request.BasicAuth\<close>.\<close>

definition parseBasicAuth :: "string \<Rightarrow> (string \<times> string) option" where
  "parseBasicAuth auth =
     (if length auth < 6 \<or> map to_lower (take 6 auth) \<noteq> ''basic '' then None
      else case DecodeString (drop 6 auth) of
             None \<Rightarrow> None
           | Some cs \<Rightarrow>
               (case Index cs '':'' of None \<Rightarrow> None | Some i \<Rightarrow> Some (take i cs, drop (i + 1) cs)))"

definition Request_BasicAuth :: "Request \<Rightarrow> (string \<times> string) option" where
  "Request_BasicAuth r =
     (let auth = Header_Get (rq_Header r) ''Authorization'' in if auth = '''' then None else parseBasicAuth auth)"

definition unauthorized :: Response where
  "unauthorized =
     http_Error [(''WWW-Authenticate'', ''Basic realm='' @ quote ''docker-update'' @ '', charset='' @ quote ''UTF-8'')]
       ''unauthorized'' 401"

definition BasicAuth :: "'w handler \<Rightarrow> string \<Rightarrow> string \<Rightarrow> 'w handler" where
  "BasicAuth nxt user pass =
     (if user = '''' \<or> pass = '''' then nxt
      else (\<lambda>r.
        if rq_Path r = ''/healthz'' then nxt r
        else (let (gotUser, gotPass, ok) =
                    (case Request_BasicAuth r of None \<Rightarrow> ('''', '''', False) | Some (u, p) \<Rightarrow> (u, p, True));
                  userOK = (gotUser = user);
                  passOK = (gotPass = pass)
              in if \<not> ok \<or> \<not> userOK \<or> \<not> passOK then ret unauthorized else nxt r)))"

definition BasicAuthFromEnv :: "(string \<Rightarrow> string) \<Rightarrow> string \<times> string" where
  "BasicAuthFromEnv getenv =
     (getenv ''DOCKER_UPDATE_BASIC_AUTH_USER'', getenv ''DOCKER_UPDATE_BASIC_AUTH_PASS'')"

section \<open>The redirect to TLS (tls.go)\<close>

text \<open>\<open>net.SplitHostPort\<close> and \<open>net.JoinHostPort\<close>.\<close>

definition SplitHostPort :: "string \<Rightarrow> (string \<times> string) option" where
  "SplitHostPort hostport =
     (case LastIndex hostport CHR '':'' of
        None \<Rightarrow> None
      | Some i \<Rightarrow>
          (let port = drop (i + 1) hostport in
           if hostport ! 0 = CHR ''['' then
             (case Index hostport '']'' of
                None \<Rightarrow> None
              | Some e \<Rightarrow>
                  if e + 1 \<noteq> i then None
                  else if CHR ''['' \<in> set (drop 1 hostport) then None
                  else if CHR '']'' \<in> set (drop (e + 1) hostport) then None
                  else Some (drop 1 (take e hostport), port))
           else
             (let host = take i hostport in
              if CHR '':'' \<in> set host then None
              else if CHR ''['' \<in> set hostport then None
              else if CHR '']'' \<in> set hostport then None
              else Some (host, port))))"

definition JoinHostPort :: "string \<Rightarrow> string \<Rightarrow> string" where
  "JoinHostPort host port =
     (if CHR '':'' \<in> set host then ''['' @ host @ '']:'' @ port else host @ '':'' @ port)"

definition RedirectToHTTPS :: "string \<Rightarrow> Request \<Rightarrow> Response" where
  "RedirectToHTTPS httpsPort r =
     (let host = (case SplitHostPort (rq_Host r) of Some (h, _) \<Rightarrow> h | None \<Rightarrow> rq_Host r)
      in if host = '''' then http_Error [] ''missing Host header'' 400
         else let target = (if httpsPort \<noteq> '''' \<and> httpsPort \<noteq> ''443'' then JoinHostPort host httpsPort else host)
              in http_Redirect r (''https://'' @ target @ rq_RequestURI r) 301 ''Moved Permanently'')"

definition TLSFromEnv :: "(string \<Rightarrow> string) \<Rightarrow> string \<times> string \<times> string \<times> string" where
  "TLSFromEnv getenv =
     (let addr0 = getenv ''DOCKER_UPDATE_TLS_ADDR'';
          addr = (if addr0 = '''' then '':8443'' else addr0);
          redirectPort = (case SplitHostPort addr of Some (_, p) \<Rightarrow> p | None \<Rightarrow> '''')
      in (getenv ''DOCKER_UPDATE_TLS_CERT'', getenv ''DOCKER_UPDATE_TLS_KEY'', addr, redirectPort))"

text \<open>The listeners \<open>main\<close> starts: the application in the clear, or the application on TLS and a redirect.\<close>

datatype listener =
    AppPlain (l_addr: string)
  | RedirectPlain (l_addr: string) (l_port: string)
  | AppTLS (l_addr: string) (l_cert: string) (l_key: string)

definition listeners :: "(string \<Rightarrow> string) \<Rightarrow> listener list" where
  "listeners getenv =
     (let (certFile, keyFile, tlsAddr, tlsPort) = TLSFromEnv getenv
      in if certFile = '''' \<or> keyFile = '''' then [AppPlain '':8080'']
         else [RedirectPlain '':8080'' tlsPort, AppTLS tlsAddr certFile keyFile])"

section \<open>Lemmas\<close>

lemma Index_char:
  "Index s [c] = Some i \<longleftrightarrow> i < length s \<and> s ! i = c \<and> c \<notin> set (take i s)"
proof (induction s arbitrary: i)
  case (Cons x s)
  then show ?case by (cases i) (auto simp: HasPrefix_def)
qed simp

lemma Cut_Some:
  assumes "Index cs [c] = Some i"
  shows "take i cs = u \<and> drop (Suc i) cs = p \<longleftrightarrow> cs = u @ c # p \<and> c \<notin> set u"
proof
  from assms have i: "i < length cs" "cs ! i = c" "c \<notin> set (take i cs)" by (simp_all add: Index_char)
  then have "cs = take i cs @ c # drop (Suc i) cs" using id_take_nth_drop [of i cs] by simp
  with i(3) show "cs = u @ c # p \<and> c \<notin> set u" if "take i cs = u \<and> drop (Suc i) cs = p"
    using that by metis
  show "take i cs = u \<and> drop (Suc i) cs = p" if "cs = u @ c # p \<and> c \<notin> set u"
  proof -
    from that have "Index cs [c] = Some (length u)" by (simp add: Index_char)
    with assms that show ?thesis by simp
  qed
qed

lemma split_scheme:
  assumes "length b = n"
  shows "(\<exists>p tok. auth = p @ tok \<and> map f p = b \<and> Q tok) \<longleftrightarrow>
    \<not> (length auth < n \<or> map f (take n auth) \<noteq> b) \<and> Q (drop n auth)"
proof
  assume "\<exists>p tok. auth = p @ tok \<and> map f p = b \<and> Q tok"
  then obtain p tok where "auth = p @ tok" "map f p = b" "Q tok" by blast
  moreover from this assms have "length p = n" by auto
  ultimately show "\<not> (length auth < n \<or> map f (take n auth) \<noteq> b) \<and> Q (drop n auth)" by simp
next
  assume "\<not> (length auth < n \<or> map f (take n auth) \<noteq> b) \<and> Q (drop n auth)"
  then show "\<exists>p tok. auth = p @ tok \<and> map f p = b \<and> Q tok"
    by (intro exI [of _ "take n auth"] exI [of _ "drop n auth"]) simp
qed

lemma parseBasicAuth_iff:
  "parseBasicAuth auth = Some (user, pass) \<longleftrightarrow>
     CHR '':'' \<notin> set user \<and>
     (\<exists>p tok. auth = p @ tok \<and> map to_lower p = ''basic '' \<and> DecodeString tok = Some (user @ '':'' @ pass))"
proof -
  have cut: "(case Index cs '':'' of None \<Rightarrow> None | Some i \<Rightarrow> Some (take i cs, drop (i + 1) cs)) = Some (user, pass)
      \<longleftrightarrow> cs = user @ '':'' @ pass \<and> CHR '':'' \<notin> set user" for cs
  proof (cases "Index cs '':''")
    case None
    then have "CHR '':'' \<notin> set cs" by (simp add: Index_None_iff)
    with None show ?thesis by auto
  next
    case (Some i)
    from Cut_Some [OF this, of user pass] show ?thesis unfolding Some by simp
  qed
  have len: "length ''basic '' = 6" by simp
  show ?thesis
    unfolding split_scheme [OF len] parseBasicAuth_def
    using cut by (cases "DecodeString (drop 6 auth)") auto
qed

lemma BasicAuth_credentials:
  assumes "user \<noteq> ''''" and "pass \<noteq> ''''"
  shows "BasicAuth nxt user pass r =
    (if rq_Path r = ''/healthz'' \<or> Request_BasicAuth r = Some (user, pass) then nxt r else ret unauthorized)"
  using assms by (auto simp: BasicAuth_def Let_def split: option.splits prod.splits)

lemma parse_empty: "parseBasicAuth '''' = None"
  by (simp add: parseBasicAuth_def)

lemma SplitHostPort_plain:
  assumes "CHR '':'' \<notin> set h" "CHR ''['' \<notin> set h" "CHR '']'' \<notin> set h"
    and "CHR '':'' \<notin> set p" "CHR ''['' \<notin> set p" "CHR '']'' \<notin> set p"
  shows "SplitHostPort (h @ '':'' @ p) = Some (h, p)" and "SplitHostPort h = None"
proof -
  have "(h @ CHR '':'' # p) ! 0 \<noteq> CHR ''[''" using assms(2) by (cases h) auto
  with assms LastIndex_append [of "CHR '':''" p h] show "SplitHostPort (h @ '':'' @ p) = Some (h, p)"
    by (simp add: SplitHostPort_def)
  show "SplitHostPort h = None" using assms(1) by (simp add: SplitHostPort_def LastIndex_None [THEN iffD2])
qed

section \<open>Properties\<close>

text \<open>
  C37. Who passes the basic authentication, when it is configured: exactly the requests
  for \<open>/healthz\<close> and those whose \<open>Authorization\<close> header is the basic scheme, in any
  case, with the base64 form of \<open>user:pass\<close>; everybody else gets the 401 answer and
  reaches nothing of the application. A user name with a colon locks everybody out.
\<close>

theorem basic_auth_exact:
  assumes "user \<noteq> ''''" and "pass \<noteq> ''''"
  shows "BasicAuth nxt user pass r =
    (if rq_Path r = ''/healthz'' \<or>
        (CHR '':'' \<notin> set user \<and>
         (\<exists>scheme tok. Header_Get (rq_Header r) ''Authorization'' = scheme @ tok \<and>
            map to_lower scheme = ''basic '' \<and> DecodeString tok = Some (user @ '':'' @ pass)))
     then nxt r else ret unauthorized)"
proof -
  have "Request_BasicAuth r = parseBasicAuth (Header_Get (rq_Header r) ''Authorization'')"
    using parse_empty unfolding Request_BasicAuth_def Let_def by (simp only: split: if_split) simp
  then show ?thesis
    unfolding BasicAuth_credentials [OF assms] by (simp only: parseBasicAuth_iff)
qed

definition operator_request :: Request where
  "operator_request =
     \<lparr>rq_Method = ''GET'', rq_Path = ''/api/state'', rq_EscapedPath = ''/api/state'', rq_RequestURI = ''/api/state'', rq_Host = ''hmi'',
      rq_Header = [''Authorization'' \<mapsto> [''basic '' @ EncodeToString (''op'' @ '':'' @ ''secret'')]],
      rq_service = '''', rq_recreate = ''''\<rparr>"

lemma operator_header:
  "Header_Get (rq_Header operator_request) ''Authorization'' = ''basic '' @ EncodeToString (''op'' @ '':'' @ ''secret'')"
  by code_simp

lemma scheme_lower: "map to_lower ''basic '' = ''basic ''"
  by code_simp

definition answer_ok :: "unit handler" where
  "answer_ok r = ret \<lparr>rp_Status = 200, rp_Header = [], rp_Body = Text (rq_Path r)\<rparr>"

theorem basic_auth_exact_witness:
  "BasicAuth answer_ok ''op'' ''secret'' operator_request = answer_ok operator_request"
proof -
  have "\<exists>scheme tok. Header_Get (rq_Header operator_request) ''Authorization'' = scheme @ tok \<and>
      map to_lower scheme = ''basic '' \<and> DecodeString tok = Some (''op'' @ '':'' @ ''secret'')"
    by (intro exI conjI, rule operator_header, rule scheme_lower, rule DecodeString_Encode)
  moreover have "CHR '':'' \<notin> set ''op''" "''op'' \<noteq> ''''" "''secret'' \<noteq> ''''" by simp_all
  ultimately show ?thesis using basic_auth_exact [of "''op''" "''secret''" answer_ok operator_request] by simp
qed

text \<open>
  A request for a host name, with or without a port, is sent to the same path on
  \<open>https\<close>, on the configured port, never back to the plain listener.
\<close>

theorem redirect_target:
  assumes "h \<noteq> ''''" and "CHR '':'' \<notin> set h" "CHR ''['' \<notin> set h" "CHR '']'' \<notin> set h"
    and "CHR '':'' \<notin> set p" "CHR ''['' \<notin> set p" "CHR '']'' \<notin> set p"
    and "rq_Host r = h \<or> rq_Host r = h @ '':'' @ p"
  shows "RedirectToHTTPS httpsPort r =
    http_Redirect r (''https://'' @ h
      @ (if httpsPort = '''' \<or> httpsPort = ''443'' then '''' else '':'' @ httpsPort) @ rq_RequestURI r)
      301 ''Moved Permanently''"
proof -
  have "(case SplitHostPort (rq_Host r) of Some (h, _) \<Rightarrow> h | None \<Rightarrow> rq_Host r) = h"
    using SplitHostPort_plain [OF assms(2-7)] assms(8) by auto
  then show ?thesis using assms(1,2) unfolding RedirectToHTTPS_def Let_def by (simp add: JoinHostPort_def)
qed

theorem redirect_target_witness:
  "RedirectToHTTPS ''8443'' operator_request =
     http_Redirect operator_request ''https://hmi:8443/api/state'' 301 ''Moved Permanently''"
  using redirect_target [of "''hmi''" "''''" operator_request "''8443''"] by (simp add: operator_request_def)

text \<open>An address literal loses its brackets on port 443 and gets them twice on any other port.\<close>

lemma redirect_address_literal:
  "hd (rp_Header (RedirectToHTTPS ''443'' (operator_request\<lparr>rq_Host := ''[::1]:8080''\<rparr>))) =
     (''Location'', ''https://::1/api/state'')"
  "hd (rp_Header (RedirectToHTTPS ''8443'' (operator_request\<lparr>rq_Host := ''[::1]''\<rparr>))) =
     (''Location'', ''https://[[::1]]:8443/api/state'')"
  by code_simp+

text \<open>With a certificate configured no listener serves the application in the clear.\<close>

lemma tls_is_exclusive:
  "getenv ''DOCKER_UPDATE_TLS_CERT'' \<noteq> '''' \<Longrightarrow> getenv ''DOCKER_UPDATE_TLS_KEY'' \<noteq> '''' \<Longrightarrow>
     l \<in> set (listeners getenv) \<Longrightarrow> \<not> is_AppPlain l"
  by (auto simp: listeners_def TLSFromEnv_def Let_def split: option.splits)

end
