(* ===== verification/Handlers.thy ===== *)
theory Handlers
  imports Http Orchestrator Selfupdate
begin

text \<open>
  The HTTP layer: the middleware of \<open>internal/actions/middleware.go\<close> and the handlers
  of \<open>internal/api\<close> (handlers_actions.go, handlers_poll.go, handlers_self.go,
  handlers.go). A handler maps a request to a computation that returns a response;
  the middleware either passes a value on or returns the response that ends the chain.
\<close>

section \<open>Bodies\<close>

text \<open>The texts a response may carry, as the source has them.\<close>

definition ActionBodyInvalidServiceName :: string where
  "ActionBodyInvalidServiceName =
     ''{\"error\":\"invalid_service_name\",\"detail\":\"service name must match ^[a-zA-Z0-9._-]+$\"}''"

definition ActionBodyContainerNotFound :: string where
  "ActionBodyContainerNotFound = ''{\"error\":\"container_not_found\"}''"

definition ActionBodySelfProtection :: string where
  "ActionBodySelfProtection =
     ''{\"error\":\"self_protection\",\"detail\":\"see PROJECT.md '' @ [CHR 0x27] @ ''Manual self-upgrade procedure''
     @ [CHR 0x27] @ ''\"}''"

definition ActionBodyActionDisabledUpdate :: string where
  "ActionBodyActionDisabledUpdate =
     ''{\"error\":\"action_disabled_by_label\",\"detail\":\"hmi-update.allow-update=false\"}''"

definition ActionBodyActionDisabledRollback :: string where
  "ActionBodyActionDisabledRollback =
     ''{\"error\":\"action_disabled_by_label\",\"detail\":\"hmi-update.allow-rollback=false\"}''"

definition ActionBodyServiceBusy :: string where
  "ActionBodyServiceBusy = ''{\"error\":\"service_busy\"}''"

definition ActionBodyComposeFileMoved :: string where
  "ActionBodyComposeFileMoved =
     ''{\"error\":\"compose_file_moved\",\"hint\":\"restart docker-update to pick up the new docker-compose.yml\"}''"

definition ActionBodyNotADowngrade :: string where
  "ActionBodyNotADowngrade =
     ''{\"error\":\"not_a_downgrade\",\"detail\":\"rollback candidate is not strictly older than current image (P9-N)\"}''"

definition actionBodyOrchestratorUnwired :: string where
  "actionBodyOrchestratorUnwired =
     ''{\"error\":\"orchestrator_not_wired\",\"detail\":\"restart docker-update; check boot logs for actions.NewOrchestrator errors\"}''"

definition actionBodyNoPreviousDigest :: string where
  "actionBodyNoPreviousDigest =
     ''{\"error\":\"no_previous_digest\",\"detail\":\"rollback requires a recorded previous digest; perform an Update first\"}''"

definition actionBodyPullFailed :: string where
  "actionBodyPullFailed = ''{\"error\":\"pull_failed\",\"detail\":\"see logs for action.pull_failed event\"}''"

definition actionBodyComposeFailed :: string where
  "actionBodyComposeFailed = ''{\"error\":\"compose_failed\",\"detail\":\"see logs for action.compose_failed event\"}''"

definition actionBodyVerifyCanceled :: string where
  "actionBodyVerifyCanceled =
     ''{\"error\":\"verify_canceled\",\"detail\":\"action canceled by server shutdown; retry after restart\"}''"

definition actionBodyVerifyFailedFallback :: string where
  "actionBodyVerifyFailedFallback =
     ''{\"error\":\"verify_failed\",\"detail\":\"see logs for action.verify_failed event\"}''"

definition actionBodyInternal :: string where
  "actionBodyInternal = ''{\"error\":\"internal\",\"detail\":\"see logs\"}''"

definition writeActionBody :: "nat \<Rightarrow> string \<Rightarrow> Response" where
  "writeActionBody status b =
     \<lparr>rp_Status = status, rp_Header = [(''Content-Type'', ''application/json; charset=utf-8'')], rp_Body = Text b\<rparr>"

definition writeJson :: "nat \<Rightarrow> json \<Rightarrow> Response" where
  "writeJson status j =
     \<lparr>rp_Status = status, rp_Header = [(''Content-Type'', ''application/json; charset=utf-8'')], rp_Body = Json j\<rparr>"

section \<open>Middleware (middleware.go)\<close>

datatype Action = ActionUpdate | ActionRollback | ActionForcePull

definition service_char :: "char \<Rightarrow> bool" where
  "service_char c \<longleftrightarrow> is_lower c \<or> is_upper c \<or> is_digit c \<or> c \<in> {CHR ''.'', CHR ''_'', CHR ''-''}"

text \<open>The regular expression \<open>^[a-zA-Z0-9._-]+$\<close>.\<close>

definition serviceNameRegex :: "string \<Rightarrow> bool" where
  "serviceNameRegex s \<longleftrightarrow> s \<noteq> '''' \<and> list_all service_char s"

definition ValidateServiceName :: "Request \<Rightarrow> Response + string" where
  "ValidateServiceName r =
     (let svc = rq_service r
      in if \<not> serviceNameRegex svc then Inl (writeActionBody 400 ActionBodyInvalidServiceName) else Inr svc)"

definition CheckSafetyLabel :: "Container \<Rightarrow> Action \<Rightarrow> Response option" where
  "CheckSafetyLabel c action =
     (case action of
        ActionUpdate \<Rightarrow>
          if label c ''hmi-update.allow-update'' = ''false''
          then Some (writeActionBody 409 ActionBodyActionDisabledUpdate) else None
      | ActionRollback \<Rightarrow>
          if label c ''hmi-update.allow-rollback'' = ''false''
          then Some (writeActionBody 409 ActionBodyActionDisabledRollback) else None
      | ActionForcePull \<Rightarrow> None)"

definition CheckSelfProtection :: "actionOrchestrator \<Rightarrow> string \<Rightarrow> Response option" where
  "CheckSelfProtection oc svc =
     (if svc = oc_selfService oc then Some (writeActionBody 409 ActionBodySelfProtection) else None)"

definition LookupContainer :: "'w Env \<Rightarrow> string \<Rightarrow> ('w, Container option) io" where
  "LookupContainer E svc = do { st \<leftarrow> observe (env_store E); ret (Containers st svc) }"

section \<open>Errors and results on the wire (handlers_actions.go)\<close>

definition isNoPreviousDigest :: "go_error \<Rightarrow> bool" where
  "isNoPreviousDigest err \<longleftrightarrow> Contains (err_text err) ''no_previous_digest''"

definition verify_json :: "VerifyDetail \<Rightarrow> json" where
  "verify_json d =
     JObject [(''error'', JText ''verify_failed''), (''reason'', JText (vd_Reason d)), (''exit_code'', JNull),
       (''restart_count'', JInt (vd_RestartCount d)), (''running'', JBool (vd_Running d)),
       (''container_id'', JText (vd_ContainerID d))]"

definition writeVerifyFailedBody :: "go_error \<Rightarrow> Response" where
  "writeVerifyFailedBody err =
     (case errors_As err of
        None \<Rightarrow> writeActionBody 500 actionBodyVerifyFailedFallback
      | Some d \<Rightarrow> writeJson 500 (verify_json d))"

definition writeActionError :: "go_error \<Rightarrow> Response" where
  "writeActionError err =
     (if errors_Is err ErrComposeFileMoved then writeActionBody 412 ActionBodyComposeFileMoved
      else if errors_Is err ErrServiceBusy then writeActionBody 409 ActionBodyServiceBusy
      else if errors_Is err ErrSelfProtection then writeActionBody 409 ActionBodySelfProtection
      else if errors_Is err ErrActionDisabledByLabel then writeActionBody 409 ActionBodyActionDisabledUpdate
      else if errors_Is err ErrVerifyCanceled then writeActionBody 503 actionBodyVerifyCanceled
      else if errors_Is err ErrVerifyFailed then writeVerifyFailedBody err
      else if errors_Is err ErrComposeFailed then writeActionBody 500 actionBodyComposeFailed
      else if errors_Is err ErrPullFailed then writeActionBody 500 actionBodyPullFailed
      else if errors_Is err ErrNoPreviousDigest then writeActionBody 400 actionBodyNoPreviousDigest
      else if errors_Is err ErrNotADowngrade then writeActionBody 409 ActionBodyNotADowngrade
      else if isNoPreviousDigest err then writeActionBody 400 actionBodyNoPreviousDigest
      else writeActionBody 500 actionBodyInternal)"

text \<open>The two \<open>omitempty\<close> fields are left out when they are zero.\<close>

definition result_json :: "ActionResult \<Rightarrow> json" where
  "result_json r =
     JObject ([(''current_digest'', JText (ar_CurrentDigest r))]
       @ (if ar_PreviousDigest r = '''' then [] else [(''previous_digest'', JText (ar_PreviousDigest r))])
       @ (if ar_NoOp r then [(''no_op'', JBool True)] else []))"

definition writeActionResult :: "ActionResult \<Rightarrow> Response" where
  "writeActionResult r = writeJson 200 (result_json r)"

definition respond :: "ActionResult result \<Rightarrow> Response" where
  "respond r = (case r of Inl err \<Rightarrow> writeActionError err | Inr res \<Rightarrow> writeActionResult res)"

section \<open>The action handlers (handlers_actions.go)\<close>

record 'w Server =
  sv_store :: bool
  sv_dockerClient :: bool
  sv_composeReader :: "Reader option"
  sv_orchestrator :: "actionOrchestrator option"
  sv_sweep :: "('w, unit) io option"
  sv_selfUpdater :: "spawner option"
  sv_actionsInFlightFn :: "('w \<Rightarrow> int \<times> 'w) option"

text \<open>The dependencies of \<open>NewServer\<close>; the self-update fields are set afterwards.\<close>

definition NewServer ::
  "bool \<Rightarrow> bool \<Rightarrow> Reader option \<Rightarrow> actionOrchestrator option \<Rightarrow> ('w, unit) io option \<Rightarrow> 'w Server" where
  "NewServer store dockerClient composeReader orchestrator poller =
     \<lparr>sv_store = store, sv_dockerClient = dockerClient, sv_composeReader = composeReader,
      sv_orchestrator = orchestrator, sv_sweep = poller, sv_selfUpdater = None, sv_actionsInFlightFn = None\<rparr>"

definition WireSelfUpdate :: "spawner option \<Rightarrow> ('w \<Rightarrow> int \<times> 'w) option \<Rightarrow> 'w Server \<Rightarrow> 'w Server" where
  "WireSelfUpdate sp fn s = s\<lparr>sv_selfUpdater := sp, sv_actionsInFlightFn := fn\<rparr>"

definition handleUpdate :: "'w Env \<Rightarrow> 'w Server \<Rightarrow> 'w handler" where
  "handleUpdate E s r =
     (case sv_orchestrator s of
        None \<Rightarrow> ret (writeActionBody 503 actionBodyOrchestratorUnwired)
      | Some oc \<Rightarrow>
          (case ValidateServiceName r of
             Inl bad \<Rightarrow> ret bad
           | Inr svc \<Rightarrow>
               (case CheckSelfProtection oc svc of
                  Some bad \<Rightarrow> ret bad
                | None \<Rightarrow> do {
                    found \<leftarrow> LookupContainer E svc;
                    case found of
                      None \<Rightarrow> ret (writeActionBody 404 ActionBodyContainerNotFound)
                    | Some c \<Rightarrow>
                        (case CheckSafetyLabel c ActionUpdate of
                           Some bad \<Rightarrow> ret bad
                         | None \<Rightarrow> do { res \<leftarrow> Update E oc svc; ret (respond res) }) })))"

definition handleRollback :: "'w Env \<Rightarrow> 'w Server \<Rightarrow> 'w handler" where
  "handleRollback E s r =
     (case sv_orchestrator s of
        None \<Rightarrow> ret (writeActionBody 503 actionBodyOrchestratorUnwired)
      | Some oc \<Rightarrow>
          (case ValidateServiceName r of
             Inl bad \<Rightarrow> ret bad
           | Inr svc \<Rightarrow>
               (case CheckSelfProtection oc svc of
                  Some bad \<Rightarrow> ret bad
                | None \<Rightarrow> do {
                    found \<leftarrow> LookupContainer E svc;
                    case found of
                      None \<Rightarrow> ret (writeActionBody 404 ActionBodyContainerNotFound)
                    | Some c \<Rightarrow>
                        (case CheckSafetyLabel c ActionRollback of
                           Some bad \<Rightarrow> ret bad
                         | None \<Rightarrow> do { res \<leftarrow> Rollback E oc svc; ret (respond res) }) })))"

definition handleForcePull :: "'w Env \<Rightarrow> 'w Server \<Rightarrow> 'w handler" where
  "handleForcePull E s r =
     (case sv_orchestrator s of
        None \<Rightarrow> ret (writeActionBody 503 actionBodyOrchestratorUnwired)
      | Some oc \<Rightarrow>
          (case ValidateServiceName r of
             Inl bad \<Rightarrow> ret bad
           | Inr svc \<Rightarrow>
               (case CheckSelfProtection oc svc of
                  Some bad \<Rightarrow> ret bad
                | None \<Rightarrow> do {
                    found \<leftarrow> LookupContainer E svc;
                    case found of
                      None \<Rightarrow> ret (writeActionBody 404 ActionBodyContainerNotFound)
                    | Some c \<Rightarrow>
                        (let recreate = (rq_recreate r = ''true'')
                         in case (if recreate then CheckSafetyLabel c ActionUpdate else None) of
                              Some bad \<Rightarrow> ret bad
                            | None \<Rightarrow> do { res \<leftarrow> ForcePull E oc svc recreate; ret (respond res) }) })))"


section \<open>The manual poll (handlers_poll.go)\<close>

definition pollBodyOK :: string where
  "pollBodyOK = ''{\"polled\":true}''"

definition pollBodyUnwired :: string where
  "pollBodyUnwired =
     ''{\"error\":\"poller_not_wired\",\"detail\":\"restart docker-update; check boot logs for poll.NewPoller errors\"}''"

definition pollBodyFailed :: string where
  "pollBodyFailed = ''{\"error\":\"poll_failed\",\"detail\":\"see logs for poll.manual.sweep.err event\"}''"

text \<open>\<open>cronPoller.Sweep\<close>: the private sweep, then the error of the context.\<close>

definition Sweep :: "'w Env \<Rightarrow> ('w, unit) io \<Rightarrow> ('w, go_error option) io" where
  "Sweep E sweep = do { sweep; cancelled \<leftarrow> observe (ctx_done E); ret (if cancelled then Some ctx_err else None) }"

definition handlePollNow :: "'w Env \<Rightarrow> 'w Server \<Rightarrow> 'w handler" where
  "handlePollNow E s r =
     (case sv_sweep s of
        None \<Rightarrow> ret (writeActionBody 503 pollBodyUnwired)
      | Some sweep \<Rightarrow> do {
          e \<leftarrow> Sweep E sweep;
          case e of
            Some err \<Rightarrow> ret (writeActionBody 500 pollBodyFailed)
          | None \<Rightarrow> ret (writeActionBody 200 pollBodyOK) })"

section \<open>The self update (handlers_self.go)\<close>

definition actionBodySelfUpdaterUnwired :: string where
  "actionBodySelfUpdaterUnwired =
     ''{\"error\":\"self_updater_not_wired\",\"detail\":\"restart docker-update; check boot logs\"}''"

definition actionBodySelfUpdateFailed :: string where
  "actionBodySelfUpdateFailed =
     ''{\"error\":\"self_update_failed\",\"detail\":\"see logs for self_update.spawn_failed event\"}''"

definition actionBodyActionsInFlight :: string where
  "actionBodyActionsInFlight =
     ''{\"error\":\"actions_in_flight\",\"detail\":\"wait for in-flight actions to complete\"}''"

definition actionBodySelfUpdateBusy :: string where
  "actionBodySelfUpdateBusy =
     ''{\"error\":\"self_update_in_flight\",\"detail\":\"a self-update is already running\"}''"

definition helper_spawned_body :: "string \<Rightarrow> string" where
  "helper_spawned_body helperID = ''{\"status\":\"helper_spawned\",\"helper_id\":\"'' @ helperID @ ''\"}''"

definition spawn_response :: "string result \<Rightarrow> Response" where
  "spawn_response res =
     (case res of
        Inl err \<Rightarrow>
          if errors_Is err ErrActionsInFlight then writeActionBody 409 actionBodyActionsInFlight
          else if errors_Is err ErrSelfUpdateInFlight then writeActionBody 409 actionBodySelfUpdateBusy
          else writeActionBody 500 actionBodySelfUpdateFailed
      | Inr helperID \<Rightarrow> writeActionBody 202 (helper_spawned_body helperID))"

text \<open>The flag of the spawner goes in and comes back with the response.\<close>

definition handleSelfUpdate ::
  "'w Env \<Rightarrow> 'w Server \<Rightarrow> bool \<Rightarrow> Request \<Rightarrow> ('w, Response \<times> bool) io" where
  "handleSelfUpdate E s inFlight r =
     (case sv_selfUpdater s of
        None \<Rightarrow> ret (writeActionBody 503 actionBodySelfUpdaterUnwired, inFlight)
      | Some sp \<Rightarrow> do {
          n \<leftarrow> (case sv_actionsInFlightFn s of None \<Rightarrow> ret 0 | Some fn \<Rightarrow> observe fn);
          if n > 0 then ret (writeActionBody 409 actionBodyActionsInFlight, inFlight)
          else do {
            (res, flag) \<leftarrow> Spawn E (sv_actionsInFlightFn s) sp inFlight;
            ret (spawn_response res, flag) } })"

section \<open>Health and state (handlers.go)\<close>

definition dockerSocketPath :: "(string \<Rightarrow> string) \<Rightarrow> string" where
  "dockerSocketPath getenv =
     (let v = getenv ''DOCKER_UPDATE_DOCKER_HOST'' in if v \<noteq> '''' then v else ''/var/run/docker.sock'')"

text \<open>The em dash is three bytes of UTF-8.\<close>

definition em_dash :: string where
  "em_dash = [CHR 0xE2, CHR 0x80, CHR 0x94]"

definition healthzBodyOK :: string where
  "healthzBodyOK = ''{\"status\":\"ok\"}''"

definition healthzBodySocketEACCES :: string where
  "healthzBodySocketEACCES =
     ''{\"status\":\"unhealthy\",\"reason\":\"docker socket permission denied '' @ em_dash
     @ '' set compose user: '' @ [CHR 0x27] @ ''65532:$(id -g docker)'' @ [CHR 0x27] @ '' (Pitfall 9)\"}''"

definition healthzBodySocketMissing :: string where
  "healthzBodySocketMissing =
     ''{\"status\":\"unhealthy\",\"reason\":\"docker socket missing '' @ em_dash
     @ '' add bind-mount '' @ [CHR 0x27] @ ''/var/run/docker.sock:/var/run/docker.sock'' @ [CHR 0x27] @ ''\"}''"

definition healthzBodyDaemonUnreach :: string where
  "healthzBodyDaemonUnreach = ''{\"status\":\"unhealthy\",\"reason\":\"docker daemon unreachable\"}''"

definition healthzBodyStateUnwired :: string where
  "healthzBodyStateUnwired =
     ''{\"status\":\"unhealthy\",\"reason\":\"state store unavailable; check DOCKER_UPDATE_STATE_PATH and restart\"}''"

definition healthzBodyClientUnwired :: string where
  "healthzBodyClientUnwired =
     ''{\"status\":\"unhealthy\",\"reason\":\"docker client not wired '' @ em_dash
     @ '' restart docker-update; if this persists, check boot logs for docker.NewClient errors\"}''"

text \<open>Lower case as far as ASCII goes, which is all the two phrases and the daemon's texts need.\<close>

definition looksLikeSocketEACCES :: "go_error \<Rightarrow> bool" where
  "looksLikeSocketEACCES err \<longleftrightarrow>
     (let s = map to_lower (err_text err)
      in Contains s ''connect: permission denied'' \<or> Contains s ''operation not permitted'')"

definition uncached :: "nat \<Rightarrow> body \<Rightarrow> Response" where
  "uncached status b =
     \<lparr>rp_Status = status,
      rp_Header = [(''Content-Type'', ''application/json; charset=utf-8''), (''Cache-Control'', ''no-store'')],
      rp_Body = b\<rparr>"

definition stat_body :: "go_error \<Rightarrow> string" where
  "stat_body err =
     (if errors_Is err FsErrNotExist then healthzBodySocketMissing
      else if errors_Is err FsErrPermission then healthzBodySocketEACCES
      else healthzBodyDaemonUnreach)"

definition ping_body :: "go_error \<Rightarrow> string" where
  "ping_body err =
     (if errors_Is err SysEACCES \<or> errors_Is err SysEPERM \<or> looksLikeSocketEACCES err
      then healthzBodySocketEACCES else healthzBodyDaemonUnreach)"

definition healthz :: "'w Env \<Rightarrow> (string \<Rightarrow> string) \<Rightarrow> 'w Server \<Rightarrow> 'w handler" where
  "healthz E getenv s r =
     (if \<not> sv_store s then ret (uncached 503 (Text healthzBodyStateUnwired))
      else do {
        _ \<leftarrow> observe (env_store E);
        if \<not> sv_dockerClient s then ret (uncached 503 (Text healthzBodyClientUnwired))
        else do {
          st \<leftarrow> observe (os_Stat E (dockerSocketPath getenv));
          case st of
            Inl err \<Rightarrow> ret (uncached 503 (Text (stat_body err)))
          | Inr _ \<Rightarrow> do {
              e \<leftarrow> Ping E;
              case e of
                Some err \<Rightarrow> ret (uncached 503 (Text (ping_body err)))
              | None \<Rightarrow> ret (uncached 200 (Text healthzBodyOK)) } } })"

text \<open>
  A nil store is a nil pointer dereference, which ends the request without a response. A
  document that does not encode leaves the body empty, with the status already chosen.
\<close>

definition getState :: "'w Env \<Rightarrow> 'w Server \<Rightarrow> Request \<Rightarrow> ('w, Response option) io" where
  "getState E s r =
     (if \<not> sv_store s then ret None
      else do {
        st \<leftarrow> observe (env_store E);
        ret (Some (uncached 200 (case state_json (env_zone E) st of Inr j \<Rightarrow> Json j | Inl _ \<Rightarrow> Text []))) })"

section \<open>The debug endpoint (debug_compose.go)\<close>

definition debugComposeStat :: "'w Env \<Rightarrow> (Time \<Rightarrow> string) \<Rightarrow> 'w Server \<Rightarrow> 'w handler" where
  "debugComposeStat E fmt s r =
     (case sv_composeReader s of
        None \<Rightarrow> ret (uncached 503 (Text ''{\"error\":\"compose_reader_unwired\"}''))
      | Some rd \<Rightarrow> do {
          e \<leftarrow> CheckUnchanged E fmt rd;
          case e of
            None \<Rightarrow> ret (uncached 200 (Text ''{\"status\":\"ok\"}''))
          | Some err \<Rightarrow>
              if errors_Is err ErrComposeFileMoved then ret (uncached 412 (Text ActionBodyComposeFileMoved))
              else ret (uncached 500 (Text ''{\"error\":\"compose_stat_failed\"}'')) })"


section \<open>The shape the action handlers share\<close>

definition guarded ::
  "'w Env \<Rightarrow> 'w Server \<Rightarrow> Request \<Rightarrow> (Container \<Rightarrow> Response option) \<Rightarrow>
   (actionOrchestrator \<Rightarrow> string \<Rightarrow> ('w, ActionResult result) io) \<Rightarrow> ('w, Response) io" where
  "guarded E s r chk act =
     (case sv_orchestrator s of
        None \<Rightarrow> ret (writeActionBody 503 actionBodyOrchestratorUnwired)
      | Some oc \<Rightarrow>
          (case ValidateServiceName r of
             Inl bad \<Rightarrow> ret bad
           | Inr svc \<Rightarrow>
               (case CheckSelfProtection oc svc of
                  Some bad \<Rightarrow> ret bad
                | None \<Rightarrow> do {
                    found \<leftarrow> LookupContainer E svc;
                    case found of
                      None \<Rightarrow> ret (writeActionBody 404 ActionBodyContainerNotFound)
                    | Some c \<Rightarrow>
                        (case chk c of
                           Some bad \<Rightarrow> ret bad
                         | None \<Rightarrow> do { res \<leftarrow> act oc svc; ret (respond res) }) })))"

text \<open>The label check a request has to pass, and the action it then runs.\<close>

datatype endpoint = PostUpdate | PostRollback | PostForcePull

fun endpoint_check :: "endpoint \<Rightarrow> Request \<Rightarrow> Container \<Rightarrow> Response option" where
  "endpoint_check PostUpdate r c = CheckSafetyLabel c ActionUpdate"
| "endpoint_check PostRollback r c = CheckSafetyLabel c ActionRollback"
| "endpoint_check PostForcePull r c = (if rq_recreate r = ''true'' then CheckSafetyLabel c ActionUpdate else None)"

fun endpoint_action ::
  "endpoint \<Rightarrow> 'w Env \<Rightarrow> Request \<Rightarrow> actionOrchestrator \<Rightarrow> string \<Rightarrow> ('w, ActionResult result) io" where
  "endpoint_action PostUpdate E r oc svc = Update E oc svc"
| "endpoint_action PostRollback E r oc svc = Rollback E oc svc"
| "endpoint_action PostForcePull E r oc svc = ForcePull E oc svc (rq_recreate r = ''true'')"

fun handle :: "endpoint \<Rightarrow> 'w Env \<Rightarrow> 'w Server \<Rightarrow> 'w handler" where
  "handle PostUpdate = handleUpdate"
| "handle PostRollback = handleRollback"
| "handle PostForcePull = handleForcePull"

lemma handle_guarded: "handle ep E s r = guarded E s r (endpoint_check ep r) (endpoint_action ep E r)"
  by (cases ep) (simp_all only: handle.simps endpoint_check.simps endpoint_action.simps
    handleUpdate_def handleRollback_def handleForcePull_def guarded_def Let_def)

text \<open>What lets a request through, at the row the store shows.\<close>

definition admitted :: "endpoint \<Rightarrow> 'w Server \<Rightarrow> Request \<Rightarrow> AppState \<Rightarrow> actionOrchestrator \<Rightarrow> Container \<Rightarrow> bool" where
  "admitted ep s r st oc c \<longleftrightarrow>
     sv_orchestrator s = Some oc \<and> serviceNameRegex (rq_service r) \<and> rq_service r \<noteq> oc_selfService oc \<and>
     Containers st (rq_service r) = Some c \<and> endpoint_check ep r c = None"

definition refusals :: "Response set" where
  "refusals =
     {writeActionBody 503 actionBodyOrchestratorUnwired, writeActionBody 400 ActionBodyInvalidServiceName,
      writeActionBody 409 ActionBodySelfProtection, writeActionBody 404 ActionBodyContainerNotFound,
      writeActionBody 409 ActionBodyActionDisabledUpdate, writeActionBody 409 ActionBodyActionDisabledRollback}"

lemma CheckSafetyLabel_refuses: "CheckSafetyLabel c a = Some bad \<Longrightarrow> bad \<in> refusals"
  unfolding CheckSafetyLabel_def refusals_def by (cases a) (simp_all only: Action.case split: if_splits, simp_all)

lemma endpoint_check_refuses: "endpoint_check ep r c = Some bad \<Longrightarrow> bad \<in> refusals"
  by (cases ep) (simp_all only: endpoint_check.simps split: if_splits, auto intro: CheckSafetyLabel_refuses)

text \<open>The world after the store was read.\<close>

definition after_read :: "'w Env \<Rightarrow> 'w World \<Rightarrow> 'w World" where
  "after_read E w = w\<lparr>ext := snd (env_store E (ext w))\<rparr>"

lemma trace_after_read [simp]: "trace (after_read E w) = trace w"
  by (simp add: after_read_def)

lemma run_LookupContainer:
  "run_state (LookupContainer E svc) w = (Containers (fst (env_store E (ext w))) svc, after_read E w)"
  by (simp add: LookupContainer_def after_read_def split: prod.splits)

text \<open>A request is refused without an effect, or it is admitted and the response is that of the action.\<close>

lemma handle_cases:
  assumes "run_state (handle ep E s r) w = (resp, w')"
  obtains (refused) "trace w' = trace w" and "resp \<in> refusals"
      and "\<And>oc c. \<not> admitted ep s r (fst (env_store E (ext w))) oc c"
    | (ran) oc c res where "admitted ep s r (fst (env_store E (ext w))) oc c"
      and "run_state (endpoint_action ep E r oc (rq_service r)) (after_read E w) = (res, w')"
      and "resp = respond res"
proof -
  note run = assms [unfolded handle_guarded guarded_def ValidateServiceName_def CheckSelfProtection_def Let_def]
  show thesis
  proof (cases "\<exists>oc c. admitted ep s r (fst (env_store E (ext w))) oc c")
    case True
    then obtain oc c where ad: "admitted ep s r (fst (env_store E (ext w))) oc c" by blast
    from ad run have "\<exists>res. run_state (endpoint_action ep E r oc (rq_service r)) (after_read E w) = (res, w')
        \<and> resp = respond res"
      by (auto simp: admitted_def run_LookupContainer split: prod.splits)
    with ad ran show thesis by blast
  next
    case False
    from False run have "trace w' = trace w \<and> resp \<in> refusals"
      by (auto simp: admitted_def run_LookupContainer refusals_def split: option.splits if_splits
          dest: endpoint_check_refuses)
    with False refused show thesis by blast
  qed
qed


section \<open>What the handlers rely on in an action\<close>

text \<open>
  The contract of an action: it has no effect, or everything it does happens between
  the lock and the unlock of the service it was called for.
\<close>

locale locked_action =
  fixes act :: "actionOrchestrator \<Rightarrow> string \<Rightarrow> ('w, ActionResult result) io"
  assumes locked: "ensures (act oc svc) (bracketed svc (\<lambda>_ es. \<forall>e \<in> set es. unlocked e))"
begin

lemma request_locked:
  "ensures (guarded E s r chk act) (\<lambda>_ es. es = [] \<or>
     (\<exists>mid. es = [ELock (rq_service r)] @ mid @ [EUnlock (rq_service r)] \<and> (\<forall>e \<in> set mid. unlocked e)))"
proof -
  have act: "ensures (act oc svc) (\<lambda>_ es. es = [] \<or>
      (\<exists>mid. es = [ELock svc] @ mid @ [EUnlock svc] \<and> (\<forall>e \<in> set mid. unlocked e)))" for oc svc
    by (rule ensures_weaken [OF locked]) (auto simp: bracketed_def)
  show ?thesis
    unfolding guarded_def ValidateServiceName_def LookupContainer_def Let_def
    by (auto intro!: emits ensures_weaken [OF act] split: if_splits)
qed

end

interpretation update: locked_action "Update E" for E
  by unfold_locales (rule Update_bracketed [OF only_bodies(1) [unfolded only_def]])

interpretation rollback: locked_action "Rollback E" for E
  by unfold_locales (rule Rollback_bracketed [OF only_bodies(2) [unfolded only_def]])

interpretation force_pull: locked_action "\<lambda>oc svc. ForcePull E oc svc recreate" for E recreate
proof unfold_locales
  show "ensures (ForcePull E oc svc recreate) (bracketed svc (\<lambda>_ es. \<forall>e \<in> set es. unlocked e))" for oc svc
  proof (cases recreate)
    case True
    then show ?thesis using update.locked unfolding ForcePull_def by simp
  next
    case False
    then show ?thesis using ForcePull_bracketed [OF only_bodies(4) [unfolded only_def]] by simp
  qed
qed

text \<open>A request touches the world only under the lock of the service in its path.\<close>

lemma handle_locked:
  "ensures (handle ep E s r) (\<lambda>_ es. es = [] \<or>
     (\<exists>mid. es = [ELock (rq_service r)] @ mid @ [EUnlock (rq_service r)] \<and> (\<forall>e \<in> set mid. unlocked e)))"
proof -
  have "endpoint_action PostUpdate E r = Update E" "endpoint_action PostRollback E r = Rollback E"
    "endpoint_action PostForcePull E r = (\<lambda>oc svc. ForcePull E oc svc (rq_recreate r = ''true''))"
    by (intro ext, simp)+
  then show ?thesis
    by (cases ep) (simp_all only: handle_guarded update.request_locked rollback.request_locked
      force_pull.request_locked)
qed

section \<open>Responses\<close>

text \<open>The bodies an action response may carry besides a verify report and a result.\<close>

definition action_bodies :: "string set" where
  "action_bodies =
     {ActionBodyInvalidServiceName, ActionBodyContainerNotFound, ActionBodySelfProtection,
      ActionBodyActionDisabledUpdate, ActionBodyActionDisabledRollback, ActionBodyServiceBusy,
      ActionBodyComposeFileMoved, ActionBodyNotADowngrade, actionBodyOrchestratorUnwired, actionBodyNoPreviousDigest,
      actionBodyPullFailed, actionBodyComposeFailed, actionBodyVerifyCanceled, actionBodyVerifyFailedFallback,
      actionBodyInternal}"

definition error_statuses :: "nat set" where
  "error_statuses = {400, 404, 409, 412, 500, 503}"

definition error_response :: "Response \<Rightarrow> bool" where
  "error_response p \<longleftrightarrow> rp_Status p \<in> error_statuses \<and>
     (rp_Body p \<in> Text ` action_bodies \<or> (\<exists>d. rp_Body p = Json (verify_json d)))"

lemma error_response_text:
  "st \<in> error_statuses \<Longrightarrow> b \<in> action_bodies \<Longrightarrow> error_response (writeActionBody st b)"
  by (simp add: error_response_def writeActionBody_def)

lemma action_bodies_mem:
  "ActionBodyInvalidServiceName \<in> action_bodies" "ActionBodyContainerNotFound \<in> action_bodies"
  "ActionBodySelfProtection \<in> action_bodies" "ActionBodyActionDisabledUpdate \<in> action_bodies"
  "ActionBodyActionDisabledRollback \<in> action_bodies" "ActionBodyServiceBusy \<in> action_bodies"
  "ActionBodyComposeFileMoved \<in> action_bodies" "ActionBodyNotADowngrade \<in> action_bodies"
  "actionBodyOrchestratorUnwired \<in> action_bodies" "actionBodyNoPreviousDigest \<in> action_bodies"
  "actionBodyPullFailed \<in> action_bodies" "actionBodyComposeFailed \<in> action_bodies"
  "actionBodyVerifyCanceled \<in> action_bodies" "actionBodyVerifyFailedFallback \<in> action_bodies"
  "actionBodyInternal \<in> action_bodies"
  unfolding action_bodies_def by (simp_all only: insert_iff simp_thms)

lemma error_statuses_mem:
  "400 \<in> error_statuses" "404 \<in> error_statuses" "409 \<in> error_statuses" "412 \<in> error_statuses"
  "500 \<in> error_statuses" "503 \<in> error_statuses" "200 \<notin> error_statuses"
  by (simp_all add: error_statuses_def)

lemmas error_response_intros = error_response_text action_bodies_mem error_statuses_mem

lemma refusals_are_errors: "p \<in> refusals \<Longrightarrow> error_response p"
  unfolding refusals_def by (auto intro: error_response_intros)

lemma error_response_verify: "error_response (writeVerifyFailedBody e)"
proof (cases "errors_As e")
  case None
  then show ?thesis
    unfolding writeVerifyFailedBody_def by (simp only: option.case) (intro error_response_intros)
next
  case (Some d)
  have "error_response (writeJson 500 (verify_json d))"
    unfolding error_response_def writeJson_def using error_statuses_mem(5)
    by (simp only: Response.simps) blast
  with Some show ?thesis unfolding writeVerifyFailedBody_def by (simp only: option.case)
qed

lemma error_response_if: "error_response p \<Longrightarrow> error_response q \<Longrightarrow> error_response (if b then p else q)"
  by (cases b) (simp_all only: if_True if_False)

lemma writeActionError_is_error: "error_response (writeActionError e)"
  unfolding writeActionError_def
  by (intro error_response_if error_response_verify error_response_intros)

lemma error_response_not_ok: "error_response p \<Longrightarrow> rp_Status p \<noteq> 200"
  unfolding error_response_def using error_statuses_mem by metis

lemma writeActionResult_ok: "rp_Status (writeActionResult res) = 200"
  by (simp add: writeActionResult_def writeJson_def)

section \<open>A server with one row that is up to date\<close>

definition current_row :: Container where
  "current_row = web_row\<lparr>CurrentDigest := ''sha256:d1''\<rparr>"

definition current_env :: "unit Env" where
  "current_env = demo_env\<lparr>env_store := (\<lambda>x. (empty_state\<lparr>Containers := [''web'' \<mapsto> current_row]\<rparr>, x))\<rparr>"

definition demo_server :: "unit Server" where
  "demo_server = WireSelfUpdate (Some demo_spawner) None (NewServer True True None (Some demo_oc) None)"

lemma demo_server_fields [simp]:
  "sv_store demo_server" "sv_dockerClient demo_server" "sv_orchestrator demo_server = Some demo_oc"
  by (simp_all add: demo_server_def WireSelfUpdate_def NewServer_def)

definition web_request :: Request where
  "web_request = \<lparr>rq_Method = ''POST'', rq_Path = ''/api/containers/web/update'',
     rq_EscapedPath = ''/api/containers/web/update'', rq_RequestURI = ''/api/containers/web/update'',
     rq_Host = ''hmi'', rq_Header = Map.empty, rq_service = ''web'', rq_recreate = ''''\<rparr>"

definition noop_result :: ActionResult where
  "noop_result = \<lparr>ar_CurrentDigest = ''sha256:d1'', ar_PreviousDigest = '''', ar_NoOp = True\<rparr>"

lemma current_update:
  "run_state (Update current_env demo_oc ''web'') world0 =
     (Inr noop_result, \<lparr>ext = (), trace = [ELock ''web'', EUnlock ''web'']\<rparr>)"
  by (simp add: Update_def drift_check_def demo_oc_def with_lock_def snapshot_of_def current_env_def demo_env_def
      world0_def current_row_def web_row_def zero_container_def noop_result_def)

lemma current_admitted: "admitted PostUpdate demo_server web_request (fst (env_store current_env (ext world0))) demo_oc current_row"
  by (simp add: admitted_def web_request_def serviceNameRegex_def service_char_def is_lower_def
      is_upper_def is_digit_def demo_oc_def current_env_def CheckSafetyLabel_def current_row_def web_row_def
      zero_container_def label_def)

lemma current_request:
  "run_state (handle PostUpdate current_env demo_server web_request) world0 =
     (writeActionResult noop_result, \<lparr>ext = (), trace = [ELock ''web'', EUnlock ''web'']\<rparr>)"
proof (cases "run_state (handle PostUpdate current_env demo_server web_request) world0" rule: prod.exhaust)
  case (Pair resp w')
  then show ?thesis
  proof (cases rule: handle_cases)
    case refused
    with current_admitted show ?thesis by blast
  next
    case (ran oc c res)
    have "oc = demo_oc" using ran(1) current_admitted unfolding admitted_def by simp
    moreover have "after_read current_env world0 = world0" by (simp add: after_read_def world0_def)
    moreover have "rq_service web_request = ''web''" by (simp add: web_request_def)
    ultimately have "(Inr noop_result, \<lparr>ext = (), trace = [ELock ''web'', EUnlock ''web'']\<rparr>) = (res, w')"
      using ran(2) current_update unfolding endpoint_action.simps by metis
    with ran(3) Pair show ?thesis by (auto simp: respond_def)
  qed
qed

section \<open>Properties\<close>

text \<open>
  C9. The guards of the action endpoints hold against every store and every daemon: if
  an update, rollback or force-pull request has any effect at all, then the
  service name is in the allowed alphabet, it is not the service the daemon runs as,
  the store has a row for it, and the label of that row does not forbid the action
  (allow-update for an update and for a force pull that recreates, allow-rollback
  for a rollback).
\<close>
theorem effects_need_admission:
  assumes "run_state (handle ep E s r) w = (resp, w')" and "trace w' \<noteq> trace w"
  shows "\<exists>oc c. sv_orchestrator s = Some oc \<and> rq_service r \<noteq> '''' \<and> list_all service_char (rq_service r) \<and>
    rq_service r \<noteq> oc_selfService oc \<and> Containers (fst (env_store E (ext w))) (rq_service r) = Some c \<and>
    (case ep of
       PostUpdate \<Rightarrow> label c ''hmi-update.allow-update'' \<noteq> ''false''
     | PostRollback \<Rightarrow> label c ''hmi-update.allow-rollback'' \<noteq> ''false''
     | PostForcePull \<Rightarrow> rq_recreate r = ''true'' \<longrightarrow> label c ''hmi-update.allow-update'' \<noteq> ''false'')"
  using assms(1)
proof (cases rule: handle_cases)
  case refused
  with assms(2) show ?thesis by blast
next
  case (ran oc c res)
  from ran(1) have "endpoint_check ep r c = None" unfolding admitted_def by blast
  then have "case ep of
       PostUpdate \<Rightarrow> label c ''hmi-update.allow-update'' \<noteq> ''false''
     | PostRollback \<Rightarrow> label c ''hmi-update.allow-rollback'' \<noteq> ''false''
     | PostForcePull \<Rightarrow> rq_recreate r = ''true'' \<longrightarrow> label c ''hmi-update.allow-update'' \<noteq> ''false''"
    by (cases ep) (auto simp only: endpoint_check.simps CheckSafetyLabel_def Action.case endpoint.case if_True
      option.distinct split: if_splits)
  with ran(1) show ?thesis unfolding admitted_def serviceNameRegex_def by blast
qed

theorem effects_need_admission_witness:
  "\<exists>oc c. sv_orchestrator demo_server = Some oc \<and> rq_service web_request \<noteq> oc_selfService oc \<and>
     Containers (fst (env_store current_env (ext world0))) (rq_service web_request) = Some c \<and>
     label c ''hmi-update.allow-update'' \<noteq> ''false''"
  using effects_need_admission [OF current_request] by (force simp: world0_def)

text \<open>
  C10. An action endpoint answers 200 exactly when the request was admitted and the action
  returned a result, and then the body is that result. Every other response has an
  error status and its body is one of the fixed texts or the verify report, so an
  error text of the pull, the recreate, the registry or the file system never
  reaches the client; the reason of the verify report is the only free text.
\<close>
theorem action_responses:
  assumes "run_state (handle ep E s r) w = (resp, w')"
  shows "(rp_Status resp = 200 \<longleftrightarrow>
      (\<exists>oc c res. admitted ep s r (fst (env_store E (ext w))) oc c \<and> resp = writeActionResult res \<and>
         run_state (endpoint_action ep E r oc (rq_service r)) (after_read E w) = (Inr res, w'))) \<and>
    (rp_Status resp \<noteq> 200 \<longrightarrow> rp_Status resp \<in> {400, 404, 409, 412, 500, 503} \<and>
      (rp_Body resp \<in> Text ` action_bodies \<or> (\<exists>d. rp_Body resp = Json (verify_json d))))"
  using assms
proof (cases rule: handle_cases)
  case refused
  with refusals_are_errors [of resp] error_response_not_ok [of resp] show ?thesis
    unfolding error_response_def error_statuses_def by metis
next
  case (ran oc c res)
  show ?thesis
  proof (cases res)
    case (Inl e)
    with ran(3) have "error_response resp" unfolding respond_def by (simp only: sum.case writeActionError_is_error)
    moreover from ran(1,2) Inl have "\<not> (\<exists>oc c res. admitted ep s r (fst (env_store E (ext w))) oc c \<and>
        resp = writeActionResult res \<and>
        run_state (endpoint_action ep E r oc (rq_service r)) (after_read E w) = (Inr res, w'))"
      unfolding admitted_def by fastforce
    ultimately show ?thesis using error_response_not_ok [of resp]
      unfolding error_response_def error_statuses_def by metis
  next
    case (Inr a)
    with ran(3) have "resp = writeActionResult a" unfolding respond_def by (simp only: sum.case)
    with ran(1,2) Inr writeActionResult_ok show ?thesis by metis
  qed
qed

theorem action_responses_witness:
  "\<exists>oc c res. admitted PostUpdate demo_server web_request (fst (env_store current_env (ext world0))) oc c \<and>
     writeActionResult noop_result = writeActionResult res \<and>
     fst (run_state (endpoint_action PostUpdate current_env web_request oc ''web'') (after_read current_env world0)) = Inr res"
proof -
  have "rq_service web_request = ''web''" by (simp add: web_request_def)
  with action_responses [OF current_request] writeActionResult_ok [of noop_result] show ?thesis
    by (metis fst_conv)
qed

text \<open>
  The reason of that report is not only counters and durations: when the inspect
  of the verify loop fails, the text of the daemon's error is in the response.
\<close>
lemma verify_report_echoes_error:
  assumes "\<not> errors_Is err CtxCanceled"
  obtains e where "judge snap win (Inl err) = Fail e"
    and "rp_Body (writeActionError (wrap p e)) = Json (verify_json \<lparr>vd_RestartCount = 0, vd_Running = False,
      vd_ContainerID = vs_ContainerID snap, vd_Reason = ''ContainerInspect failed: '' @ err_text err\<rparr>)"
proof -
  let ?d = "\<lparr>vd_RestartCount = 0, vd_Running = False, vd_ContainerID = vs_ContainerID snap,
    vd_Reason = ''ContainerInspect failed: '' @ err_text err\<rparr>"
  have judged: "judge snap win (Inl err) = Fail (verify_failed ?d)"
    using assms by (simp only: judge_def sum.case if_False)
  have chain: "errors_Is (wrap p (verify_failed d)) s \<longleftrightarrow> s = ErrVerifyFailed" for d s
    by (auto simp: verify_failed_def VerifyDetail_Error_def errors_Is_def wrap_def wrap2_def sentinel_error_def)
  have "writeActionError (wrap p (verify_failed ?d)) = writeVerifyFailedBody (wrap p (verify_failed ?d))"
    unfolding writeActionError_def chain by (simp only: sentinel.distinct if_False if_True simp_thms)
  also have "\<dots> = writeJson 500 (verify_json ?d)"
    unfolding writeVerifyFailedBody_def by (simp only: errors_As_simps verify_error_class option.case)
  finally have "rp_Body (writeActionError (wrap p (verify_failed ?d))) = Json (verify_json ?d)"
    unfolding writeJson_def by (simp only: Response.select_convs)
  with judged that show thesis by blast
qed

text \<open>What the stat of the socket answers after the store was read.\<close>

definition socket_stat :: "'w Env \<Rightarrow> (string \<Rightarrow> string) \<Rightarrow> 'w World \<Rightarrow> FileInfo result \<times> 'w" where
  "socket_stat E getenv w = os_Stat E (dockerSocketPath getenv) (snd (env_store E (ext w)))"

text \<open>
  C38. The health endpoint answers 200 exactly when the store and the daemon client are
  wired, the socket can be stat'ed and the daemon answers the ping; otherwise it
  answers 503. The body is one of the six fixed texts and is the ok text exactly with
  200; the only effect on the daemon is at most one ping.
\<close>
theorem healthz_exact:
  assumes "run_state (healthz E getenv s r) w = (resp, w')"
  shows "(rp_Status resp = 200 \<longleftrightarrow>
      sv_store s \<and> sv_dockerClient s \<and> \<not> isl (fst (socket_stat E getenv w)) \<and>
      fst (sdk_Ping E (snd (socket_stat E getenv w))) = None) \<and>
    rp_Status resp \<in> {200, 503} \<and> (rp_Status resp = 200 \<longleftrightarrow> rp_Body resp = Text healthzBodyOK) \<and>
    rp_Body resp \<in> Text ` {healthzBodyOK, healthzBodySocketEACCES, healthzBodySocketMissing,
      healthzBodyDaemonUnreach, healthzBodyStateUnwired, healthzBodyClientUnwired} \<and>
    trace w' \<in> {trace w, trace w @ [EPing]}"
proof -
  have neq: "healthzBodyOK \<noteq> healthzBodySocketEACCES" "healthzBodyOK \<noteq> healthzBodySocketMissing"
    "healthzBodyOK \<noteq> healthzBodyDaemonUnreach" "healthzBodyOK \<noteq> healthzBodyStateUnwired"
    "healthzBodyOK \<noteq> healthzBodyClientUnwired"
    by (simp_all add: healthzBodyOK_def healthzBodySocketEACCES_def healthzBodySocketMissing_def
        healthzBodyDaemonUnreach_def healthzBodyStateUnwired_def healthzBodyClientUnwired_def)
  have stat: "stat_body e \<in> {healthzBodySocketEACCES, healthzBodySocketMissing, healthzBodyDaemonUnreach}" for e
    by (simp add: stat_body_def)
  have ping: "ping_body e \<in> {healthzBodySocketEACCES, healthzBodyDaemonUnreach}" for e
    by (simp add: ping_body_def)
  have ne: "stat_body e \<noteq> healthzBodyOK" "ping_body e \<noteq> healthzBodyOK" for e
    using stat [of e] ping [of e] neq by auto
  show ?thesis
    using assms ne neq unfolding healthz_def Ping_def socket_stat_def
    by (auto simp: uncached_def split: if_splits prod.splits sum.splits option.splits)
       (use stat ping in \<open>metis insertE singletonD\<close>)+
qed


theorem healthz_exact_witness:
  "rp_Status (fst (run_state (healthz demo_env (\<lambda>_. '''') demo_server web_request) world0)) = 200 \<and>
   rp_Status (fst (run_state (healthz demo_env (\<lambda>_. '''') (demo_server\<lparr>sv_store := False\<rparr>) web_request) world0)) = 503"
proof -
  have ok: "\<not> isl (fst (socket_stat demo_env getenv world0))"
    "fst (sdk_Ping demo_env (snd (socket_stat demo_env getenv world0))) = None" for getenv
    by (simp_all add: socket_stat_def demo_env_def)
  have wired: "sv_store demo_server" "sv_dockerClient demo_server" "\<not> sv_store (demo_server\<lparr>sv_store := False\<rparr>)"
    by simp_all
  show ?thesis
    using healthz_exact [OF prod.collapse [symmetric], of demo_env "\<lambda>_. ''''" demo_server web_request world0]
      healthz_exact [OF prod.collapse [symmetric], of demo_env "\<lambda>_. ''''" "demo_server\<lparr>sv_store := False\<rparr>"
        web_request world0] ok wired
    by (metis insertE singletonD)
qed

text \<open>The responses to a sequence of self-update requests; the flag goes from one to the next.\<close>

fun serve_self :: "'w Env \<Rightarrow> 'w Server \<Rightarrow> bool \<Rightarrow> Request list \<Rightarrow> ('w, Response list \<times> bool) io" where
  "serve_self E s flag [] = ret ([], flag)"
| "serve_self E s flag (r # rs) = do {
     (p, flag1) \<leftarrow> handleSelfUpdate E s flag r;
     (ps, flag2) \<leftarrow> serve_self E s flag1 rs;
     ret (p # ps, flag2) }"

definition helpers_started :: "effect list \<Rightarrow> nat" where
  "helpers_started es =
     length (filter (\<lambda>e. \<exists>i. e = EContainerStart i) es) - length (filter (\<lambda>e. \<exists>i. e = EContainerRemove i) es)"

definition accepted :: "Response list \<Rightarrow> nat" where
  "accepted ps = length (filter (\<lambda>p. rp_Status p = 202) ps)"

text \<open>What one request does to the flag, to the response and to the helpers.\<close>

definition self_step :: "bool \<Rightarrow> Response \<times> bool \<Rightarrow> effect list \<Rightarrow> bool" where
  "self_step flag = (\<lambda>(p, flag') es.
     flag' = (flag \<or> rp_Status p = 202) \<and> (rp_Status p = 202 \<longrightarrow> \<not> flag) \<and>
     length (filter (\<lambda>e. \<exists>i. e = EContainerStart i) es) =
       length (filter (\<lambda>e. \<exists>i. e = EContainerRemove i) es) + (if rp_Status p = 202 then 1 else 0))"

lemma status_of_body [simp]: "rp_Status (writeActionBody st b) = st"
  by (simp add: writeActionBody_def)

lemma spawn_response_status: "rp_Status (spawn_response res) = 202 \<longleftrightarrow> \<not> isl res"
  by (cases res) (simp_all add: spawn_response_def)

lemma spawn_outcome_step:
  assumes "spawn_outcome sp flag (res, flag') es"
  shows "self_step flag (spawn_response res, flag') es"
  using assms unfolding spawn_outcome_def self_step_def prod.case spawn_response_status
  by (elim disjE conjE exE) (auto simp: isl_def)

lemma handleSelfUpdate_step: "ensures (handleSelfUpdate E s flag r) (self_step flag)"
proof -
  have refuse: "self_step flag (writeActionBody st b, flag) []" if "st \<noteq> 202" for st b
    using that by (simp add: self_step_def)
  have spawn: "ensures (Spawn E fn sp flag) (\<lambda>a es. ensures (case a of (res, f) \<Rightarrow> ret (spawn_response res, f))
      (\<lambda>b es'. self_step flag b (es @ es')))" for fn sp
    by (rule ensures_weaken [OF Spawn_emits]) (auto intro!: emits dest: spawn_outcome_step)
  show ?thesis
    unfolding handleSelfUpdate_def
    by (intro ensures_case_option ensures_bind ensures_if ensures_return ensures_observe
        ensures_weaken [OF spawn]) (simp_all add: refuse)
qed

lemma serve_self_steps:
  "ensures (serve_self E s flag rs) (\<lambda>(ps, flag') es.
     flag' = (flag \<or> 0 < accepted ps) \<and> (flag \<longrightarrow> accepted ps = 0) \<and> accepted ps \<le> 1 \<and>
     length (filter (\<lambda>e. \<exists>i. e = EContainerStart i) es) =
       length (filter (\<lambda>e. \<exists>i. e = EContainerRemove i) es) + accepted ps)"
proof (induction rs arbitrary: flag)
  case Nil
  show ?case by (auto intro!: emits simp: accepted_def)
next
  case (Cons r rs)
  show ?case
    unfolding serve_self.simps
    apply (rule ensures_bind, rule ensures_weaken [OF handleSelfUpdate_step])
    apply (rule ensures_case_prod, rule ensures_bind, rule ensures_weaken [OF Cons.IH])
    apply (rule ensures_case_prod, rule ensures_return)
    apply (auto simp: self_step_def accepted_def split: if_splits)
    done
qed

text \<open>
  However often the self update is requested, and whatever the daemon answers, at
  most one request of the process is accepted with 202, and the number of helper
  containers that were started and not removed again is the number of accepted
  requests: the flag never lets a second helper run.
\<close>
theorem one_helper_at_most:
  assumes "run_state (serve_self E s False rs) w = ((ps, flag), w')"
  shows "accepted ps \<le> 1 \<and> (flag \<longleftrightarrow> accepted ps = 1) \<and>
    (\<exists>es. trace w' = trace w @ es \<and> helpers_started es = accepted ps)"
proof -
  from ensuresD [OF serve_self_steps assms] obtain es where "trace w' = trace w @ es"
    and "flag = (0 < accepted ps)" and "accepted ps \<le> 1" and "helpers_started es = accepted ps"
    unfolding helpers_started_def by auto
  then show ?thesis by auto
qed

theorem one_helper_at_most_witness:
  "accepted (fst (fst (run_state (serve_self demo_env demo_server False [web_request, web_request]) world0))) \<le> 1"
proof -
  let ?m = "run_state (serve_self demo_env demo_server False [web_request, web_request]) world0"
  have "?m = ((fst (fst ?m), snd (fst ?m)), snd ?m)" by (simp only: prod.collapse)
  from one_helper_at_most [OF this] show ?thesis by blast
qed

text \<open>The endpoint's response, and a world whose store holds the sample document.\<close>

lemma getState_wire:
  assumes "sv_store s" and "env_store E (ext w) = (st, x)"
    and "doc_ok st" and "state_json (env_zone E) st = Inr j"
  shows "\<exists>resp. run_state (getState E s r) w = (Some resp, w\<lparr>ext := x\<rparr>) \<and> rp_Status resp = 200 \<and>
    Option.bind (parse_json (body_bytes (rp_Body resp))) read_api_state = Some (to_api_state st)"
  using assms wire_types_agree [OF assms(3,4), of None]
  by (simp add: getState_def uncached_def body_bytes_def)

definition sample_env :: "unit Env" where
  "sample_env = demo_env\<lparr>env_store := (\<lambda>x. (sample_doc, x)), env_zone := (\<lambda>_. 0)\<rparr>"

text \<open>
  C39. What the state endpoint sends is the document in the wire types: \<open>GET /api/state\<close>
  answers 200 with a body that decodes, by the tags of types.go, into the structs of
  types.go with the stored value in every field, for every row; the request has no
  effect. A document that does not encode, because a time is out of the range of its
  text, is answered 200 with an empty body.
\<close>
theorem state_endpoint:
  assumes "sv_store s" and "env_store E (ext w) = (st, x)" and "doc_ok st"
  shows "\<exists>resp. run_state (getState E s r) w = (Some resp, w\<lparr>ext := x\<rparr>) \<and> rp_Status resp = 200 \<and>
    (if isl (state_json (env_zone E) st) then body_bytes (rp_Body resp) = []
     else Option.bind (parse_json (body_bytes (rp_Body resp))) read_api_state = Some (to_api_state st))"
proof (cases "state_json (env_zone E) st")
  case (Inl e)
  with assms show ?thesis by (simp add: getState_def uncached_def body_bytes_def)
next
  case (Inr j)
  with getState_wire [OF assms, of j r] show ?thesis by simp
qed

theorem state_endpoint_witness:
  "\<exists>resp. run_state (getState sample_env demo_server web_request) world0 = (Some resp, world0\<lparr>ext := ()\<rparr>) \<and> rp_Status resp = 200 \<and>
    Option.bind (parse_json (body_bytes (rp_Body resp))) read_api_state = Some (to_api_state sample_doc)"
proof -
  have "env_store sample_env (ext world0) = (sample_doc, ext world0)" by (simp add: sample_env_def)
  from state_endpoint [OF demo_server_fields(1) this sample_doc_ok, of web_request] show ?thesis
    by (simp add: sample_env_def sample_doc_json)
qed

end
