(* ===== verification/Static.thy ===== *)
theory Static
  imports Http "HOL-Library.AList"
begin

text \<open>
  \<open>internal/api/static.go\<close>: the handler of the embedded user interface and the response
  writer that marks a served asset as immutable. The file server of the standard
  library over the embedded files is a parameter: for a request, the calls it makes
  on the response writer, in order.
\<close>

section \<open>The response writer of the library\<close>

datatype writer_call = SetHeader string string | DelHeader string | WriteHeader nat | Write string

text \<open>\<open>wr_sent\<close> is the status and the header that went out with it.\<close>

record writer =
  wr_Header :: "(string \<times> string) list"
  wr_sent :: "(nat \<times> (string \<times> string) list) option"
  wr_body :: string

definition new_writer :: writer where
  "new_writer = \<lparr>wr_Header = [], wr_sent = None, wr_body = ''''\<rparr>"

definition send_header :: "nat \<Rightarrow> writer \<Rightarrow> writer" where
  "send_header status w = (case wr_sent w of None \<Rightarrow> w\<lparr>wr_sent := Some (status, wr_Header w)\<rparr> | Some _ \<Rightarrow> w)"

fun writer_do :: "writer_call \<Rightarrow> writer \<Rightarrow> writer" where
  "writer_do (SetHeader k v) w = w\<lparr>wr_Header := AList.update k v (wr_Header w)\<rparr>"
| "writer_do (DelHeader k) w = w\<lparr>wr_Header := AList.delete k (wr_Header w)\<rparr>"
| "writer_do (WriteHeader status) w =
     (if 100 \<le> status \<and> status < 200 \<and> status \<noteq> 101 then w else send_header status w)"
| "writer_do (Write b) w = (let w' = send_header 200 w in w'\<lparr>wr_body := wr_body w' @ b\<rparr>)"

text \<open>A handler that has sent no header when it returns gets status 200.\<close>

definition finish :: "writer \<Rightarrow> Response" where
  "finish w =
     (let (status, h) = (case wr_sent w of None \<Rightarrow> (200, wr_Header w) | Some p \<Rightarrow> p)
      in \<lparr>rp_Status = status, rp_Header = h, rp_Body = Text (wr_body w)\<rparr>)"

section \<open>The immutable writer\<close>

definition assetCacheControl :: string where
  "assetCacheControl = ''public, max-age=31536000, immutable''"

definition cache_key :: string where
  "cache_key = ''Cache-Control''"

text \<open>The wrapper: its \<open>wroteHeader\<close> and the writer below it.\<close>

type_synonym immutableOnSuccessWriter = "bool \<times> writer"

fun immutable_do :: "writer_call \<Rightarrow> immutableOnSuccessWriter \<Rightarrow> immutableOnSuccessWriter" where
  "immutable_do (WriteHeader status) (wroteHeader, w) =
     (True, writer_do (WriteHeader status)
        (if \<not> wroteHeader \<and> 200 \<le> status \<and> status < 300
         then writer_do (SetHeader cache_key assetCacheControl) w else w))"
| "immutable_do (Write b) (wroteHeader, w) =
     (True, writer_do (Write b)
        (if \<not> wroteHeader then writer_do (SetHeader cache_key assetCacheControl) w else w))"
| "immutable_do c (wroteHeader, w) = (wroteHeader, writer_do c w)"

section \<open>The dispatch on the path\<close>

text \<open>\<open>path.Clean\<close>: empty and dot segments go, a double dot takes the segment before it.\<close>

fun split_slash :: "string \<Rightarrow> string list" where
  "split_slash [] = [[]]"
| "split_slash (c # s) =
     (if c = CHR ''/'' then [] # split_slash s
      else case split_slash s of [] \<Rightarrow> [[c]] | p # ps \<Rightarrow> (c # p) # ps)"

fun clean_segments :: "bool \<Rightarrow> string list \<Rightarrow> string list \<Rightarrow> string list" where
  "clean_segments rooted acc [] = rev acc"
| "clean_segments rooted acc (s # ss) =
     clean_segments rooted
       (if s = '''' \<or> s = ''.'' then acc
        else if s = ''..'' then
          (case acc of
             [] \<Rightarrow> if rooted then [] else [s]
           | a # as \<Rightarrow> if a = ''..'' then s # acc else as)
        else s # acc) ss"

fun join_slash :: "string list \<Rightarrow> string" where
  "join_slash [] = ''''"
| "join_slash [s] = s"
| "join_slash (s # ss) = s @ ''/'' @ join_slash ss"

definition path_Clean :: "string \<Rightarrow> string" where
  "path_Clean p =
     (let rooted = (take 1 p = ''/'');
          q = join_slash (clean_segments rooted [] (split_slash p))
      in if rooted then ''/'' @ q else if q = '''' then ''.'' else q)"

definition http_NotFound :: "writer_call list" where
  "http_NotFound =
     [SetHeader ''Content-Type'' ''text/plain; charset=utf-8'', SetHeader ''X-Content-Type-Options'' ''nosniff'',
      WriteHeader 404, Write (''404 page not found'' @ [CHR 0x0A])]"

definition newStaticHandler :: "(Request \<Rightarrow> writer_call list) \<Rightarrow> Request \<Rightarrow> Response" where
  "newStaticHandler fileServer r =
     (let clean = path_Clean (rq_Path r)
      in if HasPrefix clean ''/assets/'' then
           finish (snd (fold immutable_do (fileServer r) (False, new_writer)))
         else if clean = ''/'' \<or> clean = ''/index.html'' then
           finish (fold writer_do (SetHeader cache_key ''no-cache'' # fileServer (r\<lparr>rq_Path := ''/''\<rparr>)) new_writer)
         else if clean = ''/favicon.svg'' \<or> clean = ''/favicon.ico'' then
           finish (fold writer_do (SetHeader cache_key ''public, max-age=86400'' # fileServer r) new_writer)
         else finish (fold writer_do http_NotFound new_writer))"


section \<open>Lemmas\<close>

text \<open>
  What the comment of the immutable writer says of the file server: it sets no cache
  directive; and it answers every request with a final status or a body.
\<close>

definition plain_call :: "writer_call \<Rightarrow> bool" where
  "plain_call c \<longleftrightarrow>
     (case c of SetHeader k v \<Rightarrow> k \<noteq> cache_key | WriteHeader status \<Rightarrow> 200 \<le> status | _ \<Rightarrow> True)"

definition answers_plainly :: "(Request \<Rightarrow> writer_call list) \<Rightarrow> bool" where
  "answers_plainly fileServer \<longleftrightarrow> (\<forall>r. (\<forall>c \<in> set (fileServer r). plain_call c) \<and>
     (\<exists>c \<in> set (fileServer r). (\<exists>status. c = WriteHeader status) \<or> (\<exists>b. c = Write b)))"

lemma answers_plainlyD:
  assumes "answers_plainly fileServer"
  shows "\<forall>c \<in> set (fileServer r). plain_call c"
    and "\<exists>c \<in> set (fileServer r). (\<exists>status. c = WriteHeader status) \<or> (\<exists>b. c = Write b)"
  using assms unfolding answers_plainly_def by blast+

definition success :: "nat \<Rightarrow> bool" where
  "success status \<longleftrightarrow> 200 \<le> status \<and> status < 300"

text \<open>Through the wrapper: the directive is in the header that went out exactly with a success.\<close>

definition marked :: "immutableOnSuccessWriter \<Rightarrow> bool" where
  "marked = (\<lambda>(wroteHeader, w). wroteHeader = (wr_sent w \<noteq> None) \<and>
     (wr_sent w = None \<longrightarrow> map_of (wr_Header w) cache_key = None) \<and>
     (\<forall>status h. wr_sent w = Some (status, h) \<longrightarrow>
        map_of h cache_key = (if success status then Some assetCacheControl else None)))"

lemma marked_do: "marked x \<Longrightarrow> plain_call c \<Longrightarrow> marked (immutable_do c x)"
  by (cases x; cases c)
     (auto simp: marked_def plain_call_def send_header_def success_def update_conv' delete_conv' restrict_map_def
        Let_def split: if_splits option.splits)

lemma marked_fold: "marked x \<Longrightarrow> \<forall>c \<in> set cs. plain_call c \<Longrightarrow> marked (fold immutable_do cs x)"
  by (induction cs arbitrary: x) (simp_all add: marked_do)

lemma immutable_writes:
  "\<exists>c \<in> set cs. (\<exists>status. c = WriteHeader status) \<or> (\<exists>b. c = Write b) \<Longrightarrow> fst (fold immutable_do cs x)"
proof (induction cs arbitrary: x)
  case (Cons c cs)
  have keeps: "fst x \<Longrightarrow> fst (fold immutable_do ds x)" for ds x
  proof (induction ds arbitrary: x)
    case (Cons d ds)
    have "fst (immutable_do d x)" using Cons.prems by (cases x; cases d) auto
    with Cons.IH show ?case by simp
  qed simp
  show ?case
  proof (cases "(\<exists>status. c = WriteHeader status) \<or> (\<exists>b. c = Write b)")
    case True
    then have "fst (immutable_do c x)" by (cases x) auto
    with keeps show ?thesis by simp
  next
    case False
    with Cons show ?thesis by auto
  qed
qed simp

text \<open>Without the wrapper: a directive set first stays, or is deleted.\<close>

definition cached_as :: "string option \<Rightarrow> writer \<Rightarrow> bool" where
  "cached_as v w \<longleftrightarrow> map_of (wr_Header w) cache_key \<in> {None, v} \<and>
     (\<forall>status h. wr_sent w = Some (status, h) \<longrightarrow> map_of h cache_key \<in> {None, v})"

lemma cached_as_do: "cached_as v w \<Longrightarrow> plain_call c \<Longrightarrow> cached_as v (writer_do c w)"
  by (cases c)
     (auto simp: cached_as_def plain_call_def send_header_def update_conv' delete_conv' restrict_map_def Let_def
        split: if_splits option.splits)

lemma cached_as_fold: "cached_as v w \<Longrightarrow> \<forall>c \<in> set cs. plain_call c \<Longrightarrow> cached_as v (fold writer_do cs w)"
  by (induction cs arbitrary: w) (simp_all add: cached_as_do)

lemma cached_as_finish: "cached_as v w \<Longrightarrow> map_of (rp_Header (finish w)) cache_key \<in> {None, v}"
  by (auto simp: cached_as_def finish_def Let_def split: option.splits)

lemma cached_as_start: "cached_as (Some v) (writer_do (SetHeader cache_key v) new_writer)" "cached_as None new_writer"
  by (simp_all add: cached_as_def new_writer_def)

lemma marked_sent:
  assumes "marked x" and "fst x"
  obtains status h where "wr_sent (snd x) = Some (status, h)"
    and "map_of h cache_key = (if success status then Some assetCacheControl else None)"
  using assms by (cases x) (auto simp: marked_def)

lemma not_immutable:
  assumes "cached_as v w" and "\<forall>c \<in> set cs. plain_call c" and "v \<noteq> Some assetCacheControl"
  shows "map_of (rp_Header (finish (fold writer_do cs w))) cache_key \<noteq> Some assetCacheControl"
  using cached_as_finish [OF cached_as_fold [OF assms(1,2)]] assms(3) by auto

lemma other_directives: "Some ''no-cache'' \<noteq> Some assetCacheControl" "Some ''public, max-age=86400'' \<noteq> Some assetCacheControl"
  by (simp_all add: assetCacheControl_def)

section \<open>Properties\<close>

text \<open>
  A response carries the year-long immutable directive exactly when it is a successful
  answer for a path that lies under \<open>/assets/\<close> after cleaning; a miss, a redirect or
  a path that climbs out of the directory never does.
\<close>

theorem immutable_exactly_for_assets:
  assumes "answers_plainly fileServer"
  shows "map_of (rp_Header (newStaticHandler fileServer r)) ''Cache-Control'' = Some assetCacheControl \<longleftrightarrow>
    HasPrefix (path_Clean (rq_Path r)) ''/assets/'' \<and> success (rp_Status (newStaticHandler fileServer r))"
proof (cases "HasPrefix (path_Clean (rq_Path r)) ''/assets/''")
  case True
  let ?x = "fold immutable_do (fileServer r) (False, new_writer)"
  have "marked (False, new_writer)" by (simp add: marked_def new_writer_def)
  then have m: "marked ?x" by (rule marked_fold) (rule answers_plainlyD(1) [OF assms])
  have "fst ?x" by (rule immutable_writes [OF answers_plainlyD(2) [OF assms]])
  with m obtain status h where "wr_sent (snd ?x) = Some (status, h)"
    and "map_of h cache_key = (if success status then Some assetCacheControl else None)"
    by (rule marked_sent)
  moreover have "newStaticHandler fileServer r = finish (snd ?x)"
    using True unfolding newStaticHandler_def Let_def by (simp only: if_True)
  ultimately show ?thesis using True by (simp add: finish_def cache_key_def)
next
  case False
  have plain: "\<forall>c \<in> set (fileServer q). plain_call c" for q by (rule answers_plainlyD(1) [OF assms])
  have nf: "\<forall>c \<in> set http_NotFound. plain_call c" by (simp add: http_NotFound_def plain_call_def cache_key_def)
  have "map_of (rp_Header (newStaticHandler fileServer r)) cache_key \<noteq> Some assetCacheControl"
    using False unfolding newStaticHandler_def Let_def fold_simps(2)
    by (simp only: if_False split: if_split)
       (intro conjI impI not_immutable [OF cached_as_start(1) plain other_directives(1)]
          not_immutable [OF cached_as_start(1) plain other_directives(2)]
          not_immutable [OF cached_as_start(2) nf option.distinct(1)])
  with False show ?thesis by (simp only: cache_key_def simp_thms)
qed

text \<open>A file server with one asset, and the paths that climb out of the directory.\<close>

definition one_asset :: "Request \<Rightarrow> writer_call list" where
  "one_asset r = (if rq_Path r = ''/assets/app.js'' then [SetHeader ''Content-Type'' ''application/javascript'', Write ''x'']
     else http_NotFound)"

lemma one_asset_plain: "answers_plainly one_asset"
  by (auto simp: answers_plainly_def one_asset_def http_NotFound_def plain_call_def cache_key_def)

theorem immutable_exactly_for_assets_witness:
  "success (rp_Status (newStaticHandler one_asset (operator_request\<lparr>rq_Path := ''/assets/app.js''\<rparr>))) \<and>
   map_of (rp_Header (newStaticHandler one_asset (operator_request\<lparr>rq_Path := ''/assets/app.js''\<rparr>))) ''Cache-Control''
     = Some assetCacheControl \<and>
   map_of (rp_Header (newStaticHandler one_asset (operator_request\<lparr>rq_Path := ''/assets/old.js''\<rparr>))) ''Cache-Control''
     \<noteq> Some assetCacheControl \<and>
   path_Clean ''/assets/../api'' = ''/api''"
proof -
  have "success (rp_Status (newStaticHandler one_asset (operator_request\<lparr>rq_Path := ''/assets/app.js''\<rparr>)))"
    "HasPrefix (path_Clean (rq_Path (operator_request\<lparr>rq_Path := ''/assets/app.js''\<rparr>))) ''/assets/''"
    "\<not> success (rp_Status (newStaticHandler one_asset (operator_request\<lparr>rq_Path := ''/assets/old.js''\<rparr>)))"
    "path_Clean ''/assets/../api'' = ''/api''"
    by code_simp+
  then show ?thesis using immutable_exactly_for_assets [OF one_asset_plain] by metis
qed

end
