(* ===== verification/Routes.thy ===== *)
theory Routes
  imports Handlers Static
begin

text \<open>
  The route table of \<open>internal/api/server.go\<close> and the application that \<open>main.go\<close> serves:
  the multiplexer behind the basic authentication. Of \<open>http.ServeMux\<close> the table needs
  the matching of a method and of the decoded path segments; how it answers a path
  that is not in canonical form is a parameter, because that answer never reaches a
  handler.
\<close>

section \<open>Paths\<close>

text \<open>\<open>url.PathUnescape\<close>: \<open>None\<close> for a broken escape.\<close>

definition hex_value :: "char \<Rightarrow> nat option" where
  "hex_value c =
     (let n = of_char c :: nat
      in if 48 \<le> n \<and> n \<le> 57 then Some (n - 48)
         else if 97 \<le> n \<and> n \<le> 102 then Some (n - 87)
         else if 65 \<le> n \<and> n \<le> 70 then Some (n - 55)
         else None)"

fun PathUnescape :: "string \<Rightarrow> string option" where
  "PathUnescape [] = Some []"
| "PathUnescape (c # s) =
     (if c = CHR ''%'' then
        (case s of
           a # b # s' \<Rightarrow>
             (case (hex_value a, hex_value b, PathUnescape s') of
                (Some x, Some y, Some t) \<Rightarrow> Some (char_of (16 * x + y) # t)
              | _ \<Rightarrow> None)
         | _ \<Rightarrow> None)
      else map_option ((#) c) (PathUnescape s))"

text \<open>The segments the multiplexer matches: cut at the slashes first, then decoded.\<close>

definition path_segments :: "string \<Rightarrow> string list" where
  "path_segments p =
     map (\<lambda>s. case PathUnescape s of Some t \<Rightarrow> t | None \<Rightarrow> s) (tl (split_slash p))"

section \<open>The route table (server.go)\<close>

datatype route =
    GetHealthz
  | GetState
  | ContainerAction endpoint string
  | PostPollNow
  | PostSelfUpdate
  | StaticFiles

text \<open>A pattern with the method GET matches HEAD too; what no other pattern matches falls to \<open>/\<close>.\<close>

definition routes :: "string \<Rightarrow> string list \<Rightarrow> route" where
  "routes method segs =
     (let get = (method = ''GET'' \<or> method = ''HEAD''); post = (method = ''POST'')
      in if get \<and> segs = [''healthz''] then GetHealthz
         else if get \<and> segs = [''api'', ''state''] then GetState
         else if post \<and> length segs = 4 \<and> take 2 segs = [''api'', ''containers''] \<and> segs ! 3 = ''update''
         then ContainerAction PostUpdate (segs ! 2)
         else if post \<and> length segs = 4 \<and> take 2 segs = [''api'', ''containers''] \<and> segs ! 3 = ''rollback''
         then ContainerAction PostRollback (segs ! 2)
         else if post \<and> length segs = 4 \<and> take 2 segs = [''api'', ''containers''] \<and> segs ! 3 = ''force-pull''
         then ContainerAction PostForcePull (segs ! 2)
         else if post \<and> segs = [''api'', ''poll-now''] then PostPollNow
         else if post \<and> segs = [''api'', ''self-update''] then PostSelfUpdate
         else StaticFiles)"

text \<open>
  One request through the table, with the flag of the spawner. \<open>None\<close> is a request
  whose handler panicked. The path variable is set before the handler runs.
\<close>

record ('w) deployment =
  dp_env :: "'w Env"
  dp_getenv :: "string \<Rightarrow> string"
  dp_fileServer :: "Request \<Rightarrow> writer_call list"
  dp_canonical :: "Request \<Rightarrow> Response option"
    \<comment> \<open>the answer of the multiplexer to a path that is not canonical\<close>
  dp_server :: "'w Server"

definition plainly :: "bool \<Rightarrow> ('w, Response) io \<Rightarrow> ('w, Response option \<times> bool) io" where
  "plainly flag m = do { p \<leftarrow> m; ret (Some p, flag) }"

definition serve_mux :: "'w deployment \<Rightarrow> bool \<Rightarrow> Request \<Rightarrow> ('w, Response option \<times> bool) io" where
  "serve_mux D flag r =
     (case dp_canonical D r of
        Some p \<Rightarrow> ret (Some p, flag)
      | None \<Rightarrow>
          (case routes (rq_Method r) (path_segments (rq_EscapedPath r)) of
             GetHealthz \<Rightarrow> plainly flag (healthz (dp_env D) (dp_getenv D) (dp_server D) r)
           | GetState \<Rightarrow> do { p \<leftarrow> getState (dp_env D) (dp_server D) r; ret (p, flag) }
           | ContainerAction ep svc \<Rightarrow> plainly flag (handle ep (dp_env D) (dp_server D) (r\<lparr>rq_service := svc\<rparr>))
           | PostPollNow \<Rightarrow> plainly flag (handlePollNow (dp_env D) (dp_server D) r)
           | PostSelfUpdate \<Rightarrow> do {
               (p, flag') \<leftarrow> handleSelfUpdate (dp_env D) (dp_server D) flag r;
               ret (Some p, flag') }
           | StaticFiles \<Rightarrow> ret (Some (newStaticHandler (dp_fileServer D) r), flag)))"

text \<open>
  The handler \<open>main.go\<close> gives to the listener, as the client sees it: a panic ends the
  connection, written as status 0.
\<close>

definition aborted :: Response where
  "aborted = \<lparr>rp_Status = 0, rp_Header = [], rp_Body = Text ''''\<rparr>"

definition app_handler :: "'w deployment \<Rightarrow> bool \<Rightarrow> 'w handler" where
  "app_handler D flag = BasicAuth
     (\<lambda>r. do { (p, _) \<leftarrow> serve_mux D flag r; ret (case p of None \<Rightarrow> aborted | Some q \<Rightarrow> q) })
     (fst (BasicAuthFromEnv (dp_getenv D))) (snd (BasicAuthFromEnv (dp_getenv D)))"

section \<open>Lemmas on paths\<close>

lemma split_slash_length: "length (split_slash s) = Suc (count_list s CHR ''/'')"
  by (induction s) (auto split: list.splits)

text \<open>Decoding can add slashes and never removes one.\<close>

lemma unescape_slashes: "PathUnescape s = Some t \<Longrightarrow> count_list s CHR ''/'' \<le> count_list t CHR ''/''"
proof (induction s arbitrary: t rule: PathUnescape.induct)
  case (2 c s)
  show ?case
  proof (cases "c = CHR ''%''")
    case True
    with 2(3) obtain a b s' x y t' where s: "s = a # b # s'" and x: "hex_value a = Some x" "hex_value b = Some y"
      and t': "PathUnescape s' = Some t'" and t: "t = char_of (16 * x + y) # t'"
      by (auto split: list.splits option.splits)
    have "a \<noteq> CHR ''/''" "b \<noteq> CHR ''/''" using x by (auto simp: hex_value_def)
    with 2(1) [OF True s refl t'] True s t show ?thesis by simp
  next
    case False
    with 2(3) obtain t' where "PathUnescape s = Some t'" "t = c # t'" by auto
    with 2(2) [OF False] show ?thesis by auto
  qed
qed simp

lemma segments_length: "length (path_segments p) = count_list p CHR ''/''"
  by (simp add: path_segments_def split_slash_length)

text \<open>A request that the authentication takes for the health endpoint is routed to it or to the files.\<close>

lemma healthz_route:
  assumes "PathUnescape (rq_EscapedPath r) = Some ''/healthz''"
  shows "routes (rq_Method r) (path_segments (rq_EscapedPath r)) \<in> {GetHealthz, StaticFiles}"
proof -
  have "count_list ''/healthz'' CHR ''/'' = 1" by simp
  with unescape_slashes [OF assms] have "length (path_segments (rq_EscapedPath r)) \<le> 1"
    by (simp add: segments_length)
  then show ?thesis unfolding routes_def Let_def by (auto split: if_splits)
qed

lemma post_routes:
  "m \<noteq> ''POST'' \<Longrightarrow> routes m segs \<in> {GetHealthz, GetState, StaticFiles}"
  unfolding routes_def Let_def by (simp split: if_splits)

section \<open>Effects of the routes\<close>

lemma only_plainly [allows]: "only P m \<Longrightarrow> only P (plainly flag m)"
  unfolding plainly_def by (intro allows)

lemma only_healthz [allows]: "P EPing \<Longrightarrow> only P (healthz E getenv s r)"
  unfolding healthz_def by (intro allows)

lemma only_getState [allows]: "only P (getState E s r)"
  unfolding getState_def by (intro allows)

lemma harmless_routes:
  assumes "routes (rq_Method r) (path_segments (rq_EscapedPath r)) \<in> {GetHealthz, GetState, StaticFiles}"
  shows "only (\<lambda>e. e = EPing) (serve_mux D flag r)"
proof (cases "dp_canonical D r")
  case None
  with assms show ?thesis
    unfolding serve_mux_def by (elim insertE emptyE) (simp_all only: option.case route.case, (intro allows refl)+)
next
  case (Some p)
  then show ?thesis unfolding serve_mux_def by (simp only: option.case) (intro allows)
qed


lemma only_app:
  assumes "only P (serve_mux D flag r)"
  shows "only P (app_handler D flag r)"
  unfolding app_handler_def BasicAuth_def Let_def
  by (simp only: split: if_split prod.split) (auto intro!: allows assms)

section \<open>Properties\<close>

text \<open>
  C11. What the network can do to the host. Without POST, or without the configured
  credentials, a request changes nothing anywhere: the only call that leaves the
  daemon is the ping of the health check. And without the credentials every path but
  \<open>/healthz\<close> is answered 401 before the route table sees it, however the path is
  encoded; the exemption of \<open>/healthz\<close>, which looks at the decoded path while the
  routes look at the encoded one, opens no other route.
\<close>

theorem harmless_requests:
  assumes path: "PathUnescape (rq_EscapedPath r) = Some (rq_Path r)"
    and env: "BasicAuthFromEnv (dp_getenv D) = (user, pass)"
    and weak: "rq_Method r \<noteq> ''POST'' \<or> user \<noteq> '''' \<and> pass \<noteq> '''' \<and> Request_BasicAuth r \<noteq> Some (user, pass)"
    and run: "run_state (app_handler D flag r) w = (p, w')"
  shows "(\<exists>es. trace w' = trace w @ es \<and> set es \<subseteq> {EPing}) \<and>
    (user \<noteq> '''' \<and> pass \<noteq> '''' \<and> Request_BasicAuth r \<noteq> Some (user, pass) \<and> rq_Path r \<noteq> ''/healthz''
       \<longrightarrow> p = unauthorized \<and> w' = w)"
proof -
  have app: "app_handler D flag r = ret unauthorized"
    if "user \<noteq> ''''" "pass \<noteq> ''''" "Request_BasicAuth r \<noteq> Some (user, pass)" "rq_Path r \<noteq> ''/healthz''"
    unfolding app_handler_def env fst_conv snd_conv BasicAuth_credentials [OF that(1,2)]
    using that(3,4) by (simp only: simp_thms if_False)
  have effects: "only (\<lambda>e. e = EPing) (app_handler D flag r)"
  proof (cases "rq_Method r \<noteq> ''POST'' \<or> rq_Path r = ''/healthz''")
    case True
    then have "routes (rq_Method r) (path_segments (rq_EscapedPath r)) \<in> {GetHealthz, GetState, StaticFiles}"
    proof
      assume "rq_Method r \<noteq> ''POST''"
      then show ?thesis by (rule post_routes)
    next
      assume "rq_Path r = ''/healthz''"
      with path have "PathUnescape (rq_EscapedPath r) = Some ''/healthz''" by (simp only:)
      from healthz_route [OF this] show ?thesis by (simp only: insert_iff) blast
    qed
    then show ?thesis by (intro only_app harmless_routes)
  next
    case False
    then have post: "rq_Method r = ''POST''" and other: "rq_Path r \<noteq> ''/healthz''" by (simp_all only: de_Morgan_disj not_not simp_thms)
    from weak post have "user \<noteq> ''''" "pass \<noteq> ''''" "Request_BasicAuth r \<noteq> Some (user, pass)" by metis+
    from app [OF this other] show ?thesis by (simp only: only_return)
  qed
  from onlyD [OF this run] have "\<exists>es. trace w' = trace w @ es \<and> set es \<subseteq> {EPing}" by blast
  moreover have "p = unauthorized \<and> w' = w"
    if "user \<noteq> '''' \<and> pass \<noteq> '''' \<and> Request_BasicAuth r \<noteq> Some (user, pass) \<and> rq_Path r \<noteq> ''/healthz''"
    using run unfolding app [OF that [THEN conjunct1] that [THEN conjunct2, THEN conjunct1]
        that [THEN conjunct2, THEN conjunct2, THEN conjunct1] that [THEN conjunct2, THEN conjunct2, THEN conjunct2]]
    by simp
  ultimately show ?thesis by (rule conjI [OF _ impI])
qed

definition demo_deployment :: "unit deployment" where
  "demo_deployment = \<lparr>dp_env = current_env,
     dp_getenv = (\<lambda>n. if n = ''DOCKER_UPDATE_BASIC_AUTH_USER'' then ''op''
       else if n = ''DOCKER_UPDATE_BASIC_AUTH_PASS'' then ''secret'' else ''''),
     dp_fileServer = one_asset, dp_canonical = (\<lambda>_. None), dp_server = demo_server\<rparr>"

theorem harmless_requests_witness:
  "run_state (app_handler demo_deployment False web_request) world0 = (unauthorized, world0) \<and>
   routes (rq_Method web_request) (path_segments (rq_EscapedPath web_request)) = ContainerAction PostUpdate ''web''"
proof -
  have "BasicAuthFromEnv (dp_getenv demo_deployment) = (''op'', ''secret'')"
    by (simp add: BasicAuthFromEnv_def demo_deployment_def)
  moreover have "Request_BasicAuth web_request \<noteq> Some (''op'', ''secret'')"
    by (simp add: Request_BasicAuth_def Header_Get_def web_request_def Let_def)
  moreover have "PathUnescape (rq_EscapedPath web_request) = Some (rq_Path web_request)"
    by (simp add: web_request_def)
  moreover have "rq_Path web_request \<noteq> ''/healthz''" "''op'' \<noteq> ''''" "''secret'' \<noteq> ''''"
    by (simp_all add: web_request_def)
  moreover have
    "routes (rq_Method web_request) (path_segments (rq_EscapedPath web_request)) = ContainerAction PostUpdate ''web''"
    by (simp add: web_request_def routes_def path_segments_def)
  ultimately show ?thesis
    using harmless_requests [of web_request demo_deployment "''op''" "''secret''" False world0, OF _ _ _ prod.collapse [symmetric]]
    by (metis prod.collapse)
qed

end
