(* ===== verification/Daemon.thy ===== *)
theory Daemon
  imports Boot Routes
begin

text \<open>
  The process: \<open>main\<close> of \<open>cmd/docker-update\<close> from its flags to its listeners, with the
  constructor of the daemon client (moby.go), the MIME registrations and the servers of
  the listeners (\<open>api/server.go\<close>, \<open>api/tls.go\<close>).
\<close>

section \<open>Construction\<close>

text \<open>\<open>sdk\<close> is the result of \<open>client.NewClientWithOpts\<close>.\<close>

definition NewClient :: "'c result \<Rightarrow> 'c result" where
  "NewClient sdk = map_sum (wrap ''docker.NewClient: '') id sdk"

text \<open>\<open>mime.AddExtensionType\<close> for the types used here, which carry their charset.\<close>

type_synonym mime_table = "string \<rightharpoonup> string"

definition AddExtensionType :: "string \<Rightarrow> string \<Rightarrow> mime_table \<Rightarrow> mime_table" where
  "AddExtensionType extension typ m = m(extension \<mapsto> typ)"

definition static_init :: "mime_table \<Rightarrow> mime_table" where
  "static_init =
     AddExtensionType ''.json'' ''application/json; charset=utf-8''
     \<circ> AddExtensionType ''.svg'' ''image/svg+xml''
     \<circ> AddExtensionType ''.css'' ''text/css; charset=utf-8''
     \<circ> AddExtensionType ''.js'' ''application/javascript; charset=utf-8''"

definition registerMIMETypes :: "mime_table \<Rightarrow> mime_table" where
  "registerMIMETypes =
     AddExtensionType ''.woff2'' ''font/woff2''
     \<circ> AddExtensionType ''.json'' ''application/json; charset=utf-8''
     \<circ> AddExtensionType ''.svg'' ''image/svg+xml''
     \<circ> AddExtensionType ''.css'' ''text/css; charset=utf-8''
     \<circ> AddExtensionType ''.js'' ''application/javascript; charset=utf-8''"

text \<open>Both registrations agree: after the package's own, that of main adds the web font only.\<close>

lemma mime_registrations_agree:
  "registerMIMETypes (static_init m) = AddExtensionType ''.woff2'' ''font/woff2'' (static_init m)"
  by (rule HOL.ext) (simp add: registerMIMETypes_def static_init_def AddExtensionType_def)

section \<open>main\<close>

text \<open>
  What the process finds: the environment of its calls, its variables, the disk, the
  error value of a state text that does not decode, the result of the SDK constructor,
  the schedule parser, the text of a time in the drift message, the sweep of a poller
  run to its end, the reading of the in-flight counter, and the error with which the
  library's server of a listener ends (\<open>None\<close> while it serves; it never ends without one).
\<close>

record ('w, 'd, 're) host =
  h_env :: "'w Env"
  h_getenv :: "string \<Rightarrow> string"
  h_fs :: "'d fs"
  h_jsonError :: "string \<Rightarrow> go_error"
  h_sdk :: "unit result"
  h_cron :: "string \<Rightarrow> go_error option"
  h_timeText :: "Time \<Rightarrow> string"
  h_sweep :: "'re cronPoller \<Rightarrow> ('w, unit) io"
  h_inFlight :: "'w \<Rightarrow> int \<times> 'w"
  h_serve :: "listener \<Rightarrow> go_error option"

datatype boot_event =
    RegisterMIME
  | SetLogger log_level
  | LogAuthn
  | GoRunUpdater
  | GoDiscoverer
  | GoPoller
  | LogStarting
  | Listen listener
  | LogRedirectStopped go_error
  | LogServingTLS
  | Fatal string

record ('w, 're) booted =
  bt_store :: Store
  bt_poller :: "'re cronPoller"
  bt_server :: "'w Server"

definition fatal :: "boot_event list \<Rightarrow> string \<Rightarrow> go_error \<Rightarrow> 'd \<Rightarrow> boot_event list \<times> ('w, 're) booted option \<times> 'd" where
  "fatal evs p e d = (evs @ [Fatal (p @ '': '' @ err_text e)], None, d)"

definition wire_server ::
  "('w, 'd, 're) host \<Rightarrow> Reader \<Rightarrow> actionOrchestrator \<Rightarrow> 're cronPoller \<Rightarrow> 'w Server" where
  "wire_server h reader oc poller =
     (let cfg = read_config (h_getenv h);
          sp = NewSpawner (bc_selfImage cfg) (bc_selfService cfg) (bc_keepHelper cfg)
      in WireSelfUpdate (Some sp) (Some (h_inFlight h))
           (NewServer True True (Some reader) (Some oc) (Some (h_sweep h poller))))"

text \<open>
  The end of main. The server of the application is called by main itself, and its error
  ends the process; the redirect runs in a goroutine of its own, which only logs.
\<close>

fun serve_listener :: "(listener \<Rightarrow> go_error option) \<Rightarrow> listener \<Rightarrow> boot_event list" where
  "serve_listener serve (AppPlain addr) =
     Listen (AppPlain addr) #
     (case serve (AppPlain addr) of None \<Rightarrow> [] | Some err \<Rightarrow> [Fatal (''ListenAndServe: '' @ err_text err)])"
| "serve_listener serve (RedirectPlain addr port) =
     Listen (RedirectPlain addr port) #
     (case serve (RedirectPlain addr port) of None \<Rightarrow> [] | Some err \<Rightarrow> [LogRedirectStopped err])"
| "serve_listener serve (AppTLS addr cert key) =
     LogServingTLS # Listen (AppTLS addr cert key) #
     (case serve (AppTLS addr cert key) of None \<Rightarrow> [] | Some err \<Rightarrow> [Fatal (''ListenAndServeTLS: '' @ err_text err)])"

text \<open>The half of main after the compose file has been read.\<close>

definition boot_actors ::
  "('w, 'd, 're) host \<Rightarrow> Store \<Rightarrow> Reader \<Rightarrow> boot_event list \<Rightarrow> 'd
   \<Rightarrow> boot_event list \<times> ('w, 're) booted option \<times> 'd" where
  "boot_actors h store reader evs d =
     (let cfg = read_config (h_getenv h); evs1 = evs @ [LogAuthn, GoRunUpdater, GoDiscoverer] in
      case NewPoller (h_getenv h) (h_cron h) (bc_cronExpr cfg) NewPatterns of
        Inl e \<Rightarrow> fatal evs1 ''poll.NewPoller'' e d
      | Inr poller \<Rightarrow>
          let evs2 = evs1 @ [GoPoller] in
          case NewOrchestrator True True (Some reader) (h_timeText h) True True (bc_selfService cfg)
                 (bc_verifyWindow cfg) (bc_healthcheckWindow cfg) of
            Inl e \<Rightarrow> fatal evs2 ''actions.NewOrchestrator'' e d
          | Inr oc \<Rightarrow>
              (evs2 @ [LogStarting] @ concat (map (serve_listener (h_serve h)) (listeners (h_getenv h))),
               Some \<lparr>bt_store = store, bt_poller = poller, bt_server = wire_server h reader oc poller\<rparr>, d))"

definition main_server ::
  "('w, 'd, 're) host \<Rightarrow> 'd \<Rightarrow> ('w, boot_event list \<times> ('w, 're) booted option \<times> 'd) io" where
  "main_server h d =
     (let cfg = read_config (h_getenv h); evs = [RegisterMIME, SetLogger (bc_level cfg)];
          j = state_codec (env_zone (h_env h)) (h_jsonError h) in
      case NewStore j (h_fs h) (bc_statePath cfg) d of
        (Inl e, d1) \<Rightarrow> ret (fatal evs ''state.NewStore'' e d1)
      | (Inr store, d1) \<Rightarrow>
          (case NewClient (h_sdk h) of
             Inl e \<Rightarrow> ret (fatal evs ''docker.NewClient'' e d1)
           | Inr _ \<Rightarrow> do {
               r \<leftarrow> NewReader (h_env h) (bc_composePath cfg);
               case r of
                 Inl e \<Rightarrow> ret (fatal evs ''compose.NewReader'' e d1)
               | Inr reader \<Rightarrow> ret (boot_actors h store reader evs d1) }))"

text \<open>
  The process: the helper mode ends with an exit status, the server mode with its boot.
  The flag is parsed before anything else happens.
\<close>

definition main_process ::
  "nat \<Rightarrow> ('w, 'd, 're) host \<Rightarrow> (string \<Rightarrow> Duration option) \<Rightarrow> bool \<Rightarrow> string \<Rightarrow> 'd
   \<Rightarrow> ('w, nat option + boot_event list \<times> ('w, 're) booted option \<times> 'd) io" where
  "main_process fuel h time_ParseDuration selfUpdateOrchestrator target d =
     (if selfUpdateOrchestrator then do {
        code \<leftarrow> runSelfUpdateOrchestrator fuel (h_env h) time_ParseDuration (h_getenv h)
                  (case NewClient (h_sdk h) of Inl e \<Rightarrow> Some e | Inr _ \<Rightarrow> None) target;
        ret (Inl code) }
      else do { b \<leftarrow> main_server h d; ret (Inr b) })"

text \<open>
  The \<open>http.Server\<close> of each listener: the application with the timeouts of
  \<open>ListenAndServe\<close> and \<open>ListenAndServeTLS\<close>, the redirect with a short write timeout.
\<close>

record http_Server =
  hs_Addr :: string
  hs_ReadTimeout :: Duration
  hs_WriteTimeout :: Duration

definition ListenAndServe :: "string \<Rightarrow> http_Server" where
  "ListenAndServe addr = \<lparr>hs_Addr = addr, hs_ReadTimeout = 10 * Second, hs_WriteTimeout = 180 * Second\<rparr>"

definition ListenAndServeTLS :: "string \<Rightarrow> http_Server" where
  "ListenAndServeTLS addr = \<lparr>hs_Addr = addr, hs_ReadTimeout = 10 * Second, hs_WriteTimeout = 180 * Second\<rparr>"

fun listener_server :: "listener \<Rightarrow> http_Server" where
  "listener_server (AppPlain addr) =
     \<lparr>hs_Addr = addr, hs_ReadTimeout = 10 * Second, hs_WriteTimeout = 180 * Second\<rparr>"
| "listener_server (RedirectPlain addr port) =
     \<lparr>hs_Addr = addr, hs_ReadTimeout = 10 * Second, hs_WriteTimeout = 10 * Second\<rparr>"
| "listener_server (AppTLS addr cert key) = ListenAndServeTLS addr"

text \<open>
  The plain listener of main, which does not go through \<open>Server.ListenAndServe\<close>, is set up
  as if it did. With the default windows a verified action fits into the write timeout;
  with a configured window it need not: the handler then answers into a closed response.
\<close>

lemma plain_listener_config: "listener_server (AppPlain addr) = ListenAndServe addr"
  by (simp add: ListenAndServe_def)

lemma default_windows_fit:
  "bc_healthcheckWindow (read_config (\<lambda>_. '''')) < hs_WriteTimeout (ListenAndServe addr)"
  "bc_verifyWindow (read_config (\<lambda>_. '''')) < hs_WriteTimeout (ListenAndServe addr)"
  by (simp_all add: read_config_def ListenAndServe_def envInt_def Let_def Second_def nanosecond_per_second_def wrap64_def)

lemma configured_window_may_not_fit:
  "hs_WriteTimeout (ListenAndServe addr)
     < bc_healthcheckWindow (read_config (\<lambda>n. if n = ''DOCKER_UPDATE_HEALTHCHECK_WINDOW_S'' then ''300'' else ''''))"
proof -
  have "Atoi ''300'' = Some 300" by code_simp
  then show ?thesis
    by (simp add: read_config_def ListenAndServe_def envInt_def Let_def Second_def nanosecond_per_second_def wrap64_def)
qed

section \<open>Lemmas on the boot\<close>

definition needs_consumer :: "boot_event \<Rightarrow> bool" where
  "needs_consumer e \<longleftrightarrow> e = GoDiscoverer \<or> e = GoPoller \<or> (\<exists>l. e = Listen l)"

definition fully_wired :: "('w, 'd, 're) host \<Rightarrow> ('w, 're) booted \<Rightarrow> bool" where
  "fully_wired h b \<longleftrightarrow>
     (let s = bt_server b in
      sv_store s \<and> sv_dockerClient s \<and> sv_composeReader s \<noteq> None \<and> sv_sweep s = Some (h_sweep h (bt_poller b))
      \<and> sv_selfUpdater s \<noteq> None \<and> sv_actionsInFlightFn s = Some (h_inFlight h)
      \<and> (\<exists>oc. sv_orchestrator s = Some oc \<and> 0 < oc_verifyWindow oc \<and> 0 < oc_healthcheckWindow oc
              \<and> oc_selfService oc = bc_selfService (read_config (h_getenv h))))"

lemma orchestrator_boots:
  "\<exists>oc. NewOrchestrator True True reader fmt True True (bc_selfService (read_config getenv))
      (bc_verifyWindow (read_config getenv)) (bc_healthcheckWindow (read_config getenv)) = Inr oc \<and>
    0 < oc_verifyWindow oc \<and> 0 < oc_healthcheckWindow oc \<and> oc_selfService oc = bc_selfService (read_config getenv)"
  using booted_windows_positive [of reader fmt getenv] by (simp add: read_config_def env_or_def)

lemma boot_actors_cases:
  fixes h :: "('w, 'd, 're) host"
  obtains e where "h_cron h (bc_cronExpr (read_config (h_getenv h))) \<noteq> None"
      "boot_actors h store reader evs d =
         fatal (evs @ [LogAuthn, GoRunUpdater, GoDiscoverer]) ''poll.NewPoller'' e d"
  | b where "h_cron h (bc_cronExpr (read_config (h_getenv h))) = None" "fully_wired h b" "bt_store b = store"
      "boot_actors h store reader evs d =
         (evs @ [LogAuthn, GoRunUpdater, GoDiscoverer, GoPoller, LogStarting]
            @ concat (map (serve_listener (h_serve h)) (listeners (h_getenv h))),
          Some b, d)"
proof (cases "NewPoller (h_getenv h) (h_cron h) (bc_cronExpr (read_config (h_getenv h))) (NewPatterns :: 're Patterns)")
  case (Inl e)
  then have "h_cron h (bc_cronExpr (read_config (h_getenv h))) \<noteq> None"
    by (auto simp: NewPoller_def newPoller_def split: option.splits)
  then show ?thesis by (rule that(1)[of e]) (simp add: Inl boot_actors_def Let_def)
next
  case (Inr poller)
  obtain oc where oc: "NewOrchestrator True True (Some reader) (h_timeText h) True True
      (bc_selfService (read_config (h_getenv h))) (bc_verifyWindow (read_config (h_getenv h)))
      (bc_healthcheckWindow (read_config (h_getenv h))) = Inr oc"
    and w: "0 < oc_verifyWindow oc" "0 < oc_healthcheckWindow oc"
      "oc_selfService oc = bc_selfService (read_config (h_getenv h))"
    using orchestrator_boots by blast
  let ?b = "\<lparr>bt_store = store, bt_poller = poller, bt_server = wire_server h reader oc poller\<rparr>"
  have "fully_wired h ?b" using w by (simp add: fully_wired_def wire_server_def Let_def WireSelfUpdate_def NewServer_def)
  moreover have "h_cron h (bc_cronExpr (read_config (h_getenv h))) = None"
    using Inr by (auto simp: NewPoller_def newPoller_def split: option.splits)
  ultimately show ?thesis by (intro that(2)[of ?b]) (simp_all add: Inr oc boot_actors_def Let_def)
qed


definition boot_codec :: "('w, 'd, 're) host \<Rightarrow> codec" where
  "boot_codec h = state_codec (env_zone (h_env h)) (h_jsonError h)"

definition open_store :: "('w, 'd, 're) host \<Rightarrow> 'd \<Rightarrow> Store result \<times> 'd" where
  "open_store h d = NewStore (boot_codec h) (h_fs h) (bc_statePath (read_config (h_getenv h))) d"

definition boot_fails :: "('w, 'd, 're) host \<Rightarrow> 'd \<Rightarrow> 'w World \<Rightarrow> bool" where
  "boot_fails h d w \<longleftrightarrow>
     isl (fst (open_store h d)) \<or> isl (h_sdk h)
     \<or> isl (fst (run_state (NewReader (h_env h) (bc_composePath (read_config (h_getenv h)))) w))
     \<or> h_cron h (bc_cronExpr (read_config (h_getenv h))) \<noteq> None"

text \<open>The two ends of a boot.\<close>

lemma main_server_cases:
  assumes "run_state (main_server h d) w = ((evs, res, d'), w')"
  obtains t where "boot_fails h d w" "res = None"
      "evs = [RegisterMIME, SetLogger (bc_level (read_config (h_getenv h)))] @ [Fatal t] \<or>
       evs = [RegisterMIME, SetLogger (bc_level (read_config (h_getenv h)))] @ [LogAuthn, GoRunUpdater, GoDiscoverer, Fatal t]"
  | b where "\<not> boot_fails h d w" "res = Some b" "fully_wired h b" "open_store h d = (Inr (bt_store b), d')"
      "evs = [RegisterMIME, SetLogger (bc_level (read_config (h_getenv h)))]
         @ [LogAuthn, GoRunUpdater, GoDiscoverer, GoPoller, LogStarting]
         @ concat (map (serve_listener (h_serve h)) (listeners (h_getenv h)))"
proof (cases "open_store h d")
  case (Pair r d1)
  note store = Pair
  have main: "main_server h d =
     (case r of
        Inl e \<Rightarrow> ret (fatal [RegisterMIME, SetLogger (bc_level (read_config (h_getenv h)))] ''state.NewStore'' e d1)
      | Inr store \<Rightarrow>
          (case NewClient (h_sdk h) of
             Inl e \<Rightarrow> ret (fatal [RegisterMIME, SetLogger (bc_level (read_config (h_getenv h)))] ''docker.NewClient'' e d1)
           | Inr _ \<Rightarrow> do {
               r \<leftarrow> NewReader (h_env h) (bc_composePath (read_config (h_getenv h)));
               case r of
                 Inl e \<Rightarrow> ret (fatal [RegisterMIME, SetLogger (bc_level (read_config (h_getenv h)))] ''compose.NewReader'' e d1)
               | Inr reader \<Rightarrow>
                   ret (boot_actors h store reader [RegisterMIME, SetLogger (bc_level (read_config (h_getenv h)))] d1) }))"
    using store unfolding main_server_def open_store_def boot_codec_def Let_def by (simp split: sum.split)
  obtain rd w1 where rd: "run_state (NewReader (h_env h) (bc_composePath (read_config (h_getenv h)))) w = (rd, w1)"
    by force
  consider (store) e where "r = Inl e" | (client) st e where "r = Inr st" "h_sdk h = Inl e"
    | (reader) st e where "r = Inr st" "h_sdk h = Inr ()" "rd = Inl e"
    | (actors) st reader where "r = Inr st" "h_sdk h = Inr ()" "rd = Inr reader"
    by (cases r; cases "h_sdk h"; cases rd) auto
  then show ?thesis
  proof cases
    case (store e)
    with assms \<open>open_store h d = (r, d1)\<close> show ?thesis by (intro that(1)) (auto simp: main boot_fails_def fatal_def)
  next
    case (client st e)
    with assms show ?thesis by (intro that(1)) (auto simp: main NewClient_def boot_fails_def fatal_def)
  next
    case (reader st e)
    with assms rd show ?thesis by (intro that(1)) (auto simp: main NewClient_def boot_fails_def fatal_def)
  next
    case (actors st reader)
    let ?evs = "[RegisterMIME, SetLogger (bc_level (read_config (h_getenv h)))]"
    have "run_state (main_server h d) w = (boot_actors h st reader ?evs d1, w1)"
      using actors rd by (simp add: main NewClient_def)
    then have ba: "boot_actors h st reader ?evs d1 = (evs, res, d')" using assms by simp
    show ?thesis
    proof (cases h st reader ?evs d1 rule: boot_actors_cases)
      case (1 e)
      with ba show ?thesis by (intro that(1)) (auto simp: boot_fails_def fatal_def)
    next
      case (2 b)
      with ba actors rd store show ?thesis by (intro that(2)[of b]) (auto simp: boot_fails_def)
    qed
  qed
qed

section \<open>The served part\<close>

text \<open>The application cannot be served: the server of its listener ended, for example for a port in use.\<close>

definition serving_fails :: "('w, 'd, 're) host \<Rightarrow> bool" where
  "serving_fails h \<longleftrightarrow>
     (\<exists>l \<in> set (listeners (h_getenv h)). (\<forall>addr port. l \<noteq> RedirectPlain addr port) \<and> h_serve h l \<noteq> None)"

definition is_listen :: "boot_event \<Rightarrow> bool" where
  "is_listen e \<longleftrightarrow> (\<exists>l. e = Listen l)"

lemma is_listen_simps [simp]:
  "is_listen (Listen l)" "\<not> is_listen RegisterMIME" "\<not> is_listen (SetLogger v)" "\<not> is_listen LogAuthn"
  "\<not> is_listen GoRunUpdater" "\<not> is_listen GoDiscoverer" "\<not> is_listen GoPoller" "\<not> is_listen LogStarting"
  "\<not> is_listen (LogRedirectStopped e)" "\<not> is_listen LogServingTLS" "\<not> is_listen (Fatal t)"
  by (simp_all add: is_listen_def)

lemma listeners_cases:
  "(\<exists>addr. listeners getenv = [AppPlain addr]) \<or>
   (\<exists>addr port addr' cert key. listeners getenv = [RedirectPlain addr port, AppTLS addr' cert key])"
  by (cases "TLSFromEnv getenv") (simp add: listeners_def)

lemma served_events:
  assumes "served = concat (map (serve_listener (h_serve h)) (listeners (h_getenv h)))"
  shows "filter is_listen served = map Listen (listeners (h_getenv h)) \<and> GoRunUpdater \<notin> set served \<and>
    ((\<exists>t. Fatal t \<in> set served) \<longleftrightarrow> serving_fails h) \<and>
    (\<forall>t. Fatal t \<in> set served \<longrightarrow> last served = Fatal t \<and> served \<noteq> [])"
  using listeners_cases [of "h_getenv h"]
proof (elim disjE exE)
  fix addr assume l: "listeners (h_getenv h) = [AppPlain addr]"
  show ?thesis unfolding assms l serving_fails_def by (cases "h_serve h (AppPlain addr)") simp_all
next
  fix addr port addr' cert key
  assume l: "listeners (h_getenv h) = [RedirectPlain addr port, AppTLS addr' cert key]"
  show ?thesis unfolding assms l serving_fails_def
    by (cases "h_serve h (RedirectPlain addr port)"; cases "h_serve h (AppTLS addr' cert key)") simp_all
qed

section \<open>Properties of the boot\<close>

text \<open>
  C5. The boot is ordered and all or nothing. The consumer of the update channel is
  started before every producer and before every listener, and at most once. Either the
  boot fails before it listens, exactly when the state file, the daemon client, the
  compose file or the cron expression is refused; then the process ends without having
  listened. Or it listens on exactly the configured listeners, in their order and after
  everything else, with the document of the state file and with a server whose every
  dependency is wired, so that no endpoint answers that a part is missing; then the
  process ends with a fatal exit, its last event, exactly when the server of the
  application's listener ends, and not when that of the redirect does.
\<close>

theorem boot_contract:
  assumes "run_state (main_server h d) w = ((evs, res, d'), w')"
  shows "(\<forall>e \<in> set (takeWhile (\<lambda>e. e \<noteq> GoRunUpdater) evs). \<not> needs_consumer e)
    \<and> count_list evs GoRunUpdater \<le> 1
    \<and> (res = None \<longleftrightarrow> boot_fails h d w)
    \<and> (case res of
         None \<Rightarrow> (\<exists>t. last evs = Fatal t) \<and> (\<forall>l. Listen l \<notin> set evs)
       | Some b \<Rightarrow>
           (\<exists>before served. evs = before @ served \<and> (\<forall>l. Listen l \<notin> set before) \<and>
              {GoRunUpdater, GoDiscoverer, GoPoller} \<subseteq> set before \<and>
              filter is_listen served = map Listen (listeners (h_getenv h)))
           \<and> ((\<exists>t. Fatal t \<in> set evs) \<longleftrightarrow> serving_fails h)
           \<and> (\<forall>t. Fatal t \<in> set evs \<longrightarrow> last evs = Fatal t)
           \<and> open_store h d = (Inr (bt_store b), d') \<and> fully_wired h b)"
  using assms
proof (cases rule: main_server_cases)
  case (1 t)
  then show ?thesis by (auto simp: needs_consumer_def)
next
  case (2 b)
  let ?served = "concat (map (serve_listener (h_serve h)) (listeners (h_getenv h)))"
  let ?before = "[RegisterMIME, SetLogger (bc_level (read_config (h_getenv h)))]
      @ [LogAuthn, GoRunUpdater, GoDiscoverer, GoPoller, LogStarting]"
  note served = served_events [of ?served h, OF refl]
  have evs: "evs = ?before @ ?served" using 2(5) by simp
  have "count_list ?served GoRunUpdater = 0" using served by (simp only: count_list_0_iff simp_thms)
  then have count: "count_list evs GoRunUpdater \<le> 1" unfolding evs by simp
  have first: "\<forall>e \<in> set (takeWhile (\<lambda>e. e \<noteq> GoRunUpdater) evs). \<not> needs_consumer e"
    unfolding evs by (simp add: needs_consumer_def)
  have fatal: "Fatal t \<in> set evs \<longleftrightarrow> Fatal t \<in> set ?served" for t unfolding evs by simp
  have last: "last evs = Fatal t" if "Fatal t \<in> set evs" for t
    using served that unfolding fatal by (metis evs last_appendR)
  have split: "\<exists>before served. evs = before @ served \<and> (\<forall>l. Listen l \<notin> set before) \<and>
              {GoRunUpdater, GoDiscoverer, GoPoller} \<subseteq> set before \<and>
              filter is_listen served = map Listen (listeners (h_getenv h))"
    by (intro exI [of _ ?before] exI [of _ ?served]) (use served in \<open>simp add: evs\<close>)
  have "(\<exists>t. Fatal t \<in> set evs) \<longleftrightarrow> serving_fails h" unfolding fatal using served by (simp only: simp_thms)
  with 2(1-4) count first last split show ?thesis by simp
qed

text \<open>A host whose only variable is the compose path, with an empty disk.\<close>

definition demo_host :: "(unit, string option, unit) host" where
  "demo_host =
     \<lparr>h_env = sample_env, h_getenv = (\<lambda>n. if n = ''DOCKER_UPDATE_COMPOSE_PATH'' then ''/c.yml'' else ''''),
      h_fs = cell_fs, h_jsonError = errors_New, h_sdk = Inr (), h_cron = (\<lambda>_. None), h_timeText = (\<lambda>_. ''''),
      h_sweep = (\<lambda>_. ret ()), h_inFlight = (\<lambda>x. (0, x)), h_serve = (\<lambda>_. None)\<rparr>"

lemma demo_host_reader:
  "\<not> isl (fst (run_state (NewReader (h_env demo_host) (bc_composePath (read_config (h_getenv demo_host)))) world0))"
proof -
  have "bc_composePath (read_config (h_getenv demo_host)) \<noteq> ''''"
    by (simp add: demo_host_def read_config_def)
  then show ?thesis
    by (simp add: NewReader_def demo_host_def sample_env_def demo_env_def captureBootSnapshot_def statInode_def)
qed

lemma demo_host_boots:
  assumes "\<not> isl (fst (open_store demo_host d))"
  shows "\<not> boot_fails demo_host d world0"
  using assms demo_host_reader by (simp add: boot_fails_def demo_host_def)

lemma empty_disk_boots: "\<not> isl (fst (open_store demo_host None))"
proof -
  have "state_json (\<lambda>_. 0) empty_state = Inr (JObject [(''version'', JInt 1), (''containers'', JObject [])])"
    by (simp add: state_json_def struct_json_def state_fields_def empty_state_def map_json_def IsZero_def SchemaVersion_def)
  then show ?thesis
    by (simp add: open_store_def boot_codec_def demo_host_def sample_env_def NewStore_def persist_def state_codec_def cell_fs_def Let_def)
qed

theorem boot_contract_witness:
  "\<exists>evs b d' w'. run_state (main_server demo_host None) world0 = ((evs, Some b, d'), w')
     \<and> count_list evs GoRunUpdater \<le> 1 \<and> fully_wired demo_host b \<and> (\<forall>t. Fatal t \<notin> set evs)"
proof -
  obtain evs res d' w' where run: "run_state (main_server demo_host None) world0 = ((evs, res, d'), w')"
    by (metis prod.collapse)
  note contract = boot_contract [OF run]
  have "\<not> boot_fails demo_host None world0" by (rule demo_host_boots [OF empty_disk_boots])
  with contract obtain b where "res = Some b" by (cases res) blast+
  moreover have "\<not> serving_fails demo_host" by (simp add: serving_fails_def demo_host_def)
  ultimately show ?thesis using contract run by auto
qed

end
