(* ===== verification/Scheduler.thy ===== *)
theory Scheduler
  imports Poller
begin

text \<open>
  The life of the poller's goroutine, \<open>cronPoller.Run\<close> in \<open>internal/poll/poller.go\<close>: it
  registers the tick, starts the scheduler, waits for the end of its context, stops the
  scheduler and waits for the sweeps that still run. The scheduler of the cron library is
  the environment: while it runs it starts a sweep at each tick, in a goroutine of its
  own, so that sweeps may overlap; a sweep that panics ends like one that returns.
\<close>

section \<open>The goroutine and its sweeps\<close>

datatype run_pc = Registering | Waiting | Stopping | Returned "go_error option"

record cron_run =
  cr_pc :: run_pc
  cr_cancelled :: bool
  cr_running :: nat \<comment> \<open>sweeps in flight\<close>
  cr_started :: nat
  cr_finished :: nat

definition run_init :: cron_run where
  "run_init = \<lparr>cr_pc = Registering, cr_cancelled = False, cr_running = 0, cr_started = 0, cr_finished = 0\<rparr>"

text \<open>The error of a schedule that the parser refuses, and the error of the ended context.\<close>

definition spec_error :: "string \<Rightarrow> go_error \<Rightarrow> go_error" where
  "spec_error spec err =
     err\<lparr>err_text := ''invalid DOCKER_UPDATE_CRON '' @ quote spec @ '': '' @ err_text err
           @ '' (expected 5-field cron expression like '' @ [CHR 0x27] @ ''0 * * * *'' @ [CHR 0x27]
           @ '' or '' @ [CHR 0x27] @ ''@every 5s'' @ [CHR 0x27] @ '')''\<rparr>"

definition context_canceled :: go_error where
  "context_canceled = sentinel_error CtxCanceled ''context canceled''"

inductive run_step :: "(string \<Rightarrow> go_error option) \<Rightarrow> 're cronPoller \<Rightarrow> cron_run \<Rightarrow> cron_run \<Rightarrow> bool" for cron_AddFunc p where
  refuse: "cr_pc s = Registering \<Longrightarrow> cron_AddFunc (pl_spec p) = Some err \<Longrightarrow>
    run_step cron_AddFunc p s (s\<lparr>cr_pc := Returned (Some (spec_error (pl_spec p) err))\<rparr>)"
| start: "cr_pc s = Registering \<Longrightarrow> cron_AddFunc (pl_spec p) = None \<Longrightarrow>
    run_step cron_AddFunc p s (s\<lparr>cr_pc := Waiting\<rparr>)"
| cancel: "run_step cron_AddFunc p s (s\<lparr>cr_cancelled := True\<rparr>)"
| tick: "cr_pc s = Waiting \<Longrightarrow>
    run_step cron_AddFunc p s (s\<lparr>cr_running := cr_running s + 1, cr_started := cr_started s + 1\<rparr>)"
| finish: "0 < cr_running s \<Longrightarrow>
    run_step cron_AddFunc p s (s\<lparr>cr_running := cr_running s - 1, cr_finished := cr_finished s + 1\<rparr>)"
| stop: "cr_pc s = Waiting \<Longrightarrow> cr_cancelled s \<Longrightarrow> run_step cron_AddFunc p s (s\<lparr>cr_pc := Stopping\<rparr>)"
| give_back: "cr_pc s = Stopping \<Longrightarrow> cr_running s = 0 \<Longrightarrow>
    run_step cron_AddFunc p s (s\<lparr>cr_pc := Returned (Some context_canceled)\<rparr>)"

inductive_cases run_stepE: "run_step cron_AddFunc p s s'"

inductive run_reach :: "(string \<Rightarrow> go_error option) \<Rightarrow> 're cronPoller \<Rightarrow> cron_run \<Rightarrow> cron_run \<Rightarrow> bool" for cron_AddFunc p s where
  here: "run_reach cron_AddFunc p s s"
| there: "run_reach cron_AddFunc p s t \<Longrightarrow> run_step cron_AddFunc p t u \<Longrightarrow> run_reach cron_AddFunc p s u"

section \<open>Invariant\<close>

definition run_inv :: "(string \<Rightarrow> go_error option) \<Rightarrow> 're cronPoller \<Rightarrow> cron_run \<Rightarrow> bool" where
  "run_inv cron_AddFunc p s \<longleftrightarrow>
     cr_started s = cr_finished s + cr_running s \<and>
     (case cr_pc s of
        Registering \<Rightarrow> cr_started s = 0
      | Waiting \<Rightarrow> cron_AddFunc (pl_spec p) = None
      | Stopping \<Rightarrow> cron_AddFunc (pl_spec p) = None \<and> cr_cancelled s
      | Returned e \<Rightarrow>
          cr_running s = 0 \<and>
          (case cron_AddFunc (pl_spec p) of
             Some err \<Rightarrow> e = Some (spec_error (pl_spec p) err) \<and> cr_started s = 0
           | None \<Rightarrow> e = Some context_canceled \<and> cr_cancelled s))"

lemma run_inv_step: "run_step cron_AddFunc p s s' \<Longrightarrow> run_inv cron_AddFunc p s \<Longrightarrow> run_inv cron_AddFunc p s'"
  by (erule run_stepE) (auto simp: run_inv_def split: run_pc.splits option.splits)

lemma run_reach_inv: "run_reach cron_AddFunc p run_init s \<Longrightarrow> run_inv cron_AddFunc p s"
proof (induction rule: run_reach.induct)
  case here
  show ?case by (simp add: run_inv_def run_init_def)
qed (rule run_inv_step)

text \<open>After the return, or while draining, no sweep starts.\<close>

lemma no_late_tick:
  "run_step cron_AddFunc p s s' \<Longrightarrow> cr_pc s = Stopping \<or> (\<exists>e. cr_pc s = Returned e) \<Longrightarrow>
     cr_started s' = cr_started s \<and> (cr_pc s' = Stopping \<or> (\<exists>e. cr_pc s' = Returned e))"
  by (erule run_stepE) auto

lemma no_late_ticks:
  "run_reach cron_AddFunc p s t \<Longrightarrow> cr_pc s = Stopping \<or> (\<exists>e. cr_pc s = Returned e) \<Longrightarrow>
     cr_started t = cr_started s \<and> (cr_pc t = Stopping \<or> (\<exists>e. cr_pc t = Returned e))"
proof (induction rule: run_reach.induct)
  case (there t u)
  then show ?case using no_late_tick [of cron_AddFunc p t u] by auto
qed simp

text \<open>The way to the end: the sweeps finish one after the other, then \<open>Run\<close> returns.\<close>

fun drained :: "nat \<Rightarrow> cron_run \<Rightarrow> cron_run" where
  "drained 0 s = s\<lparr>cr_pc := Returned (Some context_canceled)\<rparr>"
| "drained (Suc n) s = drained n (s\<lparr>cr_running := cr_running s - 1, cr_finished := cr_finished s + 1\<rparr>)"

lemma run_reach_before: "run_step cron_AddFunc p s t \<Longrightarrow> run_reach cron_AddFunc p t u \<Longrightarrow> run_reach cron_AddFunc p s u"
  by (rotate_tac, induction rule: run_reach.induct) (auto intro: run_reach.intros)

lemma drains: "cr_pc s = Stopping \<Longrightarrow> cr_running s = n \<Longrightarrow> run_reach cron_AddFunc p s (drained n s)"
proof (induction n arbitrary: s)
  case 0
  then show ?case by (auto intro: run_reach.intros run_step.give_back)
next
  case (Suc n)
  let ?t = "s\<lparr>cr_running := cr_running s - 1, cr_finished := cr_finished s + 1\<rparr>"
  have "run_step cron_AddFunc p s ?t" using Suc.prems by (intro run_step.finish) simp
  moreover have "run_reach cron_AddFunc p ?t (drained n ?t)" using Suc.prems by (intro Suc.IH) simp_all
  ultimately show ?case by (simp add: run_reach_before)
qed

lemma cr_pc_drained: "cr_pc (drained n s) = Returned (Some context_canceled)"
  by (induction n arbitrary: s) simp_all

section \<open>Property\<close>

text \<open>
  C25. The poller leaves no sweep behind. When \<open>Run\<close> has returned, every sweep it started
  has ended, and none starts afterwards; it returns the error of a refused schedule,
  before any sweep, or the error of its cancelled context. And it does return: from every
  state in which the schedule is accepted and the context is cancelled, the sweeps in
  flight can end and \<open>Run\<close> then returns.
\<close>

theorem poller_run_drains:
  assumes "run_reach cron_AddFunc p run_init s"
  shows "(\<forall>e. cr_pc s = Returned e \<longrightarrow>
      cr_finished s = cr_started s \<and>
      (case cron_AddFunc (pl_spec p) of
         Some err \<Rightarrow> e = Some (spec_error (pl_spec p) err) \<and> cr_started s = 0
       | None \<Rightarrow> e = Some context_canceled \<and> cr_cancelled s) \<and>
      (\<forall>t. run_reach cron_AddFunc p s t \<longrightarrow> cr_started t = cr_started s))
    \<and> (cr_cancelled s \<and> cron_AddFunc (pl_spec p) = None \<longrightarrow>
       (\<exists>t. run_reach cron_AddFunc p s t \<and> cr_pc t = Returned (Some context_canceled)))"
proof (intro conjI allI impI)
  have inv: "run_inv cron_AddFunc p s" using assms by (rule run_reach_inv)
  {
    fix e assume r: "cr_pc s = Returned e"
    then show "cr_finished s = cr_started s"
      and "case cron_AddFunc (pl_spec p) of
         Some err \<Rightarrow> e = Some (spec_error (pl_spec p) err) \<and> cr_started s = 0
       | None \<Rightarrow> e = Some context_canceled \<and> cr_cancelled s"
      using inv by (simp_all add: run_inv_def)
    fix t assume "run_reach cron_AddFunc p s t"
    then show "cr_started t = cr_started s" using no_late_ticks r by blast
  }
  assume live: "cr_cancelled s \<and> cron_AddFunc (pl_spec p) = None"
  have drain: "\<exists>t. run_reach cron_AddFunc p u t \<and> cr_pc t = Returned (Some context_canceled)" if "cr_pc u = Stopping" for u
    using drains [OF that refl] cr_pc_drained by blast
  have wait: "\<exists>t. run_reach cron_AddFunc p u t \<and> cr_pc t = Returned (Some context_canceled)"
    if "cr_pc u = Waiting" "cr_cancelled u" for u
    using drain [of "u\<lparr>cr_pc := Stopping\<rparr>"] run_step.stop [OF that] run_reach_before by fastforce
  show "\<exists>t. run_reach cron_AddFunc p s t \<and> cr_pc t = Returned (Some context_canceled)"
  proof (cases "cr_pc s")
    case Registering
    with wait [of "s\<lparr>cr_pc := Waiting\<rparr>"] live run_step.start [of s cron_AddFunc p] run_reach_before
    show ?thesis by fastforce
  next
    case (Returned e)
    with inv live show ?thesis by (auto simp: run_inv_def intro: run_reach.here)
  qed (use drain wait live in blast)+
qed

text \<open>A run with one sweep, cancelled while the sweep is in flight.\<close>

definition demo_poller :: "unit cronPoller" where
  "demo_poller = \<lparr>pl_spec = ''@every 5s'', pl_patterns = NewPatterns, pl_timeout = 1, pl_concurrency = 4\<rparr>"

definition demo_run :: cron_run where
  "demo_run = \<lparr>cr_pc = Waiting, cr_cancelled = True, cr_running = 1, cr_started = 1, cr_finished = 0\<rparr>"

lemma demo_run_reached: "run_reach (\<lambda>_. None) demo_poller run_init demo_run"
proof -
  let ?a = "run_init\<lparr>cr_pc := Waiting\<rparr>"
  let ?b = "?a\<lparr>cr_running := cr_running ?a + 1, cr_started := cr_started ?a + 1\<rparr>"
  have a: "run_step (\<lambda>_. None) demo_poller run_init ?a" by (rule run_step.start) (simp_all add: run_init_def)
  have b: "run_step (\<lambda>_. None) demo_poller ?a ?b" by (rule run_step.tick) simp
  have "run_step (\<lambda>_. None) demo_poller ?b (?b\<lparr>cr_cancelled := True\<rparr>)" by (rule run_step.cancel)
  moreover have "?b\<lparr>cr_cancelled := True\<rparr> = demo_run" by (simp add: run_init_def demo_run_def)
  ultimately have c: "run_step (\<lambda>_. None) demo_poller ?b demo_run" by simp
  show ?thesis by (rule run_reach.there [OF run_reach.there [OF run_reach.there [OF run_reach.here a] b] c])
qed

theorem poller_run_drains_witness:
  "cr_running demo_run = 1 \<and>
   (\<exists>t. run_reach (\<lambda>_. None) demo_poller demo_run t \<and> cr_pc t = Returned (Some context_canceled))"
  using poller_run_drains [OF demo_run_reached] by (simp add: demo_run_def)

end
