(* ===== verification/Sigkill.thy ===== *)
theory Sigkill
  imports State_Json Poller
begin

text \<open>
  \<open>cmd/sigkillhelper/main.go\<close>: a process that writes the state file in a loop until it is
  killed. Killing it between two calls, or inside one, leaves the disk of some number of
  completed iterations, since a write replaces the file in one step.
\<close>

section \<open>The writer\<close>

text \<open>\<open>%064d\<close>: zeros up to 64 characters, the sign first.\<close>

definition pad64 :: "int \<Rightarrow> string" where
  "pad64 i =
     (let ds = show_nat (nat \<bar>i\<bar>)
      in if i < 0 then ''-'' @ replicate (63 - length ds) (CHR ''0'') @ ds
         else replicate (64 - length ds) (CHR ''0'') @ ds)"

definition helper_row :: "int \<Rightarrow> Container" where
  "helper_row counter =
     zero_container\<lparr>Service := ''svc'', ImageRepo := ''test/image'', Tag := ''latest'',
       CurrentDigest := ''sha256:'' @ pad64 counter\<rparr>"

definition helper_write :: "int \<Rightarrow> AppState \<Rightarrow> AppState" where
  "helper_write counter st = put_row ''svc'' (helper_row counter) st"

text \<open>\<open>n\<close> iterations of the loop; an error of \<open>Update\<close> is logged and the loop goes on.\<close>

fun helper_loop :: "codec \<Rightarrow> 'd fs \<Rightarrow> nat \<Rightarrow> int \<Rightarrow> Store \<Rightarrow> 'd \<Rightarrow> Store \<times> 'd" where
  "helper_loop j f 0 counter s d = (s, d)"
| "helper_loop j f (Suc n) counter s d =
     (let counter' = wrap64 (counter + 1); (err, s', d') = Store_Update j f (helper_write counter') s d
      in helper_loop j f n counter' s' d')"

text \<open>The process that is killed after \<open>n\<close> iterations: its exit status, or its disk.\<close>

definition sigkillhelper_main :: "codec \<Rightarrow> 'd fs \<Rightarrow> string list \<Rightarrow> nat \<Rightarrow> 'd \<Rightarrow> nat option \<times> 'd" where
  "sigkillhelper_main j f args n d =
     (if length args \<noteq> 2 then (Some 2, d)
      else case NewStore j f (args ! 1) d of
        (Inl err, d1) \<Rightarrow> (Some 1, d1)
      | (Inr s, d1) \<Rightarrow> (None, snd (helper_loop j f n 0 s d1)))"

section \<open>Lemmas\<close>

text \<open>The file holds a text that decodes to the document.\<close>

definition holds :: "codec \<Rightarrow> 'd fs \<Rightarrow> AppState \<Rightarrow> 'd \<Rightarrow> bool" where
  "holds j f st d \<longleftrightarrow> (\<exists>data. fs_ReadFile f d = Inr data \<and> data \<noteq> [] \<and> Unmarshal j data = Inr st)"

lemma holds_boots: "holds j f st d \<Longrightarrow> NewStore j f path d = (Inr \<lparr>store_path = path, store_state = st\<rparr>, d)"
  by (auto simp: holds_def NewStore_def Let_def)

lemma holds_persisted:
  assumes "atomic_fs f" and "reads_back j (store_state s)" and "persist j f s d = (None, d')"
  shows "holds j f (store_state s) d'"
  using persist_ok [OF assms(1,3)] assms(2) by (auto simp: holds_def on_disk_def reads_back_def)

lemma holds_kept:
  assumes "atomic_fs f" and "persist j f s d = (Some e, d')" and "holds j f st d"
  shows "holds j f st d'"
  using persist_error_keeps_file [OF assms(1,2)] assms(3) by (simp add: holds_def)

lemma NewStore_holds:
  assumes "atomic_fs f" and "reads_back j empty_state" and "NewStore j f path d = (Inr s, d')"
  shows "holds j f (Get s) d'"
proof (cases "fs_ReadFile f d")
  case (Inl e)
  with assms(3) have "persist j f s d = (None, d')" and "store_state s = empty_state"
    by (auto simp: NewStore_def Let_def split: if_splits prod.splits option.splits)
  with holds_persisted [OF assms(1) _ this(1)] assms(2) show ?thesis by (simp add: Get_def)
next
  case (Inr data)
  show ?thesis
  proof (cases "data = []")
    case True
    with Inr assms(3) have "persist j f s d = (None, d')" and "store_state s = empty_state"
      by (auto simp: NewStore_def Let_def split: prod.splits option.splits)
    with holds_persisted [OF assms(1) _ this(1)] assms(2) show ?thesis by (simp add: Get_def)
  next
    case False
    with Inr assms(3) show ?thesis
      by (auto simp: NewStore_def Let_def holds_def Get_def split: sum.splits)
  qed
qed

lemma helper_write_again: "helper_write a (helper_write b st) = helper_write a st"
  by (simp add: helper_write_def put_row_def)

lemma helper_doc_ok: "doc_ok st \<Longrightarrow> doc_ok (helper_write c st)"
proof -
  assume doc: "doc_ok st"
  have "list_all (\<lambda>c. byte c < 0x80) (show_nat n)" for n
    using show_nat_digits [of n] by (auto simp: list_all_iff is_digit_def)
  then have "list_all (\<lambda>c. byte c < 0x80) (pad64 c)" by (auto simp: pad64_def Let_def list_all_iff)
  then have "container_ok (helper_row c)"
    by (simp add: container_ok_def container_fields_def helper_row_def zero_container_def ascii_valid)
  then show ?thesis
    using doc by (auto simp: doc_ok_def state_fields_def helper_write_def put_row_def ascii_valid split: if_splits)
qed

text \<open>
  What the file holds after some iterations: the document the process started from, or
  that document with the row of one of its writes.
\<close>

definition written :: "AppState \<Rightarrow> nat \<Rightarrow> AppState" where
  "written st c = (if c = 0 then st else helper_write (int c) st)"

lemma helper_loop_holds:
  assumes "atomic_fs f" and "\<And>c. reads_back j (helper_write c st)"
    and "holds j f (written st k) d" and "k \<le> m" and "store_state s = written st m" and "m + n < 2 ^ 63"
  shows "\<exists>c \<le> m + n. holds j f (written st c) (snd (helper_loop j f n (int m) s d))"
  using assms(3-)
proof (induction n arbitrary: m k s d)
  case 0
  then show ?case by auto
next
  case (Suc n)
  let ?s = "s\<lparr>store_state := helper_write (int (Suc m)) (store_state s)\<rparr>"
  obtain e d' where p: "persist j f ?s d = (e, d')" by force
  have new: "store_state ?s = written st (Suc m)"
    using Suc.prems(3) by (simp add: written_def helper_write_again)
  have "wrap64 (int m + 1) = int (Suc m)" using Suc.prems(4) wrap64_small [of "int m + 1"] by simp
  then have loop: "helper_loop j f (Suc n) (int m) s d = helper_loop j f n (int (Suc m)) ?s d'"
    using p by (simp add: Store_Update_def Let_def)
  have "\<exists>k' \<le> Suc m. holds j f (written st k') d'"
  proof (cases e)
    case None
    have "reads_back j (store_state ?s)" using assms(2) new by (simp add: written_def)
    with holds_persisted [OF assms(1) _ p [unfolded None]] new show ?thesis by auto
  next
    case (Some err)
    with holds_kept [OF assms(1) p [unfolded Some] Suc.prems(1)] Suc.prems(2) show ?thesis by (intro exI [of _ k]) simp
  qed
  then obtain k' where "k' \<le> Suc m" "holds j f (written st k') d'" by blast
  from Suc.IH [OF this(2,1) new] Suc.prems(4) loop show ?case by simp
qed

section \<open>Property\<close>

text \<open>
  C21. A killed writer leaves a whole document: however many iterations were completed and
  whichever of the writes failed, the next process boots from the file, and its document
  is the one the writer started from or exactly the one of a single write, never a mixture.
\<close>

theorem killed_writer_leaves_a_document:
  assumes "atomic_fs f" and "NewStore (state_codec z err) f path d = (Inr s, d1)" and "doc_ok (Get s)"
    and "sigkillhelper_main (state_codec z err) f [prog, path] n d = (None, d2)" and "n < 2 ^ 63"
  shows "\<exists>c \<le> n. NewStore (state_codec z err) f path d2 =
    (Inr \<lparr>store_path = path, store_state = written (Get s) c\<rparr>, d2)"
proof -
  let ?j = "state_codec z err"
  have rb: "reads_back ?j st" if "doc_ok st" for st
    using state_codec_reads_back [OF that] by (simp add: reads_back_def)
  have "doc_ok empty_state"
    by (simp add: doc_ok_def state_fields_def empty_state_def ascii_valid SchemaVersion_def)
  then have start: "holds ?j f (written (Get s) 0) d1"
    using NewStore_holds [OF assms(1) rb assms(2)] by (simp add: written_def)
  have writes: "reads_back ?j (helper_write c (Get s))" for c using rb helper_doc_ok assms(3) by blast
  have loop: "snd (helper_loop ?j f n (int 0) s d1) = d2"
    using assms(2,4) by (simp add: sigkillhelper_main_def)
  obtain c where c: "c \<le> n" and "holds ?j f (written (Get s) c) d2"
    using helper_loop_holds [OF assms(1) writes start order_refl _ , of s n] assms(5)
    unfolding loop by (auto simp: written_def Get_def)
  from holds_boots [OF this(2)] c show ?thesis by blast
qed

theorem killed_writer_leaves_a_document_witness:
  "\<exists>c \<le> 2. NewStore (state_codec (\<lambda>_. 0) errors_New) cell_fs ''s.json''
      (snd (sigkillhelper_main (state_codec (\<lambda>_. 0) errors_New) cell_fs [''helper'', ''s.json''] 2
        (Some (print_json (Some 0) sample_json)))) =
    (Inr \<lparr>store_path = ''s.json'', store_state = written sample_doc c\<rparr>,
     snd (sigkillhelper_main (state_codec (\<lambda>_. 0) errors_New) cell_fs [''helper'', ''s.json''] 2
        (Some (print_json (Some 0) sample_json))))"
proof -
  let ?j = "state_codec (\<lambda>_. 0) errors_New" and ?d = "Some (print_json (Some 0) sample_json)"
  let ?s = "\<lparr>store_path = ''s.json'', store_state = sample_doc\<rparr>"
  have disk: "on_disk ?j cell_fs sample_doc ?d"
    by (simp add: on_disk_def state_codec_def sample_doc_json cell_fs_def)
  have "reads_back ?j sample_doc" using state_codec_reads_back [OF sample_doc_ok] by (simp add: reads_back_def)
  then have boot: "NewStore ?j cell_fs ''s.json'' ?d = (Inr ?s, ?d)" by (rule NewStore_on_disk) (rule disk)
  let ?m = "sigkillhelper_main ?j cell_fs [''helper'', ''s.json''] 2 ?d"
  have "?m = (None, snd ?m)" using boot by (simp add: sigkillhelper_main_def)
  from killed_writer_leaves_a_document [OF atomic_cell_fs boot _ this] sample_doc_ok
  show ?thesis by (simp add: Get_def)
qed

end
