(* ===== verification/Spawn_Race.thy ===== *)
theory Spawn_Race
  imports Selfupdate
begin

text \<open>
  Concurrent calls of \<open>Spawn\<close> (\<open>internal/selfupdate/spawn.go\<close>): every goroutine runs the
  method in the steps that other goroutines can interleave with (the read of the counter,
  the compare-and-swap, the daemon calls, the reset of the flag), while actions of the
  orchestrator begin and end. A start that the daemon refuses, or that is cancelled with
  the request, counts as not started: the helper is then removed by force, running or not.
\<close>

section \<open>The steps of Spawn\<close>

datatype spawn_pc =
    Outside       \<comment> \<open>before the call, or after an error was returned\<close>
  | CountRead     \<comment> \<open>the counter was zero; before the compare-and-swap\<close>
  | FlagTaken     \<comment> \<open>before the inspect of the parent\<close>
  | ParentKnown   \<comment> \<open>before the create\<close>
  | HelperMade    \<comment> \<open>before the start\<close>
  | StartFailed   \<comment> \<open>before the removal of the helper\<close>
  | HelperGone    \<comment> \<open>before the reset of the flag\<close>
  | Failed        \<comment> \<open>an inspect or create failed; before the reset of the flag\<close>
  | Succeeded

record spawn_sys =
  ss_inFlight :: bool
  ss_actions :: nat \<comment> \<open>the orchestrator's counter\<close>
  ss_made :: nat \<comment> \<open>helper containers that exist\<close>
  ss_started :: nat \<comment> \<open>helper containers that run\<close>
  ss_pc :: "nat \<Rightarrow> spawn_pc"

definition spawn_init :: spawn_sys where
  "spawn_init = \<lparr>ss_inFlight = False, ss_actions = 0, ss_made = 0, ss_started = 0, ss_pc = (\<lambda>_. Outside)\<rparr>"

definition jump :: "nat \<Rightarrow> spawn_pc \<Rightarrow> spawn_sys \<Rightarrow> spawn_sys" where
  "jump p c s = s\<lparr>ss_pc := (ss_pc s)(p := c)\<rparr>"

inductive spawn_step :: "spawn_sys \<Rightarrow> spawn_sys \<Rightarrow> bool" where
  action_begins: "spawn_step s (s\<lparr>ss_actions := ss_actions s + 1\<rparr>)"
| action_ends: "0 < ss_actions s \<Longrightarrow> spawn_step s (s\<lparr>ss_actions := ss_actions s - 1\<rparr>)"
| count_zero: "ss_pc s p = Outside \<Longrightarrow> ss_actions s = 0 \<Longrightarrow> spawn_step s (jump p CountRead s)"
| swap: "ss_pc s p = CountRead \<Longrightarrow> \<not> ss_inFlight s \<Longrightarrow>
    spawn_step s (jump p FlagTaken (s\<lparr>ss_inFlight := True\<rparr>))"
| busy: "ss_pc s p = CountRead \<Longrightarrow> ss_inFlight s \<Longrightarrow> spawn_step s (jump p Outside s)"
| inspected: "ss_pc s p = FlagTaken \<Longrightarrow> spawn_step s (jump p ParentKnown s)"
| inspect_fails: "ss_pc s p = FlagTaken \<Longrightarrow> spawn_step s (jump p Failed s)"
| made: "ss_pc s p = ParentKnown \<Longrightarrow> spawn_step s (jump p HelperMade (s\<lparr>ss_made := ss_made s + 1\<rparr>))"
| create_fails: "ss_pc s p = ParentKnown \<Longrightarrow> spawn_step s (jump p Failed s)"
| started: "ss_pc s p = HelperMade \<Longrightarrow> spawn_step s (jump p Succeeded (s\<lparr>ss_started := ss_started s + 1\<rparr>))"
| start_fails: "ss_pc s p = HelperMade \<Longrightarrow> spawn_step s (jump p StartFailed s)"
| removed: "ss_pc s p = StartFailed \<Longrightarrow> spawn_step s (jump p HelperGone (s\<lparr>ss_made := ss_made s - 1\<rparr>))"
| remove_fails: "ss_pc s p = StartFailed \<Longrightarrow> spawn_step s (jump p HelperGone s)"
| reset: "ss_pc s p \<in> {Failed, HelperGone} \<Longrightarrow> spawn_step s (jump p Outside (s\<lparr>ss_inFlight := False\<rparr>))"

inductive spawn_reach :: "spawn_sys \<Rightarrow> bool" where
  init: "spawn_reach spawn_init"
| step: "spawn_reach s \<Longrightarrow> spawn_step s s' \<Longrightarrow> spawn_reach s'"

section \<open>Invariant\<close>

definition owns :: "spawn_sys \<Rightarrow> nat \<Rightarrow> bool" where
  "owns s p \<longleftrightarrow> ss_pc s p \<noteq> Outside \<and> ss_pc s p \<noteq> CountRead"

text \<open>The flag has an owner exactly when it is set, and one; it runs a helper exactly when it succeeded.\<close>

definition spawn_inv :: "spawn_sys \<Rightarrow> bool" where
  "spawn_inv s \<longleftrightarrow>
     (\<forall>p q. owns s p \<longrightarrow> owns s q \<longrightarrow> p = q) \<and>
     (ss_inFlight s \<longleftrightarrow> (\<exists>p. owns s p)) \<and>
     ss_started s = (if \<exists>p. ss_pc s p = Succeeded then 1 else 0)"

lemma jump_simps [simp]:
  "ss_inFlight (jump p c s) = ss_inFlight s" "ss_actions (jump p c s) = ss_actions s"
  "ss_made (jump p c s) = ss_made s" "ss_started (jump p c s) = ss_started s"
  "ss_pc (jump p c s) = (ss_pc s)(p := c)"
  by (simp_all add: jump_def)

text \<open>A step of the owner that keeps the flag and does not succeed.\<close>

lemma owner_moves:
  assumes "spawn_inv s" and "owns s p" and "ss_pc s p \<noteq> Succeeded" and "c \<notin> {Outside, CountRead, Succeeded}"
    and "ss_pc t = (ss_pc s)(p := c)" and "ss_inFlight t = ss_inFlight s" and "ss_started t = ss_started s"
  shows "spawn_inv t"
proof -
  have "owns t q \<longleftrightarrow> owns s q" for q using assms(2,4,5) by (auto simp: owns_def)
  moreover have "ss_pc t q = Succeeded \<longleftrightarrow> ss_pc s q = Succeeded" for q using assms(3,4,5) by auto
  ultimately show ?thesis using assms(1,6,7) by (simp add: spawn_inv_def)
qed

text \<open>A step of a goroutine that does not own the flag and does not take it.\<close>

lemma bystander_moves:
  assumes "spawn_inv s" and "\<not> owns s p" and "c \<in> {Outside, CountRead}"
  shows "spawn_inv (jump p c s)"
proof -
  have "owns (jump p c s) q \<longleftrightarrow> owns s q" for q using assms(2,3) by (auto simp: owns_def)
  moreover have "ss_pc (jump p c s) q = Succeeded \<longleftrightarrow> ss_pc s q = Succeeded" for q
    using assms(2,3) by (auto simp: owns_def)
  ultimately show ?thesis using assms(1) by (simp add: spawn_inv_def del: jump_simps(5))
qed

lemma spawn_inv_step: "spawn_step s t \<Longrightarrow> spawn_inv s \<Longrightarrow> spawn_inv t"
proof (induction rule: spawn_step.induct)
  case (swap s p)
  then have none: "\<not> owns s q" for q by (simp add: spawn_inv_def)
  let ?t = "jump p FlagTaken (s\<lparr>ss_inFlight := True\<rparr>)"
  have "owns ?t q \<longleftrightarrow> q = p" for q using none [of q] by (auto simp: owns_def)
  moreover have "ss_pc ?t q \<noteq> Succeeded" "ss_pc s q \<noteq> Succeeded" for q using none [of q] by (auto simp: owns_def)
  ultimately show ?case using swap by (simp add: spawn_inv_def)
next
  case (started s p)
  let ?t = "jump p Succeeded (s\<lparr>ss_started := ss_started s + 1\<rparr>)"
  have own: "owns s p" using started by (simp add: owns_def)
  have "ss_pc s q \<noteq> Succeeded" for q
  proof
    assume "ss_pc s q = Succeeded"
    then have "q = p" using started(2) own by (simp add: spawn_inv_def owns_def)
    with \<open>ss_pc s q = Succeeded\<close> started(1) show False by simp
  qed
  moreover have "owns ?t q \<longleftrightarrow> owns s q" for q using own by (auto simp: owns_def)
  moreover have "ss_pc ?t p = Succeeded" by simp
  ultimately show ?case using started(2) unfolding spawn_inv_def by auto
next
  case (reset s p)
  let ?t = "jump p Outside (s\<lparr>ss_inFlight := False\<rparr>)"
  have own: "owns s p" using reset by (auto simp: owns_def)
  have only: "q = p" if "owns s q" for q using reset(2) own that by (simp add: spawn_inv_def)
  have "\<not> owns ?t q" for q using only [of q] by (auto simp: owns_def)
  moreover have "ss_pc ?t q \<noteq> Succeeded" "ss_pc s q \<noteq> Succeeded" for q
    using only [of q] reset(1) by (auto simp: owns_def)
  ultimately show ?case using reset(2) by (simp add: spawn_inv_def)
next
  case (action_begins s)
  then show ?case by (simp add: spawn_inv_def owns_def)
next
  case (action_ends s)
  then show ?case by (simp add: spawn_inv_def owns_def)
next
  case (inspected s p)
  show ?case by (rule owner_moves [OF inspected(2), of p ParentKnown]) (use inspected(1) in \<open>simp_all add: owns_def\<close>)
next
  case (inspect_fails s p)
  show ?case by (rule owner_moves [OF inspect_fails(2), of p Failed]) (use inspect_fails(1) in \<open>simp_all add: owns_def\<close>)
next
  case (made s p)
  show ?case by (rule owner_moves [OF made(2), of p HelperMade]) (use made(1) in \<open>simp_all add: owns_def\<close>)
next
  case (create_fails s p)
  show ?case by (rule owner_moves [OF create_fails(2), of p Failed]) (use create_fails(1) in \<open>simp_all add: owns_def\<close>)
next
  case (start_fails s p)
  show ?case by (rule owner_moves [OF start_fails(2), of p StartFailed]) (use start_fails(1) in \<open>simp_all add: owns_def\<close>)
next
  case (removed s p)
  show ?case by (rule owner_moves [OF removed(2), of p HelperGone]) (use removed(1) in \<open>simp_all add: owns_def\<close>)
next
  case (remove_fails s p)
  show ?case by (rule owner_moves [OF remove_fails(2), of p HelperGone]) (use remove_fails(1) in \<open>simp_all add: owns_def\<close>)
next
  case (count_zero s p)
  show ?case by (rule bystander_moves) (use count_zero in \<open>simp_all add: owns_def\<close>)
next
  case (busy s p)
  show ?case by (rule bystander_moves) (use busy in \<open>simp_all add: owns_def\<close>)
qed

lemma spawn_reach_inv: "spawn_reach s \<Longrightarrow> spawn_inv s"
proof (induction rule: spawn_reach.induct)
  case init
  show ?case by (simp add: spawn_inv_def spawn_init_def owns_def)
qed (rule spawn_inv_step)

section \<open>Properties\<close>

text \<open>
  C15. At most one helper, whatever the interleaving: however many requests call \<open>Spawn\<close> at
  once and whatever the daemon answers, at most one goroutine is past the compare-and-swap,
  the flag is set exactly while there is one, and at most one helper is ever started; once
  it is, no later call of the process gets past the flag.
\<close>

theorem one_helper_in_every_interleaving:
  assumes "spawn_reach s"
  shows "(owns s p \<and> owns s q \<longrightarrow> p = q) \<and> (ss_inFlight s \<longleftrightarrow> (\<exists>p. owns s p)) \<and> ss_started s \<le> 1 \<and>
    (ss_pc s p = Succeeded \<longrightarrow> ss_started s = 1 \<and> (\<forall>t. spawn_step s t \<longrightarrow> ss_inFlight t \<and> ss_pc t p = Succeeded))"
proof -
  have inv: "spawn_inv s" using assms by (rule spawn_reach_inv)
  have "ss_inFlight t \<and> ss_pc t p = Succeeded" if "ss_pc s p = Succeeded" "spawn_step s t" for t
  proof -
    have "owns s p" using that(1) by (simp add: owns_def)
    then have only: "\<And>q. owns s q \<Longrightarrow> q = p" and "ss_inFlight s" using inv by (auto simp: spawn_inv_def)
    have no_reset: "ss_pc s q \<noteq> Failed" "ss_pc s q \<noteq> HelperGone" for q
      using only [of q] that(1) by (auto simp: owns_def)
    from that(2) show ?thesis
      by (cases rule: spawn_step.cases) (use that(1) no_reset \<open>ss_inFlight s\<close> in auto)
  qed
  moreover have "ss_started s = 1" if "ss_pc s p = Succeeded" using inv that by (auto simp: spawn_inv_def)
  ultimately show ?thesis using inv unfolding spawn_inv_def by auto
qed

text \<open>Two requests that have both read the counter; the second one meets the flag of the first.\<close>

definition two_callers :: spawn_sys where
  "two_callers = jump 0 FlagTaken (jump 1 CountRead (jump 0 CountRead spawn_init)\<lparr>ss_inFlight := True\<rparr>)"

lemma two_callers_reach: "spawn_reach two_callers"
proof -
  have a: "spawn_step spawn_init (jump 0 CountRead spawn_init)"
    by (rule spawn_step.count_zero) (simp_all add: spawn_init_def)
  have b: "spawn_step (jump 0 CountRead spawn_init) (jump 1 CountRead (jump 0 CountRead spawn_init))"
    by (rule spawn_step.count_zero) (simp_all add: spawn_init_def)
  have c: "spawn_step (jump 1 CountRead (jump 0 CountRead spawn_init)) two_callers"
    unfolding two_callers_def by (rule spawn_step.swap) (simp_all add: spawn_init_def)
  show ?thesis
    by (rule spawn_reach.step [OF spawn_reach.step [OF spawn_reach.step [OF spawn_reach.init a] b] c])
qed

theorem one_helper_in_every_interleaving_witness:
  "spawn_reach two_callers \<and> ss_pc two_callers 1 = CountRead \<and> ss_inFlight two_callers \<and> ss_started two_callers \<le> 1"
  using one_helper_in_every_interleaving [OF two_callers_reach] two_callers_reach
  by (simp add: two_callers_def)

text \<open>
  The check of the counter and the start of the helper are not one step: an action that
  begins in between runs while the helper is started to replace the process.
\<close>

lemma action_may_begin_after_check:
  "\<exists>s. spawn_reach s \<and> 0 < ss_actions s \<and> ss_started s = 1"
proof -
  let ?s1 = "jump 0 CountRead spawn_init"
  let ?s2 = "?s1\<lparr>ss_actions := ss_actions ?s1 + 1\<rparr>"
  let ?s3 = "jump 0 FlagTaken (?s2\<lparr>ss_inFlight := True\<rparr>)"
  let ?s4 = "jump 0 ParentKnown ?s3"
  let ?s5 = "jump 0 HelperMade (?s4\<lparr>ss_made := ss_made ?s4 + 1\<rparr>)"
  let ?s6 = "jump 0 Succeeded (?s5\<lparr>ss_started := ss_started ?s5 + 1\<rparr>)"
  have "spawn_step spawn_init ?s1" by (rule spawn_step.count_zero) (simp_all add: spawn_init_def)
  with spawn_reach.init have "spawn_reach ?s1" by (rule spawn_reach.step)
  then have "spawn_reach ?s2" by (rule spawn_reach.step) (rule spawn_step.action_begins)
  then have "spawn_reach ?s3" by (rule spawn_reach.step) (rule spawn_step.swap, simp_all add: spawn_init_def)
  then have "spawn_reach ?s4" by (rule spawn_reach.step) (rule spawn_step.inspected, simp)
  then have "spawn_reach ?s5" by (rule spawn_reach.step) (rule spawn_step.made, simp)
  then have "spawn_reach ?s6" by (rule spawn_reach.step) (rule spawn_step.started, simp)
  moreover have "0 < ss_actions ?s6 \<and> ss_started ?s6 = 1" by (simp add: spawn_init_def)
  ultimately show ?thesis by blast
qed

end
