(* ===== verification/Spec2Isabelle.thy ===== *)
theory Spec2Isabelle
  imports Poller Discovery Orchestrator Mutex Daemon Scheduler Sigkill Spawn_Race
begin

text \<open>
  A model of docker-update, a daemon that watches the containers of a compose
  project, polls their registries for new digests and updates, rolls back or pulls
  on request, with the theorems that make its parts correct.

  \<^bold>\<open>The program.\<close> One document (\<open>internal/state\<close>) holds a row per watched service. It
  is written by one goroutine, the consumer of a channel of messages
  (\<open>internal/poll/channel.go\<close>); a message is a function on the document. Three
  producers read the document and send messages: the discoverer
  (\<open>internal/docker/discovery.go\<close>, the event stream of the daemon), the poller
  (\<open>internal/poll/poller.go\<close>, a timed sweep over the registries) and the action
  orchestrator (\<open>internal/actions\<close>), which an HTTP request starts. An action takes
  the mutex of its service, pulls or retags, recreates the container
  (\<open>internal/recreate\<close>) and watches it for a while. The program updates itself by
  starting a helper container of its own image (\<open>internal/selfupdate\<close>).

  \<^bold>\<open>The theories\<close>, in the order of their imports, with the files they model:

    \<^item> \<open>Prelude\<close>: strings, integers at 64 bits, durations and times, error values
      of Go; the named collections.
    \<^item> \<open>State_Schema\<close>: \<open>internal/state\<close> (schema.go, notes.go, store.go, persist.go).
      The document is \<open>AppState\<close>, the store a pair of document and file content; a
      second, heap version of the store shows what \<open>Get\<close> shares. The locale
      \<open>state_store\<close> is what the consumer needs of a store; both are instances.
    \<^item> \<open>Time_Text\<close>, \<open>Json\<close>, \<open>Struct_Json\<close>, \<open>State_Json\<close>: the text of times and of JSON as
      the standard library writes and reads it, structs as tables of tagged fields (the
      locale \<open>struct_wire\<close> is the contract of such a table), and the tables of schema.go
      and of \<open>api/types.go\<close>, which are its instances. \<open>state_codec\<close> is the codec of the
      store.
    \<^item> \<open>Channel\<close>: \<open>poll/channel.go\<close>, the bounded channel and \<open>RunUpdater\<close> as the step
      relation \<open>chan_step\<close>.
    \<^item> \<open>Document\<close>: the invariant \<open>state_ok\<close> of the document and the locale \<open>producer\<close>,
      the contract of a component that sends messages.
    \<^item> \<open>Effects\<close>: \<open>docker/client.go\<close> and \<open>docker/moby.go\<close>. Every external call is a field
      of the record \<open>Env\<close> over an arbitrary external state; a computation is a state
      monad over that state and a trace of effects. \<open>ensures\<close> is the logic the
      other theories use: it speaks of the result and the appended effects.
    \<^item> \<open>Patterns\<close>, \<open>Poller\<close>: \<open>poll/patterns.go\<close>, \<open>poll/poller.go\<close>. The sweep with its
      bounded workers is the step relation \<open>sweep_step\<close>.
    \<^item> \<open>Scheduler\<close>: \<open>cronPoller.Run\<close> around the sweeps the cron library starts.
    \<^item> \<open>Sigkill\<close>: \<open>cmd/sigkillhelper/main.go\<close>, a writer that is killed.
    \<^item> \<open>Discovery\<close>: \<open>docker/discovery.go\<close>, the boot list, the event handlers and the
      reconnect loop.
    \<^item> \<open>Recreate\<close>: \<open>recreate/translate.go\<close>, \<open>recreate/recreate.go\<close>.
    \<^item> \<open>Verify\<close>, \<open>Mutex\<close>, \<open>Compose_Reader\<close>, \<open>Orchestrator\<close>: \<open>actions/verify.go\<close>,
      \<open>actions/mutex.go\<close> (an interleaving step relation), \<open>compose/*.go\<close>,
      \<open>actions/orchestrator.go\<close> and \<open>actions/errors.go\<close>.
    \<^item> \<open>Base64\<close>, \<open>Registry\<close>, \<open>Http\<close>: the encoding of the standard library,
      \<open>registry/*.go\<close>, and \<open>api/auth.go\<close>, \<open>api/tls.go\<close> over requests and responses.
    \<^item> \<open>Selfupdate\<close>: \<open>selfupdate/spawn.go\<close>, \<open>selfupdate/orchestrate.go\<close>.
    \<^item> \<open>Spawn_Race\<close>: concurrent calls of \<open>Spawn\<close>, an interleaving step relation.
    \<^item> \<open>Handlers\<close>: \<open>actions/middleware.go\<close> and the handlers of \<open>internal/api\<close>. The
      locale \<open>locked_action\<close> is what a handler relies on in an action; the three actions
      of \<open>Orchestrator\<close> are its instances.
    \<^item> \<open>Static\<close>, \<open>Routes\<close>: \<open>api/static.go\<close>, and the route table of \<open>api/server.go\<close>
      behind the authentication, which is the handler \<open>main.go\<close> serves.
    \<^item> \<open>Boot\<close>: the log redaction, the configuration and the helper mode of
      \<open>cmd/docker-update/main.go\<close>.
    \<^item> \<open>Daemon\<close>: \<open>main\<close> itself, from its flags to its listeners, with every fatal exit; the
      constructor of the daemon client, the MIME registrations and the servers' timeouts.
    \<^item> this theory: the wiring of \<open>main.go\<close>, one channel, one consumer, three producers.

  \<^bold>\<open>What is proved.\<close> In every interleaving of consumer and producers the document
  keeps its invariant and loses no row, because each producer satisfies the contract
  of the locale \<open>producer\<close>; the components' own computations are shown to send only
  such messages. The store survives a restart through its JSON text, field by field, a
  killed writer leaves the document of one of its writes, and a restarted process serves
  that document in the wire types of the API. The boot starts the consumer before every
  producer and listener, and ends fatally only when one of its inputs is refused or a
  listener's server ends. The consumer applies the messages
  in order and loses none on shutdown, and the poller's goroutine returns only after its
  last sweep. Update, Rollback and ForcePull have an exact
  effect on their row for every answer of the daemon, take and release the lock of
  the service on every path, and leave no row in flight while the request lives; a
  rollback never pulls and refuses what is not a downgrade. A recreate makes exactly
  the calls of its plan, and a failing one leaves the old container or says so. A
  sweep keeps its concurrency and ends with the same messages in any order. The
  handlers have an effect only for an admitted request and answer with fixed texts;
  without POST or without the credentials a request changes nothing; the health
  endpoint, the basic authentication, the error classes of the registry and the
  redaction of string attributes in the log are characterised exactly. The helper of a
  self update is started at most once in every interleaving of requests, works in a fixed
  order, reports success only after a healthy answer, and ends.

  \<^bold>\<open>Bounds and fuel.\<close> The channel has the capacity 64 of \<open>main.go\<close>. The verify loop is
  total: each turn raises the counter of good ticks or returns, so the target minus
  the counter is its measure. The helper's health loop ends only by the clock and
  has fuel; with a clock that advances by \<open>d\<close> per wait, one more round than the
  timeout divided by \<open>d\<close> is enough, and that is a theorem. The discoverer reads a
  finite list of subscriptions, one per connection. The JSON parser has fuel, twice the
  length of the text and one more, which is proved to be enough for every text, and the
  nesting limit 10000 of the library. All other loops are structural or have a measure.
  Machine integers that can wrap (the configured windows, the backoff) wrap at 64 bits.

  \<^bold>\<open>Parameters.\<close> The SDK of the daemon, the registry library, the file system, the
  offset of the time zone, the text of a decoding error, the schedule parser, the
  library's file server, when and how a listener's server ends, the regular expressions
  of the tag patterns, \<open>time.ParseDuration\<close>, the clock, the order of a range loop over a map and the choice of a select are
  arguments; where a theorem needs their documented behaviour it is a named
  hypothesis (for example \<open>fair_range\<close>, \<open>sorts\<close>, \<open>clock_advances\<close>).

  \<^bold>\<open>Not modelled.\<close> The answer of \<open>http.ServeMux\<close> to a path that is not canonical (a
  parameter of the routes) and the loop of the library's HTTP server over its
  connections; the calculation of the ticks in the cron library, which is an environment
  that may start a sweep at any time while it runs; log lines, of which only the
  redaction and the markers of the boot are modelled; hooks that only tests use
  (\<open>SetSleeperForTest\<close>, \<open>newPollerForTest\<close>, \<open>newDiscovererWithStore\<close>); the read-write
  mutex of the pattern cache, whose operations are atomic here. They are output or calls
  into a library. Two overlaps are left out as well: a sweep matches all its rows
  against the pattern cache it began with, although an event may change the cache
  meanwhile, and the computations of the actions send without waiting while the request
  lives (the full channel is in \<open>chan_step\<close>).
\<close>

section \<open>The wired daemon\<close>

text \<open>
  \<open>cmd/docker-update/main.go\<close>, steps 4.9 to 5.9: one channel of capacity 64, one
  consumer (\<open>RunUpdater\<close>) and three producers (discoverer, cron poller, action
  orchestrator) that read the store and send messages. A state is the channel
  system together with the documents the producers have read so far; a producer
  may act on any of them, however old.
\<close>

definition service_sends :: "AppState \<Rightarrow> StateUpdate \<Rightarrow> bool" where
  "service_sends snap u \<longleftrightarrow> poll_sends snap u \<or> discovery_sends snap u \<or> action_sends snap u"

interpretation service: producer service_sends
  by unfold_locales (auto simp: service_sends_def intro: poll.safe discovery.safe actions.safe)

type_synonym 's service = "'s chan_sys \<times> AppState set"

inductive service_step ::
  "('s \<Rightarrow> AppState) \<Rightarrow> ((AppState \<Rightarrow> AppState) \<Rightarrow> 's \<Rightarrow> 's) \<Rightarrow> 's service \<Rightarrow> 's service \<Rightarrow> bool"
  for get :: "'s \<Rightarrow> AppState" and update :: "(AppState \<Rightarrow> AppState) \<Rightarrow> 's \<Rightarrow> 's" where
  read: "service_step get update (c, seen) (c, insert (get (cs_store c)) seen)"
| produce: "snap \<in> seen \<Longrightarrow> service_sends snap u \<Longrightarrow> length (cs_buf c) < 64 \<Longrightarrow>
    service_step get update (c, seen)
      (c\<lparr>cs_buf := cs_buf c @ [u], cs_sent := cs_sent c @ [u]\<rparr>, seen)"
| consume: "chan_step 64 update c c' \<Longrightarrow> cs_sent c' = cs_sent c \<Longrightarrow>
    service_step get update (c, seen) (c', seen)"

inductive service_reach ::
  "('s \<Rightarrow> AppState) \<Rightarrow> ((AppState \<Rightarrow> AppState) \<Rightarrow> 's \<Rightarrow> 's) \<Rightarrow> 's \<Rightarrow> 's service \<Rightarrow> bool"
  for get :: "'s \<Rightarrow> AppState" and update :: "(AppState \<Rightarrow> AppState) \<Rightarrow> 's \<Rightarrow> 's" and s0 :: 's where
  boot: "service_reach get update s0 (chan_init s0, {})"
| run: "service_reach get update s0 x \<Longrightarrow> service_step get update x y \<Longrightarrow> service_reach get update s0 y"

section \<open>The document invariant of the daemon\<close>

context state_store
begin

lemma service_reach_chan:
  "service_reach get update s0 x \<Longrightarrow> chan_reach 64 update s0 (fst x)"
proof (induction rule: service_reach.induct)
  case boot
  show ?case by (simp add: chan_reach.init)
next
  case (run x y)
  from run.hyps(2) run.IH show ?case
    by (induction rule: service_step.induct) (auto intro: chan_reach.step chan_step.send)
qed

text \<open>The documents read so far are those of prefixes of the history that have been applied.\<close>

definition service_inv :: "'s \<Rightarrow> 's service \<Rightarrow> bool" where
  "service_inv s0 = (\<lambda>(c, seen). service.licensed (get s0) (cs_sent c) \<and>
     (\<forall>snap \<in> seen. \<exists>j \<le> length (cs_sent c). snap = service.doc (get s0) (take j (cs_sent c))))"

lemma store_is_prefix_doc:
  assumes "chan_reach 64 update s0 c"
  shows "\<exists>j \<le> length (cs_sent c). get (cs_store c) = service.doc (get s0) (take j (cs_sent c))"
proof -
  from fifo_prefix [OF assms] obtain us where "cs_sent c = us @ cs_buf c"
    and "get (cs_store c) = service.doc (get s0) us"
    by (auto simp: service.doc_def)
  then show ?thesis by (intro exI [of _ "length us"]) simp
qed

lemma service_step_inv:
  assumes "service_step get update x y" and "chan_reach 64 update s0 (fst x)" and "service_inv s0 x"
  shows "service_inv s0 y"
  using assms
proof (induction rule: service_step.induct)
  case (read c seen)
  then show ?case using store_is_prefix_doc by (auto simp: service_inv_def)
next
  case (produce snap seen u c)
  then obtain j where "j \<le> length (cs_sent c)"
    and "service_sends (service.doc (get s0) (take j (cs_sent c))) u"
    by (auto simp: service_inv_def)
  with produce have "service.licensed (get s0) (cs_sent c @ [u])"
    by (intro service.licensed_snocI) (auto simp: service_inv_def)
  moreover have "\<exists>j \<le> length (cs_sent c @ [u]). s = service.doc (get s0) (take j (cs_sent c @ [u]))"
    if "s \<in> seen" for s
  proof -
    from that produce obtain i where "i \<le> length (cs_sent c)"
      and "s = service.doc (get s0) (take i (cs_sent c))"
      by (auto simp: service_inv_def)
    then show ?thesis by (intro exI [of _ i]) simp
  qed
  ultimately show ?case by (simp add: service_inv_def)
qed (simp add: service_inv_def)

lemma service_reach_inv: "service_reach get update s0 x \<Longrightarrow> service_inv s0 x"
proof (induction rule: service_reach.induct)
  case boot
  show ?case by (simp add: service_inv_def service.licensed_def chan_init_def)
next
  case (run x y)
  then show ?case using service_reach_chan service_step_inv by blast
qed

lemma service_doc_good:
  assumes "state_ok (get s0)" and "service_reach get update s0 (c, seen)"
    and "doc = get (cs_store c) \<or> doc \<in> seen"
  shows "state_ok doc \<and> dom (Containers (get s0)) \<subseteq> dom (Containers doc)"
proof -
  have lic: "service.licensed (get s0) (cs_sent c)"
    using service_reach_inv [OF assms(2)] by (simp add: service_inv_def)
  obtain j where "doc = service.doc (get s0) (take j (cs_sent c))"
    using assms(3) service_reach_inv [OF assms(2)] store_is_prefix_doc [of s0 c]
      service_reach_chan [OF assms(2)]
    by (auto simp: service_inv_def)
  moreover have "service.licensed (get s0) (take j (cs_sent c))"
    using lic service.licensed_prefix [of _ "take j (cs_sent c)" "drop j (cs_sent c)"] by simp
  ultimately show ?thesis
    using assms(1) service.licensed_ok service.licensed_rows_stay by blast
qed

end

text \<open>
  C1. The invariant of the running daemon: whatever the interleaving of the three
  producers, of their stale reads and of the consumer, every document the store
  ever holds is well formed (a row is filed under its own service, carries only
  \<open>hmi-update.\<close> labels, one of the known notes and one of the known in-flight
  states, and no tag when it is pinned) and no row of the booted document is ever
  lost.
\<close>

theorem document_invariant:
  assumes "service_reach (\<lambda>sd. Get (fst sd)) (update_disk j f) sd (c, seen)" and "state_ok (Get (fst sd))"
  shows "state_ok (Get (fst (cs_store c))) \<and>
    dom (Containers (Get (fst sd))) \<subseteq> dom (Containers (Get (fst (cs_store c))))"
  by (rule disk_store.service_doc_good [OF assms(2,1)]) simp

text \<open>A run: a producer reads the booted document, sends the start of a sweep, the consumer applies it.\<close>

definition demo_running :: "(Store \<times> string option) chan_sys" where
  "demo_running = (chan_init demo_store)\<lparr>cs_sent := [sweep_start_msg 5],
     cs_store := demo_update (Apply (sweep_start_msg 5)) demo_store\<rparr>"

lemma demo_running_reach:
  "service_reach (\<lambda>sd. Get (fst sd)) demo_update demo_store (demo_running, {Get fresh_store})"
proof -
  let ?g = "\<lambda>sd. Get (fst sd)" and ?c0 = "chan_init demo_store" and ?u = "sweep_start_msg 5"
  let ?c1 = "?c0\<lparr>cs_buf := [?u], cs_sent := [?u]\<rparr>"
  have 0: "service_reach ?g demo_update demo_store (?c0, {Get fresh_store})"
    using service_reach.run [OF service_reach.boot service_step.read, of ?g demo_update demo_store]
    by (simp add: chan_init_def)
  have "service_step ?g demo_update (?c0, {Get fresh_store})
      (?c0\<lparr>cs_buf := cs_buf ?c0 @ [?u], cs_sent := cs_sent ?c0 @ [?u]\<rparr>, {Get fresh_store})"
    by (rule service_step.produce [of "Get fresh_store"])
       (simp_all add: service_sends_def poll_sends_intros chan_init_def)
  from service_reach.run [OF 0 this]
  have 1: "service_reach ?g demo_update demo_store (?c1, {Get fresh_store})"
    by (simp add: chan_init_def)
  have "chan_step 64 demo_update ?c1 (?c1\<lparr>cs_buf := [], cs_store := demo_update (Apply ?u) (cs_store ?c1)\<rparr>)"
    by (rule chan_step.receive) (simp_all add: chan_init_def)
  from service_reach.run [OF 1 service_step.consume [OF this]]
  show ?thesis by (simp add: demo_running_def chan_init_def)
qed

theorem document_invariant_witness: "state_ok (Get (fst (cs_store demo_running)))"
proof -
  have "state_ok (Get (fst demo_store))" by (simp add: fresh_store_def Get_def)
  from document_invariant [OF demo_running_reach this] show ?thesis by blast
qed

text \<open>
  C26. The producers of the daemon are what the step relation says: every message
  that an update, a rollback, a forced pull, a life of the discoverer or a sweep
  puts on the channel is one the relation licenses, the sweep's with the document
  its rows were read from.
\<close>

theorem components_are_producers:
  assumes "m \<in> {Update E oc service, Rollback E oc service, ForcePull E oc service b}"
    and "run_state m w = (r, w')"
    and "run_state (Discoverer_Run E R d ss ps) v = (x, v')"
    and "sweep_reach V s" and "set (se_rows V) \<subseteq> ran (Containers snap)"
  shows "(\<exists>es. trace w' = trace w @ es \<and> {u. ESend u \<in> set es} \<subseteq> Collect (service_sends snap)) \<and>
    (\<exists>es. trace v' = trace v @ es \<and> {u. ESend u \<in> set es} \<subseteq> Collect (service_sends snap)) \<and>
    set (sw_sent s) \<subseteq> Collect (service_sends snap)"
proof (intro conjI)
  from assms(1) have "m = Update E oc service \<or> m = Rollback E oc service \<or> m = ForcePull E oc service b"
    by blast
  from actions_send [OF this assms(2), of snap]
  show "\<exists>es. trace w' = trace w @ es \<and> {u. ESend u \<in> set es} \<subseteq> Collect (service_sends snap)"
    by (auto simp: service_sends_def)
  show "\<exists>es. trace v' = trace v @ es \<and> {u. ESend u \<in> set es} \<subseteq> Collect (service_sends snap)"
    using onlyD [OF only_Run assms(3)] by (fastforce simp: service_sends_def discovery_effect_def)
  show "set (sw_sent s) \<subseteq> Collect (service_sends snap)"
    using sweep_sends [OF assms(4,5)] by (auto simp: service_sends_def)
qed

theorem components_are_producers_witness:
  "set (sw_sent demo_finished) \<subseteq> Collect (service_sends (empty_state\<lparr>Containers :=
     [''a'' \<mapsto> demo_row ''a'', ''p'' \<mapsto> (demo_row ''p'')\<lparr>Pinned := True\<rparr>, ''b'' \<mapsto> demo_row ''b'']\<rparr>))"
proof -
  let ?st = "empty_state\<lparr>Containers :=
     [''a'' \<mapsto> demo_row ''a'', ''p'' \<mapsto> (demo_row ''p'')\<lparr>Pinned := True\<rparr>, ''b'' \<mapsto> demo_row ''b'']\<rparr>"
  have "Update demo_env demo_oc ''web'' \<in>
      {Update demo_env demo_oc ''web'', Rollback demo_env demo_oc ''web'', ForcePull demo_env demo_oc ''web'' True}"
    by (rule insertI1)
  moreover have "set (se_rows demo_sweep) \<subseteq> ran (Containers ?st)"
  proof -
    have "Containers ?st ''a'' = Some (demo_row ''a'')" "Containers ?st ''b'' = Some (demo_row ''b'')"
      "Containers ?st ''p'' = Some ((demo_row ''p'')\<lparr>Pinned := True\<rparr>)" by simp_all
    note rows = this [THEN ranI [of "Containers ?st"]]
    show ?thesis unfolding demo_sweep_def sweep_env.simps list.set insert_subset
      by (intro conjI rows empty_subsetI)
  qed
  ultimately show ?thesis
    by (rule components_are_producers [OF _ prod.collapse [symmetric, of "run_state (Update demo_env demo_oc ''web'') world0"]
        prod.collapse [symmetric, of "run_state (Discoverer_Run demo_env always_match NewDiscoverer demo_subs
          (Some Map.empty)) world0"] demo_finished_reach, THEN conjunct2, THEN conjunct2])
qed

section \<open>Across a restart\<close>

text \<open>
  C20. A restart loses nothing that was persisted, and serves it: after an \<open>Update\<close> that
  reached the disk, a process that boots on that disk leaves it as it is, and until its
  first mutation \<open>GET /api/state\<close> answers with a body that decodes into the wire types
  with every value of the persisted document.
\<close>

theorem restart_serves_document:
  assumes "atomic_fs (h_fs h)" and "doc_ok (fn (Get s))"
    and "Store_Update (boot_codec h) (h_fs h) fn s d = (None, s', d1)"
    and "run_state (main_server h d1) w = ((evs, Some b, d2), w')"
    and "env_store (h_env h) (ext v) = (Get (bt_store b), x)"
  shows "d2 = d1 \<and>
    (\<exists>resp. run_state (getState (h_env h) (bt_server b) r) v = (Some resp, v\<lparr>ext := x\<rparr>) \<and> rp_Status resp = 200 \<and>
       Option.bind (parse_json (body_bytes (rp_Body resp))) read_api_state = Some (to_api_state (fn (Get s))))"
proof -
  obtain j where j: "state_json (env_zone (h_env h)) (fn (Get s)) = Inr j"
    using assms(3)
    by (auto simp: Store_Update_def persist_def boot_codec_def state_codec_def Get_def Let_def split: prod.splits sum.splits)
  have "reads_back (boot_codec h) (fn (Get s))"
    unfolding reads_back_def boot_codec_def using state_codec_reads_back [OF assms(2)] by simp
  then have reopened: "open_store h d1 =
      (Inr \<lparr>store_path = bc_statePath (read_config (h_getenv h)), store_state = fn (Get s)\<rparr>, d1)"
    unfolding open_store_def by (rule reboot_after_update [OF assms(1) _ assms(3)])
  from assms(4) have booted: "fully_wired h b" "open_store h d1 = (Inr (bt_store b), d2)"
    by (cases rule: main_server_cases, simp_all)+
  then have st: "bt_store b = \<lparr>store_path = bc_statePath (read_config (h_getenv h)), store_state = fn (Get s)\<rparr>"
    and "d2 = d1" using reopened by simp_all
  have "Get (bt_store b) = fn (Get s)" unfolding st by (simp add: Get_def)
  note this \<open>d2 = d1\<close>
  moreover have "sv_store (bt_server b)" using booted(1) by (simp add: fully_wired_def Let_def)
  ultimately show ?thesis using getState_wire [OF _ assms(5)] assms(2) j by simp
qed

theorem restart_serves_document_witness:
  "\<exists>b resp evs w'. run_state (main_server demo_host (Some (print_json (Some 0) sample_json))) world0 =
       ((evs, Some b, Some (print_json (Some 0) sample_json)), w')
     \<and> run_state (getState sample_env (bt_server b) web_request) world0 = (Some resp, world0\<lparr>ext := ()\<rparr>)
     \<and> Option.bind (parse_json (body_bytes (rp_Body resp))) read_api_state = Some (to_api_state sample_doc)"
proof -
  let ?d = "Some (print_json (Some 0) sample_json)"
  let ?j = "state_codec (\<lambda>_. 0) errors_New"
  have codec: "boot_codec demo_host = ?j" "h_fs demo_host = cell_fs" "h_env demo_host = sample_env"
    by (simp_all add: boot_codec_def demo_host_def sample_env_def)
  have up: "Store_Update ?j cell_fs (\<lambda>_. sample_doc) fresh_store None = (None, fresh_store\<lparr>store_state := sample_doc\<rparr>, ?d)"
    by (simp add: Store_Update_def persist_def state_codec_def sample_doc_json cell_fs_def fresh_store_def)
  have "reads_back ?j sample_doc" unfolding reads_back_def using state_codec_reads_back [OF sample_doc_ok] by simp
  then have reopened: "open_store demo_host ?d =
      (Inr \<lparr>store_path = bc_statePath (read_config (h_getenv demo_host)), store_state = sample_doc\<rparr>, ?d)"
    unfolding open_store_def codec by (rule reboot_after_update [OF atomic_cell_fs _ up, of _, simplified])
  then have "\<not> boot_fails demo_host ?d world0" by (intro demo_host_boots) simp
  moreover obtain evs res d2 w' where run: "run_state (main_server demo_host ?d) world0 = ((evs, res, d2), w')"
    by (metis prod.collapse)
  ultimately obtain b where b: "res = Some b" "open_store demo_host ?d = (Inr (bt_store b), d2)"
    by (cases rule: main_server_cases [OF run]) blast+
  then have "env_store (h_env demo_host) (ext world0) = (Get (bt_store b), ext world0)"
    using reopened by (auto simp: demo_host_def sample_env_def Get_def)
  from restart_serves_document [OF _ _ _ run [unfolded b] this, of "\<lambda>_. sample_doc" fresh_store None _ web_request]
  show ?thesis using atomic_cell_fs sample_doc_ok up run b unfolding codec by auto
qed

end
